(* ===== verification/Kernel_Prelude.thy ===== *)
theory Kernel_Prelude
  imports Main "HOL-Library.Word"
begin

text \<open>
  Shared vocabulary of the development: the machine integer types of \<^verbatim>\<open>inc/types.h\<close>, the
  result type every fallible kernel operation returns, checked array access, and the generic
  facts on lists and words the component theories rely on.

  A C function that can stop the kernel (a \<open>panic\<close>, an access outside an object, a loop that
  another processor has to end) returns a \<open>result\<close>: \<open>Inl\<close> says why it stopped, \<open>Inr\<close> carries
  the value. \<open>rbind\<close> sequences two such steps.
\<close>

unbundle bit_operations_syntax

named_theorems layout_defs \<open>constants and macros of the address-space layout\<close>
named_theorems kstep \<open>one-step unfoldings of kernel operations\<close>

section \<open>Machine integers\<close>

type_synonym u8 = "8 word"
type_synonym u16 = "16 word"
type_synonym u32 = "32 word"
type_synonym u64 = "64 word"

text \<open>A C \<open>int\<close>/\<open>int32_t\<close> obtained by converting an arbitrary integer value: two's complement.\<close>

definition to_int32 :: "int \<Rightarrow> int" where
  "to_int32 k = sint (word_of_int k :: u32)"

lemma to_int32_id: "- (2 ^ 31) \<le> k \<Longrightarrow> k < 2 ^ 31 \<Longrightarrow> to_int32 k = k"
  unfolding to_int32_def
  by (simp add: sint_sbintrunc' signed_take_bit_int_eq_self)

lemma to_int32_range: "- (2 ^ 31) \<le> to_int32 k \<and> to_int32 k < 2 ^ 31"
  using sint_range_size[of "word_of_int k :: u32"] by (simp add: to_int32_def word_size)

section \<open>Results of operations that may stop the kernel\<close>

datatype kernel_stop =
    Panic string  \<comment> \<open>\<open>panic\<close>, or an \<open>assert\<close> that fails\<close>
  | Fault         \<comment> \<open>an access outside an object or through a null pointer\<close>
  | Spin          \<comment> \<open>a busy-wait that only another processor or device can end\<close>

type_synonym 'a result = "kernel_stop + 'a"

fun rbind :: "'a result \<Rightarrow> ('a \<Rightarrow> 'b result) \<Rightarrow> 'b result" where
  "rbind (Inl e) f = Inl e"
| "rbind (Inr x) f = f x"

definition kassert :: "bool \<Rightarrow> string \<Rightarrow> unit result" where
  "kassert b msg = (if b then Inr () else Inl (Panic msg))"

lemma rbind_Inr_iff: "rbind m f = Inr y \<longleftrightarrow> (\<exists>x. m = Inr x \<and> f x = Inr y)"
  by (cases m) auto

lemma rbind_Inl_iff:
  "rbind m f = Inl e \<longleftrightarrow> m = Inl e \<or> (\<exists>x. m = Inr x \<and> f x = Inl e)"
  by (cases m) auto

lemma rbind_InrE:
  assumes "rbind m f = Inr y"
  obtains x where "m = Inr x" and "f x = Inr y"
  using assms by (auto simp: rbind_Inr_iff)

lemma rbind_assoc: "rbind (rbind m f) g = rbind m (\<lambda>x. rbind (f x) g)"
  by (cases m) auto

lemma rbind_cong [fundef_cong]:
  assumes "m = m'" and "\<And>x. m' = Inr x \<Longrightarrow> f x = g x"
  shows "rbind m f = rbind m' g"
  using assms by (cases m') auto

lemma kassert_Inr [simp]: "kassert b msg = Inr u \<longleftrightarrow> b"
  by (simp add: kassert_def)

lemma kassert_True [simp]: "kassert True msg = Inr ()"
  by (simp add: kassert_def)

lemma kassert_False [simp]: "kassert False msg = Inl (Panic msg)"
  by (simp add: kassert_def)

text \<open>Checked array access: an index outside the array is a fault, never an arbitrary value.\<close>

definition aget :: "'a list \<Rightarrow> nat \<Rightarrow> 'a result" where
  "aget xs i = (if i < length xs then Inr (xs ! i) else Inl Fault)"

definition aset :: "'a list \<Rightarrow> nat \<Rightarrow> 'a \<Rightarrow> 'a list result" where
  "aset xs i v = (if i < length xs then Inr (xs[i := v]) else Inl Fault)"

lemma aget_in [simp]: "i < length xs \<Longrightarrow> aget xs i = Inr (xs ! i)"
  by (simp add: aget_def)

lemma aset_in [simp]: "i < length xs \<Longrightarrow> aset xs i v = Inr (xs[i := v])"
  by (simp add: aset_def)

lemma aget_out [simp]: "length xs \<le> i \<Longrightarrow> aget xs i = Inl Fault"
  by (simp add: aget_def)

lemma aset_out [simp]: "length xs \<le> i \<Longrightarrow> aset xs i v = Inl Fault"
  by (simp add: aset_def)

lemma aget_Inr_iff: "aget xs i = Inr x \<longleftrightarrow> i < length xs \<and> xs ! i = x"
  by (simp add: aget_def)

lemma aset_Inr_iff: "aset xs i v = Inr ys \<longleftrightarrow> i < length xs \<and> ys = xs[i := v]"
  by (auto simp: aset_def)

text \<open>
  A counting loop \<open>for (i = lo; i < lo + n; i++)\<close> whose body may stop the kernel, and the rule
  that reasons about it: an invariant indexed by the counter that every iteration advances.
\<close>

fun kfor :: "nat \<Rightarrow> nat \<Rightarrow> (nat \<Rightarrow> 's \<Rightarrow> 's result) \<Rightarrow> 's \<Rightarrow> 's result" where
  "kfor i 0 body s = Inr s"
| "kfor i (Suc n) body s = rbind (body i s) (kfor (Suc i) n body)"

lemma kfor_inv:
  assumes "P lo s"
    and "\<And>i s. lo \<le> i \<Longrightarrow> i < lo + n \<Longrightarrow> P i s \<Longrightarrow> \<exists>s'. body i s = Inr s' \<and> P (Suc i) s'"
  shows "\<exists>s'. kfor lo n body s = Inr s' \<and> P (lo + n) s'"
  using assms
proof (induction n arbitrary: lo s)
  case (Suc n)
  obtain s1 where s1: "body lo s = Inr s1" "P (Suc lo) s1"
    using Suc.prems(2)[of lo s] Suc.prems(1) by auto
  have "\<exists>s'. kfor (Suc lo) n body s1 = Inr s' \<and> P (Suc lo + n) s'"
    by (rule Suc.IH[OF s1(2)]) (use Suc.prems(2) in auto)
  with s1(1) show ?case by auto
qed simp

section \<open>Generic facts on words and lists\<close>

lemma unat_of_nat32: "n < 2 ^ 32 \<Longrightarrow> unat (of_nat n :: u32) = n"
  by (simp add: unat_of_nat take_bit_nat_eq_self)

lemma of_nat32_inject: "m < 2 ^ 32 \<Longrightarrow> n < 2 ^ 32 \<Longrightarrow> (of_nat m :: u32) = of_nat n \<longleftrightarrow> m = n"
  by (metis unat_of_nat32)

lemma unat_lt_2p32 [simp]: "unat (x :: u32) < 4294967296"
  using unsigned_less[of x] by simp

lemma sint_eq_int_unat:
  assumes "unat (w :: u32) < 2147483648"
  shows "sint w = int (unat w)"
proof -
  have "uint w < 2147483648"
    using assms by (metis nat_int nat_less_eq_zless of_nat_numeral uint_ge_0 unat_eq_nat_uint)
  then have "signed_take_bit 31 (uint w) = uint w"
    by (intro signed_take_bit_int_eq_self) (simp_all add: order_trans[of _ 0])
  then show ?thesis by (simp add: sint_uint)
qed

lemma mod_eq_of_less_mult: "(m::nat) < k * 2 ^ n \<Longrightarrow> m div 2 ^ n < k"
  by (simp add: less_mult_imp_div_less)

lemma set_update_subset: "set (xs[i := v]) \<subseteq> insert v (set xs)"
  by (rule set_update_subset_insert)

end
