(* ===== verification/Mmu_Layout.thy ===== *)
theory Mmu_Layout
  imports Kernel_Prelude
begin

text \<open>
  The paging vocabulary: the rounding macros of \<^verbatim>\<open>inc/types.h\<close>, the address-splitting macros
  and page-table flags of \<^verbatim>\<open>inc/mmu.h\<close>, and the virtual memory map of \<^verbatim>\<open>inc/memlayout.h\<close>.
  Every macro is a function on \<open>u32\<close>, so that its wrap-around is the machine's.
\<close>

section \<open>Rounding (inc/types.h)\<close>

definition ROUNDDOWN :: "u32 \<Rightarrow> u32 \<Rightarrow> u32" where
  "ROUNDDOWN a n = a - a mod n"

definition ROUNDUP :: "u32 \<Rightarrow> u32 \<Rightarrow> u32" where
  "ROUNDUP a n = ROUNDDOWN (a + n - 1) n"

section \<open>Linear addresses (inc/mmu.h)\<close>

definition PGNUM :: "u32 \<Rightarrow> u32" where
  "PGNUM la = drop_bit 12 la"

definition PDX :: "u32 \<Rightarrow> u32" where
  "PDX la = drop_bit 22 la AND 0x3FF"

definition PTX :: "u32 \<Rightarrow> u32" where
  "PTX la = drop_bit 12 la AND 0x3FF"

definition PGOFF :: "u32 \<Rightarrow> u32" where
  "PGOFF la = la AND 0xFFF"

definition PGADDR :: "u32 \<Rightarrow> u32 \<Rightarrow> u32 \<Rightarrow> u32" where
  "PGADDR d t off = push_bit 22 d OR push_bit 12 t OR off"

definition PTE_ADDR :: "u32 \<Rightarrow> u32" where
  "PTE_ADDR pte = pte AND NOT 0xFFF"

definition NPDENTRIES :: nat where [layout_defs]: "NPDENTRIES = 1024"
definition NPTENTRIES :: nat where [layout_defs]: "NPTENTRIES = 1024"
definition PGSIZE :: u32 where [layout_defs]: "PGSIZE = 4096"
definition PTSIZE :: u32 where [layout_defs]: "PTSIZE = PGSIZE * of_nat NPTENTRIES"

definition PTE_P :: u32 where [layout_defs]: "PTE_P = 0x001"
definition PTE_W :: u32 where [layout_defs]: "PTE_W = 0x002"
definition PTE_U :: u32 where [layout_defs]: "PTE_U = 0x004"
definition PTE_PWT :: u32 where [layout_defs]: "PTE_PWT = 0x008"
definition PTE_PCD :: u32 where [layout_defs]: "PTE_PCD = 0x010"

section \<open>The memory map (inc/memlayout.h)\<close>

definition KERNBASE :: u32 where [layout_defs]: "KERNBASE = 0xF0000000"
definition IOPHYSMEM :: u32 where [layout_defs]: "IOPHYSMEM = 0x0A0000"
definition EXTPHYSMEM :: u32 where [layout_defs]: "EXTPHYSMEM = 0x100000"
definition KSTACKTOP :: u32 where [layout_defs]: "KSTACKTOP = KERNBASE"
definition KSTKSIZE :: u32 where [layout_defs]: "KSTKSIZE = 8 * PGSIZE"
definition KSTKGAP :: u32 where [layout_defs]: "KSTKGAP = 8 * PGSIZE"
definition MMIOLIM :: u32 where [layout_defs]: "MMIOLIM = KSTACKTOP - PTSIZE"
definition MMIOBASE :: u32 where [layout_defs]: "MMIOBASE = MMIOLIM - PTSIZE"
definition ULIM :: u32 where [layout_defs]: "ULIM = MMIOBASE"
definition UVPT :: u32 where [layout_defs]: "UVPT = ULIM - PTSIZE"
definition UPAGES :: u32 where [layout_defs]: "UPAGES = UVPT - PTSIZE"
definition UENVS :: u32 where [layout_defs]: "UENVS = UPAGES - PTSIZE"
definition UTOP :: u32 where [layout_defs]: "UTOP = UENVS"
definition USTACKTOP :: u32 where [layout_defs]: "USTACKTOP = UTOP - 2 * PGSIZE"
definition MPENTRY_PADDR :: u32 where [layout_defs]: "MPENTRY_PADDR = 0x7000"

section \<open>Facts on the address-splitting macros\<close>

lemma unat_PGNUM: "unat (PGNUM la) = unat la div 4096"
  by (simp add: PGNUM_def drop_bit_eq_div unat_div)

lemma unat_PGOFF: "unat (PGOFF la) = unat la mod 4096"
proof -
  have "PGOFF la = take_bit 12 la"
    by (simp add: PGOFF_def take_bit_eq_mask mask_numeral)
  then show ?thesis
    by (simp add: take_bit_eq_mod unat_mod)
qed

lemma and_3FF: "x AND (0x3FF :: u32) = take_bit 10 x"
  by (simp add: take_bit_eq_mask mask_numeral)

lemma unat_PDX: "unat (PDX la) = unat la div 4194304"
proof -
  have "unat (PDX la) = unat la div 4194304 mod 1024"
    by (simp add: PDX_def and_3FF take_bit_eq_mod drop_bit_eq_div unat_div unat_mod)
  moreover have "unat la div 4194304 < 1024"
    using unat_lt_2p32[of la] by (simp add: less_mult_imp_div_less)
  ultimately show ?thesis by simp
qed

lemma unat_PTX: "unat (PTX la) = unat la div 4096 mod 1024"
  by (simp add: PTX_def and_3FF take_bit_eq_mod drop_bit_eq_div unat_div unat_mod)

lemma unat_PTE_ADDR: "unat (PTE_ADDR pte) = unat pte - unat pte mod 4096"
proof -
  have "PTE_ADDR pte = pte - take_bit 12 pte"
  proof -
    have "take_bit 12 pte = pte AND 0xFFF"
      by (simp add: take_bit_eq_mask mask_numeral)
    moreover have "pte = (pte AND NOT 0xFFF) + (pte AND 0xFFF)"
    proof -
      have "(pte AND NOT 0xFFF) + (pte AND 0xFFF) = (pte AND NOT 0xFFF) OR (pte AND 0xFFF)"
        by (rule disjunctive_add) (simp add: bit_simps)
      also have "\<dots> = pte"
        by (rule bit_word_eqI) (auto simp: bit_simps)
      finally show ?thesis by simp
    qed
    ultimately show ?thesis by (simp add: PTE_ADDR_def algebra_simps)
  qed
  moreover have "unat (take_bit 12 pte) = unat pte mod 4096"
    by (simp add: take_bit_eq_mod unat_mod)
  moreover have "take_bit 12 pte \<le> pte"
    by (simp add: word_le_nat_alt unsigned_take_bit_eq take_bit_nat_less_eq_self)
  ultimately show ?thesis
    by (simp add: unat_sub)
qed

lemma PDX_less: "unat (PDX la) < NPDENTRIES"
  using unat_lt_2p32[of la] by (simp add: unat_PDX layout_defs less_mult_imp_div_less)

lemma PTX_less: "unat (PTX la) < NPTENTRIES"
  by (simp add: unat_PTX layout_defs)


lemma PGNUM_eq_PDX_PTX: "unat (PGNUM la) = unat (PDX la) * 1024 + unat (PTX la)"
proof -
  have "unat la div 4194304 = unat la div 4096 div 1024"
    by (simp add: div_mult2_eq[symmetric])
  then show ?thesis by (simp add: unat_PGNUM unat_PDX unat_PTX)
qed

lemma PDX_PTX_inj:
  assumes "unat (PDX a) = unat (PDX b)" and "unat (PTX a) = unat (PTX b)"
  shows "PGNUM a = PGNUM b"
  using assms by (metis PGNUM_eq_PDX_PTX word_unat_eq_iff)

lemma PTE_ADDR_flags:
  assumes "unat pa mod 4096 = 0" and "unat fl < 4096"
  shows "PTE_ADDR (pa OR fl) = pa" and "(pa OR fl) AND 0xFFF = fl"
proof -
  have pa0: "take_bit 12 pa = 0"
    using assms(1) by (simp add: word_unat_eq_iff take_bit_eq_mod unat_mod)
  have fl0: "take_bit 12 fl = fl"
    using assms(2) by (simp add: word_unat_eq_iff take_bit_eq_mod unat_mod)
  have m: "(0xFFF :: u32) = mask 12"
    by (simp add: mask_numeral)
  have bpa: "bit pa n \<Longrightarrow> 12 \<le> n" for n
    using pa0 by (metis bit_take_bit_iff bit_0_eq bot_apply bot_bool_def not_le)
  have bfl: "bit fl n \<Longrightarrow> n < 12" for n
    using fl0 by (metis bit_take_bit_iff)
  show "PTE_ADDR (pa OR fl) = pa"
    unfolding PTE_ADDR_def m
    by (rule bit_word_eqI) (use bpa bfl in \<open>auto simp: bit_simps not_less dest: leD\<close>)
  show "(pa OR fl) AND 0xFFF = fl"
    unfolding m
    by (rule bit_word_eqI) (use bpa bfl in \<open>auto simp: bit_simps dest: leD\<close>)
qed

lemma unat_ROUNDDOWN: "unat (ROUNDDOWN a n) = unat a div unat n * unat n"
proof -
  have "unat (a mod n) \<le> unat a"
    by (simp add: unat_mod)
  then have "unat (ROUNDDOWN a n) = unat a - unat a mod unat n"
    by (simp add: ROUNDDOWN_def unat_sub word_le_nat_alt unat_mod)
  then show ?thesis
    by (simp add: minus_mod_eq_div_mult)
qed

lemma unat_ROUNDUP:
  assumes "0 < n" and "unat a + unat n \<le> 2 ^ 32"
  shows "unat (ROUNDUP a n) = (unat a + (unat n - 1)) div unat n * unat n"
proof -
  have n: "0 < unat n"
    using assms(1) by (simp add: word_less_nat_alt)
  have "unat (n - 1) = unat n - 1"
    using n by (simp add: unat_sub word_le_nat_alt Suc_leI)
  then have "unat (a + (n - 1)) = unat a + (unat n - 1)"
    using assms(2) n by (simp add: unat_word_ariths)
  then show ?thesis
    by (simp add: ROUNDUP_def unat_ROUNDDOWN add_diff_eq[symmetric])
qed

lemma take_bit_small: "unat (x :: u32) < 2 ^ k \<Longrightarrow> take_bit k x = x"
  by (simp add: word_unat_eq_iff unsigned_take_bit_eq take_bit_nat_eq_self)

lemma mask_FFF: "x AND (0xFFF :: u32) = take_bit 12 x"
  by (simp add: take_bit_eq_mask mask_numeral)

lemma PGADDR_split: "PGADDR (PDX la) (PTX la) (PGOFF la) = la"
  unfolding PGADDR_def PDX_def PTX_def PGOFF_def and_3FF mask_FFF
proof (rule bit_word_eqI)
  fix n assume "n < LENGTH(32)"
  then show "bit (push_bit 22 (take_bit 10 (drop_bit 22 la)) OR
      push_bit 12 (take_bit 10 (drop_bit 12 la)) OR take_bit 12 la) n = bit la n"
    by (cases "n < 22") (auto simp: bit_simps)
qed

lemma PGADDR_parts:
  assumes "unat d < 1024" and "unat t < 1024" and "unat off < 4096"
  shows "PDX (PGADDR d t off) = d \<and> PTX (PGADDR d t off) = t \<and> PGOFF (PGADDR d t off) = off"
proof -
  have d: "take_bit 10 d = d" and t: "take_bit 10 t = t" and off: "take_bit 12 off = off"
    using assms by (simp_all add: take_bit_small)
  have bd: "bit d n \<Longrightarrow> n < 10" and bt: "bit t n \<Longrightarrow> n < 10" and bo: "bit off n \<Longrightarrow> n < 12" for n
    using d t off by (metis bit_take_bit_iff)+
  have "PDX (PGADDR d t off) = d"
    unfolding PGADDR_def PDX_def and_3FF
    by (rule bit_word_eqI) (use bd bt bo in \<open>fastforce simp: bit_simps\<close>)
  moreover have "PTX (PGADDR d t off) = t"
    unfolding PGADDR_def PTX_def and_3FF
    by (rule bit_word_eqI) (use bd bt bo in \<open>fastforce simp: bit_simps\<close>)
  moreover have "PGOFF (PGADDR d t off) = off"
    unfolding PGADDR_def PGOFF_def mask_FFF
    by (rule bit_word_eqI) (use bd bt bo in \<open>fastforce simp: bit_simps\<close>)
  ultimately show ?thesis by simp
qed

lemma ceiling_multiple:
  assumes "0 < (n::nat)"
  shows "a \<le> (a + (n - 1)) div n * n" and "n dvd m \<Longrightarrow> a \<le> m \<Longrightarrow> (a + (n - 1)) div n * n \<le> m"
proof -
  have "(a + (n - 1)) mod n < n"
    using assms by simp
  moreover have "(a + (n - 1)) div n * n + (a + (n - 1)) mod n = a + (n - 1)"
    by simp
  ultimately show "a \<le> (a + (n - 1)) div n * n"
    by linarith
next
  assume "n dvd m" and "a \<le> m"
  then obtain k where k: "m = k * n" by (metis dvd_div_mult_self)
  have "(a + (n - 1)) div n \<le> (k * n + (n - 1)) div n"
    using \<open>a \<le> m\<close> k by (simp add: div_le_mono)
  also have "\<dots> = k + (n - 1) div n"
    by (rule div_mult_self3) (use assms in simp)
  also have "\<dots> = k"
    using assms by simp
  finally show "(a + (n - 1)) div n * n \<le> m"
    unfolding k by (rule mult_le_mono1)
qed

section \<open>Properties\<close>

text \<open>
  Splitting a linear address with \<open>PDX\<close>, \<open>PTX\<close> and \<open>PGOFF\<close> loses nothing: \<open>PGADDR\<close> of the
  three parts is the address again, and conversely the three macros recover the parts that
  \<open>PGADDR\<close> was given, for every directory index, table index and offset that are in range.
\<close>

lemma pgaddr_roundtrip:
  "PGADDR (PDX la) (PTX la) (PGOFF la) = la \<and>
   (unat d < NPDENTRIES \<longrightarrow> unat t < NPTENTRIES \<longrightarrow> unat off < 4096 \<longrightarrow>
      PDX (PGADDR d t off) = d \<and> PTX (PGADDR d t off) = t \<and> PGOFF (PGADDR d t off) = off)"
  using PGADDR_parts PGADDR_split by (simp add: layout_defs)

text \<open>
  \<open>ROUNDUP a n\<close> is the least multiple of \<open>n\<close> that is not below \<open>a\<close>, as long as that multiple
  is representable (here: \<open>a + n\<close> does not pass the end of the address space).
\<close>

lemma roundup_least_multiple:
  assumes "0 < n" and "unat a + unat n \<le> 2 ^ 32"
  shows "unat n dvd unat (ROUNDUP a n) \<and> unat a \<le> unat (ROUNDUP a n) \<and>
    (\<forall>m. unat n dvd m \<longrightarrow> unat a \<le> m \<longrightarrow> unat (ROUNDUP a n) \<le> m)"
proof -
  have "0 < unat n"
    using assms(1) by (simp add: word_less_nat_alt)
  then show ?thesis
    unfolding unat_ROUNDUP[OF assms] using ceiling_multiple by simp
qed

end
