(* ===== verification/Spinlock.thy ===== *)
theory Spinlock
  imports Mmu_Layout
begin

text \<open>
  \<^verbatim>\<open>kernel/spinlock.c\<close> in its \<open>DEBUG_SPINLOCK\<close> build. The first part models the functions as one
  processor runs them: a lock that another processor holds makes \<open>spin_lock\<close> a \<open>Spin\<close>, the busy
  wait that only a step of that processor can end. The second part interleaves the atomic
  steps of any number of processors and proves mutual exclusion and the absence of the debug
  panics. The locale \<open>mutex\<close> is the contract the clients of the lock (\<^verbatim>\<open>kernel/mem.c\<close>,
  \<^verbatim>\<open>kernel/task.c\<close>) rely on.
\<close>

section \<open>The lock and its operations\<close>

record spinlock =
  lk_locked :: u32
  lk_name :: string
  lk_cpu :: "nat option"  \<comment> \<open>index into \<open>cpus\<close>; \<open>None\<close> is the null pointer\<close>
  lk_pcs :: "u32 list"

text \<open>The stack of the running code: \<open>%ebp\<close> and the words the frame-pointer chain reads.\<close>

type_synonym frames = "u32 \<times> (u32 \<Rightarrow> u32)"

fun caller_pcs :: "nat \<Rightarrow> u32 \<Rightarrow> (u32 \<Rightarrow> u32) \<Rightarrow> u32 list" where
  "caller_pcs 0 ebp stk = []"
| "caller_pcs (Suc n) ebp stk =
     (if ebp = 0 \<or> ebp < ULIM then replicate (Suc n) 0
      else stk (ebp + 4) # caller_pcs n (stk ebp) stk)"

definition get_caller_pcs :: "frames \<Rightarrow> u32 list" where
  "get_caller_pcs fr = caller_pcs 10 (fst fr) (snd fr)"

definition holding :: "nat \<Rightarrow> spinlock \<Rightarrow> bool" where
  "holding thiscpu lk \<longleftrightarrow> lk_locked lk \<noteq> 0 \<and> lk_cpu lk = Some thiscpu"

definition spin_initlock :: "string \<Rightarrow> spinlock \<Rightarrow> spinlock" where
  "spin_initlock nm lk = lk\<lparr>lk_locked := 0, lk_name := nm, lk_cpu := None\<rparr>"

text \<open>\<open>xchg\<close> returns the old value of \<open>locked\<close> and stores the new one, atomically.\<close>

definition xchg_locked :: "u32 \<Rightarrow> spinlock \<Rightarrow> u32 \<times> spinlock" where
  "xchg_locked v lk = (lk_locked lk, lk\<lparr>lk_locked := v\<rparr>)"

definition spin_lock :: "frames \<Rightarrow> nat \<Rightarrow> spinlock \<Rightarrow> spinlock result" where
  "spin_lock fr thiscpu lk =
     (if holding thiscpu lk then Inl (Panic ''cannot acquire: already holding'')
      else let (old, lk) = xchg_locked 1 lk in
        if old \<noteq> 0 then Inl Spin
        else Inr (lk\<lparr>lk_cpu := Some thiscpu, lk_pcs := get_caller_pcs fr\<rparr>))"

text \<open>The error message reads \<open>lk->cpu->cpu_id\<close>, so a lock without owner faults before the panic.\<close>

definition spin_unlock :: "nat \<Rightarrow> spinlock \<Rightarrow> spinlock result" where
  "spin_unlock thiscpu lk =
     (if \<not> holding thiscpu lk
      then (case lk_cpu lk of None \<Rightarrow> Inl Fault | Some _ \<Rightarrow> Inl (Panic ''spin_unlock''))
      else Inr (snd (xchg_locked 0 (lk\<lparr>lk_pcs := (lk_pcs lk)[0 := 0], lk_cpu := None\<rparr>))))"

section \<open>The contract of a lock\<close>

locale mutex =
  fixes acquire :: "'c \<Rightarrow> 'l \<Rightarrow> 'l result"
    and release :: "'c \<Rightarrow> 'l \<Rightarrow> 'l result"
    and free :: "'l \<Rightarrow> bool"
    and held_by :: "'c \<Rightarrow> 'l \<Rightarrow> bool"
  assumes acquire_free: "free l \<Longrightarrow> \<exists>l'. acquire c l = Inr l' \<and> held_by c l'"
    and acquire_held: "held_by c l \<Longrightarrow> \<not> (\<exists>l'. acquire d l = Inr l')"
    and release_held: "held_by c l \<Longrightarrow> \<exists>l'. release c l = Inr l' \<and> free l'"
    and release_other: "held_by c l \<Longrightarrow> d \<noteq> c \<Longrightarrow> \<not> (\<exists>l'. release d l = Inr l')"
    and held_not_free: "held_by c l \<Longrightarrow> \<not> free l"
begin

lemma bracket:
  assumes "free l"
  obtains l1 l2 where "acquire c l = Inr l1" "held_by c l1" "release c l1 = Inr l2" "free l2"
  using acquire_free[OF assms] release_held by metis

lemma held_unique:
  assumes "held_by c l" and "held_by d l"
  shows "c = d"
  using release_other[OF assms(1), of d] release_held[OF assms(2)] by metis

lemma no_second_owner:
  assumes "acquire c l = Inr l'" and "free l"
  shows "\<not> (\<exists>l''. acquire d l' = Inr l'')"
  using acquire_free[OF assms(2), of c] assms(1) acquire_held by auto

end

definition lock_free :: "spinlock \<Rightarrow> bool" where
  "lock_free lk \<longleftrightarrow> lk_locked lk = 0"

interpretation spin: mutex "spin_lock fr" spin_unlock lock_free holding
  by unfold_locales
    (auto simp: spin_lock_def spin_unlock_def holding_def lock_free_def xchg_locked_def
      split: option.splits)

lemma spin_lock_free:
  "lock_free lk \<Longrightarrow> spin_lock fr c lk =
     Inr (lk\<lparr>lk_locked := 1, lk_cpu := Some c, lk_pcs := get_caller_pcs fr\<rparr>)"
  by (simp add: spin_lock_def holding_def lock_free_def xchg_locked_def)

lemma spin_unlock_held:
  "holding c lk \<Longrightarrow> spin_unlock c lk = Inr (lk\<lparr>lk_pcs := (lk_pcs lk)[0 := 0], lk_cpu := None, lk_locked := 0\<rparr>)"
  by (simp add: spin_unlock_def xchg_locked_def)

lemma spin_lock_unlock:
  assumes "lock_free lk" and "spin_lock fr c lk = Inr lk1"
  shows "spin_unlock c lk1 =
    Inr (lk\<lparr>lk_locked := 0, lk_cpu := None, lk_pcs := (get_caller_pcs fr)[0 := 0]\<rparr>)"
  using assms by (auto simp: spin_lock_free spin_unlock_held holding_def)

lemma lock_free_update [simp]: "lock_free (lk\<lparr>lk_locked := 0, lk_cpu := x, lk_pcs := p\<rparr>)"
  by (simp add: lock_free_def)

section \<open>Interleaved processors\<close>

text \<open>
  Each processor is at one of the points between the atomic accesses of \<open>spin_lock\<close> and
  \<open>spin_unlock\<close>; \<open>Stopped\<close> is a processor that hit one of the two debug panics.
\<close>

datatype lock_pc = Outside | Spinning | Acquired | Critical | Releasing | Stopped

record lock_sys =
  sys_lock :: spinlock
  sys_pc :: "nat \<Rightarrow> lock_pc"

inductive lock_step :: "lock_sys \<Rightarrow> lock_sys \<Rightarrow> bool" where
  check_pass: "sys_pc s c = Outside \<Longrightarrow> \<not> holding c (sys_lock s) \<Longrightarrow>
    lock_step s (s\<lparr>sys_pc := (sys_pc s)(c := Spinning)\<rparr>)"
| check_panic: "sys_pc s c = Outside \<Longrightarrow> holding c (sys_lock s) \<Longrightarrow>
    lock_step s (s\<lparr>sys_pc := (sys_pc s)(c := Stopped)\<rparr>)"
| xchg_busy: "sys_pc s c = Spinning \<Longrightarrow> fst (xchg_locked 1 (sys_lock s)) \<noteq> 0 \<Longrightarrow>
    lock_step s (s\<lparr>sys_lock := snd (xchg_locked 1 (sys_lock s))\<rparr>)"
| xchg_take: "sys_pc s c = Spinning \<Longrightarrow> fst (xchg_locked 1 (sys_lock s)) = 0 \<Longrightarrow>
    lock_step s (s\<lparr>sys_lock := snd (xchg_locked 1 (sys_lock s)), sys_pc := (sys_pc s)(c := Acquired)\<rparr>)"
| set_owner: "sys_pc s c = Acquired \<Longrightarrow>
    lock_step s (s\<lparr>sys_lock := (sys_lock s)\<lparr>lk_cpu := Some c, lk_pcs := get_caller_pcs fr\<rparr>,
      sys_pc := (sys_pc s)(c := Critical)\<rparr>)"
| clear_owner: "sys_pc s c = Critical \<Longrightarrow> holding c (sys_lock s) \<Longrightarrow>
    lock_step s (s\<lparr>sys_lock := (sys_lock s)\<lparr>lk_pcs := (lk_pcs (sys_lock s))[0 := 0], lk_cpu := None\<rparr>,
      sys_pc := (sys_pc s)(c := Releasing)\<rparr>)"
| release_panic: "sys_pc s c = Critical \<Longrightarrow> \<not> holding c (sys_lock s) \<Longrightarrow>
    lock_step s (s\<lparr>sys_pc := (sys_pc s)(c := Stopped)\<rparr>)"
| xchg_drop: "sys_pc s c = Releasing \<Longrightarrow>
    lock_step s (s\<lparr>sys_lock := snd (xchg_locked 0 (sys_lock s)), sys_pc := (sys_pc s)(c := Outside)\<rparr>)"

inductive lock_reach :: "string \<Rightarrow> spinlock \<Rightarrow> lock_sys \<Rightarrow> bool" for nm lk0 where
  start: "lock_reach nm lk0 \<lparr>sys_lock = spin_initlock nm lk0, sys_pc = \<lambda>_. Outside\<rparr>"
| step: "lock_reach nm lk0 s \<Longrightarrow> lock_step s t \<Longrightarrow> lock_reach nm lk0 t"

text \<open>A processor owns the lock from its successful \<open>xchg\<close> to the one that drops it.\<close>

definition owns :: "lock_sys \<Rightarrow> nat \<Rightarrow> bool" where
  "owns s c \<longleftrightarrow> sys_pc s c \<in> {Acquired, Critical, Releasing}"

definition lock_sys_inv :: "lock_sys \<Rightarrow> nat option \<Rightarrow> bool" where
  "lock_sys_inv s ow \<longleftrightarrow>
     (lk_locked (sys_lock s) \<noteq> 0 \<longleftrightarrow> ow \<noteq> None) \<and>
     (\<forall>c. owns s c \<longleftrightarrow> ow = Some c) \<and>
     (\<forall>c. lk_cpu (sys_lock s) = Some c \<longleftrightarrow> sys_pc s c = Critical) \<and>
     (\<forall>c. sys_pc s c \<noteq> Stopped)"

lemma lock_sys_inv_start:
  "lock_sys_inv \<lparr>sys_lock = spin_initlock nm lk, sys_pc = \<lambda>_. Outside\<rparr> None"
  by (simp add: lock_sys_inv_def spin_initlock_def owns_def)

text \<open>With an owner \<open>c\<close>, the invariant fixes the point of every other processor.\<close>

lemma lock_sys_inv_owner:
  assumes "owns s c"
  shows "lock_sys_inv s ow \<longleftrightarrow> ow = Some c \<and> lk_locked (sys_lock s) \<noteq> 0 \<and>
    lk_cpu (sys_lock s) = (if sys_pc s c = Critical then Some c else None) \<and>
    (\<forall>d. d \<noteq> c \<longrightarrow> sys_pc s d = Outside \<or> sys_pc s d = Spinning)" (is "?L \<longleftrightarrow> ?R")
proof
  assume ?L
  then have ow: "ow = Some c"
    using assms by (simp add: lock_sys_inv_def)
  have others: "sys_pc s d = Outside \<or> sys_pc s d = Spinning" if "d \<noteq> c" for d
    using \<open>?L\<close> that unfolding lock_sys_inv_def ow owns_def by (cases "sys_pc s d") auto
  moreover have "lk_cpu (sys_lock s) = (if sys_pc s c = Critical then Some c else None)"
  proof (cases "lk_cpu (sys_lock s)")
    case None
    with \<open>?L\<close> show ?thesis by (auto simp: lock_sys_inv_def dest: spec[of _ c])
  next
    case (Some d)
    with \<open>?L\<close> have "sys_pc s d = Critical" by (auto simp: lock_sys_inv_def)
    with others[of d] Some show ?thesis by auto
  qed
  ultimately show ?R
    using \<open>?L\<close> ow by (auto simp: lock_sys_inv_def)
next
  assume R: ?R
  then have "owns s d \<longleftrightarrow> c = d" for d
    using assms by (auto simp: owns_def)
  moreover have "lk_cpu (sys_lock s) = Some d \<longleftrightarrow> sys_pc s d = Critical" for d
    using R by (cases "d = c") auto
  moreover have "sys_pc s d \<noteq> Stopped" for d
    using R assms by (cases "d = c") (auto simp: owns_def)
  ultimately show ?L
    using R by (simp add: lock_sys_inv_def)
qed

lemma lock_step_inv:
  assumes "lock_step s t" and "lock_sys_inv s ow"
  shows "\<exists>ow'. lock_sys_inv t ow'"
  using assms
proof (cases rule: lock_step.cases)
  case (check_pass c)
  with assms(2) have "lock_sys_inv t ow"
    unfolding lock_sys_inv_def owns_def by (simp, force)
  then show ?thesis ..
next
  case (check_panic c)
  with assms(2) have False
    unfolding lock_sys_inv_def holding_def by force
  then show ?thesis ..
next
  case (xchg_busy c)
  with assms(2) have "lock_sys_inv t ow"
    by (simp add: lock_sys_inv_def owns_def xchg_locked_def)
  then show ?thesis ..
next
  case (xchg_take c)
  with assms(2) have "lock_sys_inv t (Some c)"
    unfolding lock_sys_inv_def owns_def xchg_locked_def by auto
  then show ?thesis ..
next
  case (set_owner c fr)
  then have "owns s c" "owns t c" by (simp_all add: owns_def)
  from assms(2) set_owner have "lock_sys_inv t ow"
    unfolding lock_sys_inv_owner[OF \<open>owns s c\<close>] lock_sys_inv_owner[OF \<open>owns t c\<close>] by simp
  then show ?thesis ..
next
  case (clear_owner c)
  then have "owns s c" "owns t c" by (simp_all add: owns_def)
  from assms(2) clear_owner have "lock_sys_inv t ow"
    unfolding lock_sys_inv_owner[OF \<open>owns s c\<close>] lock_sys_inv_owner[OF \<open>owns t c\<close>] by simp
  then show ?thesis ..
next
  case (release_panic c)
  then have "owns s c" by (simp add: owns_def)
  from assms(2) release_panic have False
    unfolding lock_sys_inv_owner[OF \<open>owns s c\<close>] by (simp add: holding_def)
  then show ?thesis ..
next
  case (xchg_drop c)
  then have "owns s c" by (simp add: owns_def)
  from assms(2) xchg_drop have "lock_sys_inv t None"
    unfolding lock_sys_inv_owner[OF \<open>owns s c\<close>]
    by (auto simp: lock_sys_inv_def owns_def xchg_locked_def)
  then show ?thesis ..
qed

lemma lock_reach_inv: "lock_reach nm lk0 s \<Longrightarrow> \<exists>ow. lock_sys_inv s ow"
  by (induction rule: lock_reach.induct) (use lock_sys_inv_start lock_step_inv in blast)+

text \<open>
  C5. Mutual exclusion of the kernel's spin lock: in every interleaving of any number of
  processors that lock and unlock it, at most one of them is between its successful \<open>xchg\<close>
  and the one that drops the lock; neither debug panic is ever reached, although \<open>holding\<close>
  reads the two fields without owning the lock; and the lock word is nonzero exactly while
  some processor owns it.
\<close>

theorem spinlock_mutual_exclusion:
  assumes "lock_reach nm lk0 s"
  shows "(owns s c \<and> owns s d \<longrightarrow> c = d) \<and>
    sys_pc s c \<noteq> Stopped \<and>
    (lk_locked (sys_lock s) \<noteq> 0 \<longleftrightarrow> (\<exists>c. owns s c)) \<and>
    (sys_pc s c = Critical \<longleftrightarrow> holding c (sys_lock s))"
proof -
  obtain ow where inv: "lock_sys_inv s ow"
    using lock_reach_inv[OF assms] by blast
  then have "owns s c \<and> owns s d \<longrightarrow> c = d"
    and "lk_locked (sys_lock s) \<noteq> 0 \<longleftrightarrow> (\<exists>c. owns s c)"
    by (auto simp: lock_sys_inv_def)
  moreover have "sys_pc s c = Critical \<longleftrightarrow> holding c (sys_lock s)"
    using inv by (cases "sys_pc s c = Critical") (auto simp: lock_sys_inv_def holding_def owns_def)
  ultimately show ?thesis
    using inv by (simp add: lock_sys_inv_def)
qed

definition zero_lock :: spinlock where
  "zero_lock = \<lparr>lk_locked = 0, lk_name = [], lk_cpu = None, lk_pcs = replicate 10 0\<rparr>"

lemma two_cpus_reach:
  "lock_reach ''l'' zero_lock
     \<lparr>sys_lock = (spin_initlock ''l'' zero_lock)\<lparr>lk_locked := 1\<rparr>,
      sys_pc = (\<lambda>_. Outside)(0 := Spinning, 2 := Acquired)\<rparr>"
proof -
  let ?l = "spin_initlock ''l'' zero_lock"
  note defs = xchg_locked_def holding_def spin_initlock_def zero_lock_def
  have 1: "lock_reach ''l'' zero_lock \<lparr>sys_lock = ?l, sys_pc = (\<lambda>_. Outside)(0 := Spinning)\<rparr>"
    using lock_reach.step[OF lock_reach.start[of "''l''" zero_lock]
        lock_step.check_pass[where c = 0]] by (simp add: defs)
  have 2: "lock_reach ''l'' zero_lock
      \<lparr>sys_lock = ?l, sys_pc = (\<lambda>_. Outside)(0 := Spinning, 2 := Spinning)\<rparr>"
    using lock_reach.step[OF 1 lock_step.check_pass[where c = 2]] by (simp add: defs)
  show ?thesis
    using lock_reach.step[OF 2 lock_step.xchg_take[where c = 2]] by (simp add: defs)
qed

theorem spinlock_mutual_exclusion_witness:
  "\<exists>s. lock_reach ''l'' zero_lock s \<and> owns s 2 \<and> sys_pc s 0 = Spinning \<and>
    \<not> owns s 0 \<and> lk_locked (sys_lock s) \<noteq> 0"
proof -
  let ?s = "\<lparr>sys_lock = (spin_initlock ''l'' zero_lock)\<lparr>lk_locked := 1\<rparr>,
    sys_pc = (\<lambda>_. Outside)(0 := Spinning, 2 := Acquired)\<rparr>"
  have "owns ?s 2" by (simp add: owns_def)
  with spinlock_mutual_exclusion[OF two_cpus_reach, of 0 2] have "\<not> owns ?s 0"
    by simp
  with \<open>owns ?s 2\<close> show ?thesis
    by (intro exI[of _ ?s]) (simp add: two_cpus_reach)
qed



end
