(* ===== verification/Page_Alloc.thy ===== *)
theory Page_Alloc
  imports Spinlock
begin

text \<open>
  The physical page allocator of \<^verbatim>\<open>kernel/mem.c\<close>: memory detection, the boot-time allocator,
  the initial free list, and \<open>page_alloc\<close>, \<open>page_free\<close> and \<open>page_decref\<close>.

  A \<open>struct PageInfo *\<close> is the index of its element of \<open>pages\<close>, a null pointer is \<open>None\<close>, and
  the kernel address of page frame \<open>f\<close>, \<open>KERNBASE + f * PGSIZE\<close>, is the frame number \<open>f\<close>. The
  record is extensible, so that the page tables and the tasks can build on the same operations.
\<close>

section \<open>State\<close>

record PageInfo =
  pp_link :: "nat option"
  pp_ref :: u16

record mem_state =
  npages :: u32
  npages_basemem :: u32
  nextfree :: u32
  kern_pgdir :: nat
  pages :: "PageInfo list"
  pages_kva :: u32                    \<comment> \<open>the value of the pointer \<open>pages\<close>\<close>
  page_free_list :: "nat option"
  num_free_pages :: u32
  page_lock :: spinlock
  phys :: "nat \<Rightarrow> nat \<Rightarrow> u32"          \<comment> \<open>physical memory: frame, word within the frame\<close>
  mmio_base :: u32                    \<comment> \<open>the static variable of \<open>mmio_map_region\<close>\<close>
  tlb :: "u32 \<Rightarrow> u32 option"          \<comment> \<open>cached translations, by virtual page number\<close>
  hw_cpu :: nat                       \<comment> \<open>the processor that executes\<close>
  hw_frames :: frames

section \<open>Address conversions (kernel/mem.h)\<close>

definition PADDR :: "u32 \<Rightarrow> u32 result" where
  "PADDR kva = (if kva < KERNBASE then Inl (Panic ''PADDR called with invalid kva'')
                else Inr (kva - KERNBASE))"

definition KADDR :: "u32 \<Rightarrow> 'a mem_state_scheme \<Rightarrow> nat result" where
  "KADDR pa s = (if npages s \<le> PGNUM pa then Inl (Panic ''KADDR called with invalid pa'')
                 else Inr (unat (PGNUM pa)))"

definition page2pa :: "nat \<Rightarrow> u32" where
  "page2pa pp = push_bit 12 (of_nat pp)"

definition pa2page :: "u32 \<Rightarrow> 'a mem_state_scheme \<Rightarrow> nat result" where
  "pa2page pa s = (if npages s \<le> PGNUM pa then Inl (Panic ''pa2page called with invalid pa'')
                   else Inr (unat (PGNUM pa)))"

definition page2kva :: "nat \<Rightarrow> 'a mem_state_scheme \<Rightarrow> nat result" where
  "page2kva pp s = KADDR (page2pa pp) s"

section \<open>Memory detection and the boot allocator\<close>

text \<open>The CMOS memory is a device: its bytes are a parameter.\<close>

definition nvram_read :: "(nat \<Rightarrow> u8) \<Rightarrow> nat \<Rightarrow> u32" where
  "nvram_read cmos r = ucast (cmos r) OR push_bit 8 (ucast (cmos (r + 1)))"

definition NVRAM_BASELO :: nat where "NVRAM_BASELO = 0x15"
definition NVRAM_EXTLO :: nat where "NVRAM_EXTLO = 0x17"

definition i386_detect_memory :: "(nat \<Rightarrow> u8) \<Rightarrow> 'a mem_state_scheme \<Rightarrow> 'a mem_state_scheme" where
  "i386_detect_memory cmos s =
     (let basemem = nvram_read cmos NVRAM_BASELO * 1024 div PGSIZE;
          extmem = nvram_read cmos NVRAM_EXTLO * 1024 div PGSIZE in
      s\<lparr>npages_basemem := basemem,
        npages := (if extmem \<noteq> 0 then EXTPHYSMEM div PGSIZE + extmem else basemem)\<rparr>)"

text \<open>\<open>end_sym\<close> is the address the linker gives to the symbol \<open>end\<close>.\<close>

definition boot_alloc :: "u32 \<Rightarrow> u32 \<Rightarrow> 'a mem_state_scheme \<Rightarrow> u32 \<times> 'a mem_state_scheme" where
  "boot_alloc end_sym n s =
     (let s = (if nextfree s = 0 then s\<lparr>nextfree := ROUNDUP end_sym PGSIZE\<rparr> else s) in
      if n = 0 then (nextfree s, s)
      else (nextfree s, s\<lparr>nextfree := nextfree s + ROUNDUP n PGSIZE\<rparr>))"

section \<open>The free list\<close>

definition set_page :: "nat \<Rightarrow> nat option \<Rightarrow> u16 \<Rightarrow> 'a mem_state_scheme \<Rightarrow> 'a mem_state_scheme result" where
  "set_page i link ref s =
     rbind (aset (pages s) i \<lparr>pp_link = link, pp_ref = ref\<rparr>) (\<lambda>ps. Inr (s\<lparr>pages := ps\<rparr>))"

definition page_init_used :: "nat \<Rightarrow> 'a mem_state_scheme \<Rightarrow> 'a mem_state_scheme result" where
  "page_init_used i s = set_page i None 1 s"

definition page_init_free :: "nat \<Rightarrow> 'a mem_state_scheme \<Rightarrow> 'a mem_state_scheme result" where
  "page_init_free i s =
     rbind (set_page i (page_free_list s) 0 s)
       (\<lambda>s. Inr (s\<lparr>page_free_list := Some i, num_free_pages := num_free_pages s + 1\<rparr>))"

definition page_init_step :: "nat \<Rightarrow> 'a mem_state_scheme \<Rightarrow> 'a mem_state_scheme result" where
  "page_init_step i s =
     (if i = 0 then page_init_used i s
      else if i < unat (npages_basemem s) \<and> i = unat (PGNUM MPENTRY_PADDR) then page_init_used i s
      else if i < unat (npages_basemem s) then page_init_free i s
      else if i < unat (PGNUM EXTPHYSMEM) then page_init_used i s
      else rbind (PADDR (nextfree s))
        (\<lambda>pa. if i < unat (PGNUM pa) then page_init_used i s else page_init_free i s))"

definition page_init :: "'a mem_state_scheme \<Rightarrow> 'a mem_state_scheme result" where
  "page_init s = kfor 0 (unat (npages s)) page_init_step (s\<lparr>page_free_list := None\<rparr>)"

definition lock_pages :: "'a mem_state_scheme \<Rightarrow> 'a mem_state_scheme result" where
  "lock_pages s = rbind (spin_lock (hw_frames s) (hw_cpu s) (page_lock s)) (\<lambda>l. Inr (s\<lparr>page_lock := l\<rparr>))"

definition unlock_pages :: "'a mem_state_scheme \<Rightarrow> 'a mem_state_scheme result" where
  "unlock_pages s = rbind (spin_unlock (hw_cpu s) (page_lock s)) (\<lambda>l. Inr (s\<lparr>page_lock := l\<rparr>))"

definition ALLOC_ZERO :: u32 where "ALLOC_ZERO = 1"

text \<open>\<open>memset\<close> of a whole frame to a byte.\<close>

definition fill_frame :: "nat \<Rightarrow> u8 \<Rightarrow> 'a mem_state_scheme \<Rightarrow> 'a mem_state_scheme" where
  "fill_frame f c s = s\<lparr>phys := (phys s)(f := \<lambda>_. ucast c * 0x01010101)\<rparr>"

definition page_alloc :: "u32 \<Rightarrow> 'a mem_state_scheme \<Rightarrow> (nat option \<times> 'a mem_state_scheme) result" where
  "page_alloc alloc_flags s =
     rbind (lock_pages s) (\<lambda>s.
       case page_free_list s of
         None \<Rightarrow> rbind (unlock_pages s) (\<lambda>s. Inr (None, s))
       | Some pp \<Rightarrow>
           rbind (aget (pages s) pp) (\<lambda>info.
           let s = s\<lparr>page_free_list := pp_link info\<rparr> in
           rbind (if alloc_flags AND ALLOC_ZERO \<noteq> 0
                  then rbind (page2kva pp s) (\<lambda>kva. Inr (fill_frame kva 0 s)) else Inr s) (\<lambda>s.
           rbind (set_page pp None (pp_ref info) s) (\<lambda>s.
           rbind (unlock_pages (s\<lparr>num_free_pages := num_free_pages s - 1\<rparr>)) (\<lambda>s.
           Inr (Some pp, s))))))"

definition page_free :: "nat \<Rightarrow> 'a mem_state_scheme \<Rightarrow> 'a mem_state_scheme result" where
  "page_free pp s =
     rbind (aget (pages s) pp) (\<lambda>info.
     rbind (kassert (pp_ref info = 0) ''pp->pp_ref == 0'') (\<lambda>_.
     rbind (kassert (pp_link info = None) ''pp->pp_link == NULL'') (\<lambda>_.
     rbind (lock_pages s) (\<lambda>s.
     rbind (set_page pp (page_free_list s) (pp_ref info) s) (\<lambda>s.
     unlock_pages (s\<lparr>page_free_list := Some pp, num_free_pages := num_free_pages s + 1\<rparr>))))))"

definition page_decref :: "nat \<Rightarrow> 'a mem_state_scheme \<Rightarrow> 'a mem_state_scheme result" where
  "page_decref pp s =
     rbind (aget (pages s) pp) (\<lambda>info.
     rbind (set_page pp (pp_link info) (pp_ref info - 1) s) (\<lambda>s.
     if pp_ref info - 1 = 0 then page_free pp s else Inr s))"

definition sys_get_num_free_page :: "'a mem_state_scheme \<Rightarrow> int" where
  "sys_get_num_free_page s = sint (num_free_pages s)"

definition sys_get_num_used_page :: "'a mem_state_scheme \<Rightarrow> int" where
  "sys_get_num_used_page s = sint (npages s - num_free_pages s)"

section \<open>The allocator invariant\<close>

text \<open>\<open>chain ps p xs\<close>: following \<open>pp_link\<close> from \<open>p\<close> visits exactly the pages \<open>xs\<close> and then ends.\<close>

fun chain :: "PageInfo list \<Rightarrow> nat option \<Rightarrow> nat list \<Rightarrow> bool" where
  "chain ps p [] \<longleftrightarrow> p = None"
| "chain ps p (x # xs) \<longleftrightarrow> p = Some x \<and> x < length ps \<and> chain ps (pp_link (ps ! x)) xs"

fun walk_links :: "nat \<Rightarrow> PageInfo list \<Rightarrow> nat option \<Rightarrow> nat list" where
  "walk_links 0 ps p = []"
| "walk_links (Suc n) ps p = (case p of None \<Rightarrow> [] | Some x \<Rightarrow>
     if x < length ps then x # walk_links n ps (pp_link (ps ! x)) else [])"

definition free_pages :: "'a mem_state_scheme \<Rightarrow> nat list" where
  "free_pages s = walk_links (length (pages s)) (pages s) (page_free_list s)"

definition alloc_inv :: "'a mem_state_scheme \<Rightarrow> bool" where
  "alloc_inv s \<longleftrightarrow>
     length (pages s) = unat (npages s) \<and> unat (npages s) \<le> 65536 \<and>
     chain (pages s) (page_free_list s) (free_pages s) \<and> distinct (free_pages s) \<and>
     num_free_pages s = of_nat (length (free_pages s)) \<and>
     (\<forall>x\<in>set (free_pages s). pp_ref (pages s ! x) = 0) \<and>
     (\<forall>x<length (pages s). x \<notin> set (free_pages s) \<longrightarrow> pp_link (pages s ! x) = None) \<and>
     lock_free (page_lock s)"

lemma chain_walk: "chain ps p xs \<Longrightarrow> length xs \<le> n \<Longrightarrow> walk_links n ps p = xs"
proof (induction xs arbitrary: p n)
  case Nil
  then show ?case by (cases n) auto
next
  case (Cons x xs)
  then show ?case by (cases n) auto
qed

lemma chain_bound: "chain ps p xs \<Longrightarrow> set xs \<subseteq> {..<length ps}"
  by (induction xs arbitrary: p) auto

lemma chain_update [simp]: "x \<notin> set xs \<Longrightarrow> chain (ps[x := v]) p xs = chain ps p xs"
  by (induction xs arbitrary: p) auto

lemma distinct_chain_length:
  assumes "chain ps p xs" and "distinct xs"
  shows "length xs \<le> length ps"
proof -
  have "card (set xs) \<le> card {..<length ps}"
    using chain_bound[OF assms(1)] by (intro card_mono) auto
  then show ?thesis
    using assms(2) by (simp add: distinct_card)
qed

lemma free_pages_eqI:
  assumes "chain (pages s) (page_free_list s) xs" and "distinct xs"
  shows "free_pages s = xs"
  unfolding free_pages_def by (rule chain_walk[OF assms(1) distinct_chain_length[OF assms]])

lemma alloc_invI:
  assumes "chain (pages s) (page_free_list s) xs" "distinct xs"
    and "length (pages s) = unat (npages s)" "unat (npages s) \<le> 65536"
    and "num_free_pages s = of_nat (length xs)"
    and "\<And>x. x \<in> set xs \<Longrightarrow> pp_ref (pages s ! x) = 0"
    and "\<And>x. x < length (pages s) \<Longrightarrow> x \<notin> set xs \<Longrightarrow> pp_link (pages s ! x) = None"
    and "lock_free (page_lock s)"
  shows "alloc_inv s" and "free_pages s = xs"
  using assms free_pages_eqI[OF assms(1,2)] by (auto simp: alloc_inv_def)

lemma alloc_invD:
  assumes "alloc_inv s"
  shows "length (pages s) = unat (npages s)" "unat (npages s) \<le> 65536"
    and "chain (pages s) (page_free_list s) (free_pages s)" "distinct (free_pages s)"
    and "num_free_pages s = of_nat (length (free_pages s))"
    and "x \<in> set (free_pages s) \<Longrightarrow> pp_ref (pages s ! x) = 0"
    and "x < length (pages s) \<Longrightarrow> x \<notin> set (free_pages s) \<Longrightarrow> pp_link (pages s ! x) = None"
    and "x \<in> set (free_pages s) \<Longrightarrow> x < unat (npages s)"
    and "lock_free (page_lock s)"
  using assms chain_bound[of "pages s" "page_free_list s" "free_pages s"]
  by (auto simp: alloc_inv_def)

lemma free_pages_count: "alloc_inv s \<Longrightarrow> length (free_pages s) \<le> 65536"
  using distinct_chain_length[of "pages s" "page_free_list s" "free_pages s"]
  by (auto simp: alloc_inv_def)

lemma chain_links:
  assumes "chain ps q xs" and "distinct xs" and "x \<in> set xs"
  shows "if x = last xs then pp_link (ps ! x) = None else \<exists>y\<in>set xs. pp_link (ps ! x) = Some y"
  using assms
proof (induction xs arbitrary: q)
  case (Cons z zs)
  show ?case
  proof (cases "x = z")
    case True
    then show ?thesis using Cons.prems by (cases zs) auto
  next
    case False
    then have x: "x \<in> set zs" using Cons.prems by simp
    then have "zs \<noteq> []" by auto
    with Cons.IH[of "pp_link (ps ! z)"] Cons.prems x show ?thesis by auto
  qed
qed simp

lemma walk_links_endless:
  assumes "\<And>x. x \<in> A \<Longrightarrow> x < length ps \<and> (\<exists>y\<in>A. pp_link (ps ! x) = Some y)" and "x \<in> A"
  shows "length (walk_links n ps (Some x)) = n"
  using assms(2)
proof (induction n arbitrary: x)
  case (Suc n)
  from assms(1)[OF Suc.prems] obtain y where "y \<in> A" "pp_link (ps ! x) = Some y" "x < length ps"
    by blast
  with Suc.IH[of y] show ?case by simp
qed simp

text \<open>What the memory operations may change; every other field, and every extension, stays.\<close>

definition mem_frame :: "'a mem_state_scheme \<Rightarrow> 'a mem_state_scheme \<Rightarrow> bool" where
  "mem_frame s s' \<longleftrightarrow> s' = s\<lparr>pages := pages s', page_free_list := page_free_list s',
     num_free_pages := num_free_pages s', page_lock := page_lock s', phys := phys s', tlb := tlb s'\<rparr>"

lemma mem_frameD:
  assumes "mem_frame s s'"
  shows "npages s' = npages s" "npages_basemem s' = npages_basemem s" "nextfree s' = nextfree s"
    "kern_pgdir s' = kern_pgdir s" "pages_kva s' = pages_kva s" "mmio_base s' = mmio_base s"
    "hw_cpu s' = hw_cpu s" "hw_frames s' = hw_frames s" "more s' = more s"
proof -
  have e: "s' = s\<lparr>pages := pages s', page_free_list := page_free_list s',
     num_free_pages := num_free_pages s', page_lock := page_lock s', phys := phys s', tlb := tlb s'\<rparr>"
    using assms by (simp add: mem_frame_def)
  show "npages s' = npages s" "npages_basemem s' = npages_basemem s" "nextfree s' = nextfree s"
    "kern_pgdir s' = kern_pgdir s" "pages_kva s' = pages_kva s" "mmio_base s' = mmio_base s"
    "hw_cpu s' = hw_cpu s" "hw_frames s' = hw_frames s" "more s' = more s"
    by (subst e, simp)+
qed

lemma mem_frame_refl [simp]: "mem_frame s s"
  by (simp add: mem_frame_def)

lemma mem_frame_trans [trans]: "mem_frame s t \<Longrightarrow> mem_frame t u \<Longrightarrow> mem_frame s u"
  by (cases s; cases t; cases u) (simp add: mem_frame_def)

lemma unat_page2pa: "p < 65536 \<Longrightarrow> unat (page2pa p) = p * 4096"
  by (simp add: page2pa_def push_bit_eq_mult unat_word_ariths unat_of_nat take_bit_nat_eq_self)

lemma PGNUM_page2pa: "p < 65536 \<Longrightarrow> unat (PGNUM (page2pa p)) = p"
  by (simp add: unat_PGNUM unat_page2pa)

lemma page2kva_in:
  assumes "p < unat (npages s)" and "unat (npages s) \<le> 65536"
  shows "page2kva p s = Inr p"
  using assms by (simp add: page2kva_def KADDR_def word_le_nat_alt PGNUM_page2pa)

section \<open>The operations under the invariant\<close>

text \<open>The lock while the allocator holds it, and after it was released again.\<close>

definition held_lock :: "'a mem_state_scheme \<Rightarrow> spinlock" where
  "held_lock s = (page_lock s)\<lparr>lk_locked := 1, lk_cpu := Some (hw_cpu s), lk_pcs := get_caller_pcs (hw_frames s)\<rparr>"

definition released_lock :: "'a mem_state_scheme \<Rightarrow> spinlock" where
  "released_lock s = (page_lock s)\<lparr>lk_locked := 0, lk_cpu := None,
     lk_pcs := (get_caller_pcs (hw_frames s))[0 := 0]\<rparr>"

lemma released_lock_free [simp]: "lock_free (released_lock s)"
  by (simp add: released_lock_def)

lemma lock_pages_free:
  "lock_free (page_lock s) \<Longrightarrow> lock_pages s = Inr (s\<lparr>page_lock := held_lock s\<rparr>)"
  by (simp add: lock_pages_def spin_lock_free held_lock_def)

lemma unlock_pages_held:
  assumes "page_lock t = held_lock s" and "hw_cpu t = hw_cpu s"
  shows "unlock_pages t = Inr (t\<lparr>page_lock := released_lock s\<rparr>)"
  using assms by (simp add: unlock_pages_def spin_unlock_held holding_def held_lock_def released_lock_def)

lemma page_alloc_empty:
  assumes "alloc_inv s" and "free_pages s = []"
  obtains s' where "page_alloc fl s = Inr (None, s')" "mem_frame s s'" "alloc_inv s'"
    "free_pages s' = []" "pages s' = pages s" "phys s' = phys s" "tlb s' = tlb s"
proof -
  note inv = alloc_invD[OF assms(1)]
  have none: "page_free_list s = None"
    using inv(3) assms(2) by simp
  let ?s = "s\<lparr>page_lock := released_lock s\<rparr>"
  have "page_alloc fl s = Inr (None, ?s)"
    by (simp add: page_alloc_def lock_pages_free inv(9) none unlock_pages_held[where s = s])
  moreover have "alloc_inv ?s" "free_pages ?s = []"
    by (rule alloc_invI[where xs = "[]"]; use inv assms none in simp)+
  ultimately show thesis
    by (intro that[of ?s]) (simp_all add: mem_frame_def)
qed

lemma page_alloc_cons:
  assumes "alloc_inv s" and "free_pages s = p # ps"
  obtains s' where "page_alloc fl s = Inr (Some p, s')" "mem_frame s s'" "alloc_inv s'"
    "free_pages s' = ps" "pages s' = (pages s)[p := \<lparr>pp_link = None, pp_ref = 0\<rparr>]"
    "phys s' = (if fl AND ALLOC_ZERO \<noteq> 0 then (phys s)(p := \<lambda>_. 0) else phys s)" "tlb s' = tlb s"
proof -
  note inv = alloc_invD[OF assms(1)]
  have hd: "page_free_list s = Some p" "chain (pages s) (pp_link (pages s ! p)) ps"
    using inv(3) assms(2) by auto
  have p: "p < length (pages s)" "p < unat (npages s)" "pp_ref (pages s ! p) = 0" "p \<notin> set ps" "distinct ps"
    using inv(1,4) inv(6,8)[of p] assms(2) by auto
  let ?ph = "if fl AND ALLOC_ZERO \<noteq> 0 then (phys s)(p := \<lambda>_. 0) else phys s"
  let ?s = "s\<lparr>pages := (pages s)[p := \<lparr>pp_link = None, pp_ref = 0\<rparr>],
    page_free_list := pp_link (pages s ! p), num_free_pages := num_free_pages s - 1,
    page_lock := released_lock s, phys := ?ph\<rparr>"
  have kva: "page2kva p (t :: 'a mem_state_scheme) = Inr p" if "npages t = npages s" for t
    using p inv(2) that by (simp add: page2kva_in)
  have "page_alloc fl s = Inr (Some p, ?s)"
    using p(1,3) by (simp add: page_alloc_def lock_pages_free inv(9) hd set_page_def kva
        fill_frame_def unlock_pages_held[where s = s])
  moreover have "alloc_inv ?s" "free_pages ?s = ps"
    by (rule alloc_invI[where xs = ps]; use inv assms(2) hd p in \<open>simp add: nth_list_update\<close>)+
  ultimately show thesis
    by (intro that[of ?s]) (simp_all add: mem_frame_def)
qed

lemma page_free_ok:
  assumes "alloc_inv s" and "p < unat (npages s)" and "p \<notin> set (free_pages s)"
    and "pp_ref (pages s ! p) = 0"
  obtains s' where "page_free p s = Inr s'" "mem_frame s s'" "alloc_inv s'"
    "free_pages s' = p # free_pages s"
    "pages s' = (pages s)[p := \<lparr>pp_link = page_free_list s, pp_ref = 0\<rparr>]"
    "phys s' = phys s" "tlb s' = tlb s"
proof -
  note inv = alloc_invD[OF assms(1)]
  have p: "p < length (pages s)" "pp_link (pages s ! p) = None"
    using inv(1,7) assms by auto
  let ?s = "s\<lparr>pages := (pages s)[p := \<lparr>pp_link = page_free_list s, pp_ref = 0\<rparr>],
    page_free_list := Some p, num_free_pages := num_free_pages s + 1, page_lock := released_lock s\<rparr>"
  have "page_free p s = Inr ?s"
    using p assms(4) by (simp add: page_free_def lock_pages_free inv(9) set_page_def
        unlock_pages_held[where s = s])
  moreover have "alloc_inv ?s" "free_pages ?s = p # free_pages s"
    by (rule alloc_invI[where xs = "p # free_pages s"];
        use inv assms p in \<open>auto simp: nth_list_update\<close>)+
  ultimately show thesis
    by (intro that[of ?s]) (simp_all add: mem_frame_def)
qed

text \<open>Changing the reference count of a page that is in use keeps the invariant.\<close>

lemma alloc_inv_set_ref:
  assumes "alloc_inv s" and "p \<notin> set (free_pages s)" and "p < unat (npages s)"
  shows "alloc_inv (s\<lparr>pages := (pages s)[p := \<lparr>pp_link = pp_link (pages s ! p), pp_ref = r\<rparr>]\<rparr>)"
    and "free_pages (s\<lparr>pages := (pages s)[p := \<lparr>pp_link = pp_link (pages s ! p), pp_ref = r\<rparr>]\<rparr>) = free_pages s"
  by (rule alloc_invI[where xs = "free_pages s"];
      use alloc_invD[OF assms(1)] assms(2,3) in \<open>auto simp: nth_list_update\<close>)+

lemma page_decref_shared:
  assumes "alloc_inv s" and "p < unat (npages s)" and "1 < pp_ref (pages s ! p)"
  obtains s' where "page_decref p s = Inr s'" "mem_frame s s'" "alloc_inv s'"
    "free_pages s' = free_pages s"
    "pages s' = (pages s)[p := \<lparr>pp_link = None, pp_ref = pp_ref (pages s ! p) - 1\<rparr>]"
    "phys s' = phys s" "tlb s' = tlb s"
proof -
  note inv = alloc_invD[OF assms(1)]
  have nf: "p \<notin> set (free_pages s)"
    using inv(6)[of p] assms(3) by auto
  have p: "p < length (pages s)" "pp_link (pages s ! p) = None"
    using inv(1,7) assms nf by auto
  let ?s = "s\<lparr>pages := (pages s)[p := \<lparr>pp_link = None, pp_ref = pp_ref (pages s ! p) - 1\<rparr>]\<rparr>"
  have "page_decref p s = Inr ?s"
    using p assms(3) by (auto simp: page_decref_def set_page_def)
  then show thesis
    using alloc_inv_set_ref[OF assms(1) nf assms(2), of "pp_ref (pages s ! p) - 1"] p
    by (intro that[of ?s]) (simp_all add: mem_frame_def)
qed

lemma page_decref_last:
  assumes "alloc_inv s" and "p < unat (npages s)" and "pp_ref (pages s ! p) = 1"
  obtains s' where "page_decref p s = Inr s'" "mem_frame s s'" "alloc_inv s'"
    "free_pages s' = p # free_pages s"
    "pages s' = (pages s)[p := \<lparr>pp_link = page_free_list s, pp_ref = 0\<rparr>]"
    "phys s' = phys s" "tlb s' = tlb s"
proof -
  note inv = alloc_invD[OF assms(1)]
  have nf: "p \<notin> set (free_pages s)"
    using inv(6)[of p] assms(3) by auto
  have p: "p < length (pages s)" "pp_link (pages s ! p) = None"
    using inv(1,7) assms nf by auto
  let ?t = "s\<lparr>pages := (pages s)[p := \<lparr>pp_link = None, pp_ref = 0\<rparr>]\<rparr>"
  have t: "alloc_inv ?t" "free_pages ?t = free_pages s"
    using alloc_inv_set_ref[OF assms(1) nf assms(2), of 0] p by simp_all
  have "mem_frame s ?t" by (simp add: mem_frame_def)
  have "page_decref p s = page_free p ?t"
    using p assms(3) by (simp add: page_decref_def set_page_def)
  moreover obtain s' where "page_free p ?t = Inr s'" "mem_frame ?t s'" "alloc_inv s'"
    "free_pages s' = p # free_pages s"
    "pages s' = (pages s)[p := \<lparr>pp_link = page_free_list s, pp_ref = 0\<rparr>]"
    "phys s' = phys s" "tlb s' = tlb s"
    using page_free_ok[OF t(1), of p] t(2) nf assms(2) p by auto
  ultimately show thesis
    using that mem_frame_trans[OF \<open>mem_frame s ?t\<close>] by simp
qed

section \<open>The allocator as a stack of pages\<close>

fun alloc_seq :: "('s \<Rightarrow> (nat option \<times> 's) result) \<Rightarrow> nat \<Rightarrow> 's \<Rightarrow> (nat option list \<times> 's) result" where
  "alloc_seq alloc 0 s = Inr ([], s)"
| "alloc_seq alloc (Suc n) s =
     rbind (alloc s) (\<lambda>(p, s). rbind (alloc_seq alloc n s) (\<lambda>(ps, s). Inr (p # ps, s)))"

fun free_seq :: "(nat \<Rightarrow> 's \<Rightarrow> 's result) \<Rightarrow> nat list \<Rightarrow> 's \<Rightarrow> 's result" where
  "free_seq free [] s = Inr s"
| "free_seq free (p # ps) s = rbind (free p s) (free_seq free ps)"

text \<open>
  The contract of a page allocator: the pages it can hand out form a stack, a page handed out
  is not in use by anybody, and an unused page that is not on the stack can be pushed back.
\<close>

locale page_allocator =
  fixes alloc :: "'s \<Rightarrow> (nat option \<times> 's) result"
    and free :: "nat \<Rightarrow> 's \<Rightarrow> 's result"
    and ok :: "'s \<Rightarrow> bool"
    and avail :: "'s \<Rightarrow> nat list"
    and unused :: "'s \<Rightarrow> nat \<Rightarrow> bool"
  assumes alloc_some: "ok s \<Longrightarrow> avail s = p # ps \<Longrightarrow>
      \<exists>s'. alloc s = Inr (Some p, s') \<and> ok s' \<and> avail s' = ps \<and> (\<forall>q. unused s' q \<longleftrightarrow> unused s q)"
    and alloc_none: "ok s \<Longrightarrow> avail s = [] \<Longrightarrow> \<exists>s'. alloc s = Inr (None, s') \<and> ok s' \<and> avail s' = []"
    and free_unused: "ok s \<Longrightarrow> unused s p \<Longrightarrow> p \<notin> set (avail s) \<Longrightarrow>
      \<exists>s'. free p s = Inr s' \<and> ok s' \<and> avail s' = p # avail s \<and> (\<forall>q. unused s' q \<longleftrightarrow> unused s q)"
    and avail_unused: "ok s \<Longrightarrow> p \<in> set (avail s) \<Longrightarrow> unused s p"
    and avail_distinct: "ok s \<Longrightarrow> distinct (avail s)"
begin

lemma alloc_seq_avail:
  assumes "ok s"
  shows "\<exists>s'. alloc_seq alloc n s =
      Inr (map Some (take n (avail s)) @ replicate (n - length (avail s)) None, s') \<and>
    ok s' \<and> avail s' = drop n (avail s) \<and> (n \<le> length (avail s) \<longrightarrow> (\<forall>q. unused s' q \<longleftrightarrow> unused s q))"
  using assms
proof (induction n arbitrary: s)
  case (Suc n)
  show ?case
  proof (cases "avail s")
    case Nil
    then obtain s1 where s1: "alloc s = Inr (None, s1)" "ok s1" "avail s1 = []"
      using alloc_none[OF Suc.prems] by blast
    from Suc.IH[OF s1(2)] s1 Nil show ?thesis by auto
  next
    case (Cons p ps)
    then obtain s1 where s1: "alloc s = Inr (Some p, s1)" "ok s1" "avail s1 = ps"
        "\<forall>q. unused s1 q \<longleftrightarrow> unused s q"
      using alloc_some[OF Suc.prems] by blast
    from Suc.IH[OF s1(2)] s1 Cons show ?thesis by auto
  qed
qed simp

lemma free_seq_avail:
  assumes "ok s" and "distinct ps" and "set ps \<inter> set (avail s) = {}"
    and "\<And>p. p \<in> set ps \<Longrightarrow> unused s p"
  shows "\<exists>s'. free_seq free ps s = Inr s' \<and> ok s' \<and> avail s' = rev ps @ avail s"
  using assms
proof (induction ps arbitrary: s)
  case (Cons p ps)
  obtain s1 where s1: "free p s = Inr s1" "ok s1" "avail s1 = p # avail s"
      "\<forall>q. unused s1 q \<longleftrightarrow> unused s q"
    using free_unused[OF Cons.prems(1), of p] Cons.prems by auto
  have "\<exists>s'. free_seq free ps s1 = Inr s' \<and> ok s' \<and> avail s' = rev ps @ avail s1"
    by (rule Cons.IH[OF s1(2)]) (use Cons.prems s1 in auto)
  with s1 show ?case by auto
qed simp

lemma alloc_free_restores:
  assumes "ok s" and "n \<le> length (avail s)"
  shows "\<exists>s1 s2. alloc_seq alloc n s = Inr (map Some (take n (avail s)), s1) \<and>
    free_seq free (rev (take n (avail s))) s1 = Inr s2 \<and> ok s2 \<and> avail s2 = avail s"
proof -
  obtain s1 where s1: "alloc_seq alloc n s = Inr (map Some (take n (avail s)), s1)" "ok s1"
      "avail s1 = drop n (avail s)" "\<forall>q. unused s1 q \<longleftrightarrow> unused s q"
    using alloc_seq_avail[OF assms(1), of n] assms(2) by auto
  have d: "distinct (take n (avail s) @ drop n (avail s))"
    using avail_distinct[OF assms(1)] by simp
  have "\<exists>s2. free_seq free (rev (take n (avail s))) s1 = Inr s2 \<and> ok s2 \<and>
      avail s2 = rev (rev (take n (avail s))) @ avail s1"
    by (rule free_seq_avail[OF s1(2)])
      (use d s1 avail_unused[OF assms(1)] in \<open>auto dest: in_set_takeD simp del: append_take_drop_id\<close>)
  with s1 show ?thesis by auto
qed

end

definition unreferenced :: "'a mem_state_scheme \<Rightarrow> nat \<Rightarrow> bool" where
  "unreferenced s p \<longleftrightarrow> p < unat (npages s) \<and> pp_ref (pages s ! p) = 0"

interpretation page_stack: page_allocator "page_alloc fl" page_free alloc_inv free_pages unreferenced
proof
  fix s :: "'a mem_state_scheme" and p ps
  assume inv: "alloc_inv s" and fp: "free_pages s = p # ps"
  from page_alloc_cons[OF inv fp, of fl] obtain s' where
    s': "page_alloc fl s = Inr (Some p, s')" "mem_frame s s'" "alloc_inv s'" "free_pages s' = ps"
      "pages s' = (pages s)[p := \<lparr>pp_link = None, pp_ref = 0\<rparr>]" by blast
  have "p < length (pages s)" "pp_ref (pages s ! p) = 0"
    using alloc_invD(1)[OF inv] alloc_invD(6,8)[OF inv, of p] fp by auto
  then have "unreferenced s' q \<longleftrightarrow> unreferenced s q" for q
    using s'(5) mem_frameD(1)[OF s'(2)] by (auto simp: unreferenced_def nth_list_update)
  with s' show "\<exists>s'. page_alloc fl s = Inr (Some p, s') \<and> alloc_inv s' \<and> free_pages s' = ps \<and>
      (\<forall>q. unreferenced s' q \<longleftrightarrow> unreferenced s q)" by blast
next
  fix s :: "'a mem_state_scheme"
  assume "alloc_inv s" and "free_pages s = []"
  then show "\<exists>s'. page_alloc fl s = Inr (None, s') \<and> alloc_inv s' \<and> free_pages s' = []"
    using page_alloc_empty[of s fl] by metis
next
  fix s :: "'a mem_state_scheme" and p
  assume inv: "alloc_inv s" and un: "unreferenced s p" and nf: "p \<notin> set (free_pages s)"
  from page_free_ok[OF inv _ nf] un obtain s' where
    s': "page_free p s = Inr s'" "mem_frame s s'" "alloc_inv s'" "free_pages s' = p # free_pages s"
      "pages s' = (pages s)[p := \<lparr>pp_link = page_free_list s, pp_ref = 0\<rparr>]"
    by (auto simp: unreferenced_def)
  have "p < length (pages s)" "pp_ref (pages s ! p) = 0"
    using alloc_invD(1)[OF inv] un by (auto simp: unreferenced_def)
  then have "unreferenced s' q \<longleftrightarrow> unreferenced s q" for q
    using s'(5) mem_frameD(1)[OF s'(2)] by (auto simp: unreferenced_def nth_list_update)
  with s' show "\<exists>s'. page_free p s = Inr s' \<and> alloc_inv s' \<and> free_pages s' = p # free_pages s \<and>
      (\<forall>q. unreferenced s' q \<longleftrightarrow> unreferenced s q)" by blast
next
  fix s :: "'a mem_state_scheme" and p
  assume "alloc_inv s" and "p \<in> set (free_pages s)"
  then show "unreferenced s p"
    using alloc_invD(6,8)[of s p] by (simp add: unreferenced_def)
next
  fix s :: "'a mem_state_scheme"
  assume "alloc_inv s"
  then show "distinct (free_pages s)" by (rule alloc_invD(4))
qed

section \<open>The initial free list\<close>

text \<open>Which pages the comment of \<open>page_init\<close> calls free: all of base memory but page 0 and the
  page of the start-up code of the other processors, and extended memory above the kernel.\<close>

definition boot_free :: "'a mem_state_scheme \<Rightarrow> nat \<Rightarrow> bool" where
  "boot_free s i \<longleftrightarrow>
     (if i < unat (npages_basemem s) then i \<noteq> 0 \<and> i \<noteq> 7
      else i \<noteq> 0 \<and> 256 \<le> i \<and> unat (nextfree s - KERNBASE) div 4096 \<le> i)"

definition page_init_inv :: "'a mem_state_scheme \<Rightarrow> nat \<Rightarrow> 'a mem_state_scheme \<Rightarrow> bool" where
  "page_init_inv s0 i s \<longleftrightarrow>
     (let xs = rev (filter (boot_free s0) [0..<i]) in
      mem_frame s0 s \<and> length (pages s) = unat (npages s0) \<and>
      chain (pages s) (page_free_list s) xs \<and> num_free_pages s = of_nat (length xs) \<and>
      (\<forall>x\<in>set xs. pp_ref (pages s ! x) = 0) \<and>
      (\<forall>x<i. x \<notin> set xs \<longrightarrow> pages s ! x = \<lparr>pp_link = None, pp_ref = 1\<rparr>) \<and>
      page_lock s = page_lock s0 \<and> phys s = phys s0 \<and> tlb s = tlb s0)"

lemma page_init_used_inv:
  assumes "page_init_inv s0 i s" and "i < unat (npages s0)" and "\<not> boot_free s0 i"
  shows "\<exists>s'. page_init_used i s = Inr s' \<and> page_init_inv s0 (Suc i) s'"
proof -
  let ?s = "s\<lparr>pages := (pages s)[i := \<lparr>pp_link = None, pp_ref = 1\<rparr>]\<rparr>"
  have "mem_frame s0 ?s"
    by (rule mem_frame_trans[of s0 s]) (use assms(1) in \<open>simp_all add: page_init_inv_def Let_def, simp add: mem_frame_def\<close>)
  then have "page_init_inv s0 (Suc i) ?s"
    using assms by (auto simp: page_init_inv_def Let_def nth_list_update less_Suc_eq)
  moreover have "page_init_used i s = Inr ?s"
    using assms by (simp add: page_init_inv_def Let_def page_init_used_def set_page_def)
  ultimately show ?thesis by blast
qed

lemma page_init_free_inv:
  assumes "page_init_inv s0 i s" and "i < unat (npages s0)" and "boot_free s0 i"
  shows "\<exists>s'. page_init_free i s = Inr s' \<and> page_init_inv s0 (Suc i) s'"
proof -
  let ?s = "s\<lparr>pages := (pages s)[i := \<lparr>pp_link = page_free_list s, pp_ref = 0\<rparr>],
    page_free_list := Some i, num_free_pages := num_free_pages s + 1\<rparr>"
  have "mem_frame s0 ?s"
    by (rule mem_frame_trans[of s0 s]) (use assms(1) in \<open>simp_all add: page_init_inv_def Let_def, simp add: mem_frame_def\<close>)
  then have "page_init_inv s0 (Suc i) ?s"
    using assms by (auto simp: page_init_inv_def Let_def nth_list_update less_Suc_eq)
  moreover have "page_init_free i s = Inr ?s"
    using assms by (simp add: page_init_inv_def Let_def page_init_free_def set_page_def)
  ultimately show ?thesis by blast
qed

lemma page_init_step_inv:
  assumes "page_init_inv s0 i s" and "i < unat (npages s0)" and "KERNBASE \<le> nextfree s0"
  shows "\<exists>s'. page_init_step i s = Inr s' \<and> page_init_inv s0 (Suc i) s'"
proof -
  have fr: "mem_frame s0 s"
    using assms(1) by (simp add: page_init_inv_def Let_def)
  have pa: "PADDR (nextfree s) = Inr (nextfree s0 - KERNBASE)"
    using assms(3) mem_frameD(3)[OF fr] by (simp add: PADDR_def)
  have k: "unat (PGNUM MPENTRY_PADDR) = 7" "unat (PGNUM EXTPHYSMEM) = 256"
    by (simp_all add: unat_PGNUM layout_defs)
  have "page_init_step i s = (if boot_free s0 i then page_init_free i s else page_init_used i s)"
    using mem_frameD(2,3)[OF fr] pa
    by (simp add: page_init_step_def boot_free_def k unat_PGNUM[of "nextfree s0 - KERNBASE"] not_less)
  then show ?thesis
    using page_init_used_inv[OF assms(1,2)] page_init_free_inv[OF assms(1,2)] by presburger
qed

lemma page_init_builds:
  assumes "length (pages s) = unat (npages s)" "unat (npages s) \<le> 65536"
    and "KERNBASE \<le> nextfree s" "num_free_pages s = 0" "lock_free (page_lock s)"
  shows "\<exists>s'. page_init s = Inr s' \<and> alloc_inv s' \<and> mem_frame s s' \<and>
    free_pages s' = rev (filter (boot_free s) [0..<unat (npages s)]) \<and> phys s' = phys s \<and>
    (\<forall>x<unat (npages s). x \<notin> set (free_pages s') \<longrightarrow> pp_ref (pages s' ! x) = 1)"
proof -
  let ?n = "unat (npages s)" and ?xs = "rev (filter (boot_free s) [0..<unat (npages s)])"
  have "page_init_inv s 0 (s\<lparr>page_free_list := None\<rparr>)"
    using assms by (simp add: page_init_inv_def mem_frame_def)
  then have "\<exists>s'. kfor 0 ?n page_init_step (s\<lparr>page_free_list := None\<rparr>) = Inr s' \<and> page_init_inv s (0 + ?n) s'"
    by (rule kfor_inv) (use page_init_step_inv assms(3) in auto)
  then obtain s' where s': "page_init s = Inr s'" "page_init_inv s ?n s'"
    by (auto simp: page_init_def)
  note d = s'(2)[unfolded page_init_inv_def Let_def]
  have np: "npages s' = npages s"
    using d mem_frameD(1) by blast
  have "chain (pages s') (page_free_list s') ?xs" and "distinct ?xs"
    using d by auto
  then have "alloc_inv s'" and "free_pages s' = ?xs"
    by (rule alloc_invI; use d np assms in auto)+
  with s'(1) d show ?thesis by auto
qed

section \<open>Properties\<close>

text \<open>
  C7. \<open>page_init\<close> builds exactly the documented free list: started on a fresh \<open>pages\<close> array it
  returns, the allocator invariant holds, and the free list holds (most recent first) the
  pages of base memory other than page 0 and the page at \<open>MPENTRY_PADDR\<close>, and the pages of
  extended memory from \<open>PADDR(nextfree)\<close> on; the I/O hole and the kernel image are never in it.
\<close>

theorem page_init_free_list:
  assumes "length (pages s) = unat (npages s)" "unat (npages s) \<le> 65536"
    and "KERNBASE \<le> nextfree s" "num_free_pages s = 0" "lock_free (page_lock s)"
  shows "\<exists>s'. page_init s = Inr s' \<and> alloc_inv s' \<and>
    free_pages s' = rev (filter (boot_free s) [0..<unat (npages s)]) \<and> phys s' = phys s \<and>
    (\<forall>x<unat (npages s). x \<notin> set (free_pages s') \<longrightarrow> pp_ref (pages s' ! x) = 1)"
  using page_init_builds[OF assms] by blast

definition boot_mem :: mem_state where
  "boot_mem = \<lparr>npages = 10, npages_basemem = 9, nextfree = 0xF0101000, kern_pgdir = 9,
     pages = replicate 10 \<lparr>pp_link = None, pp_ref = 0\<rparr>, pages_kva = 0xF0100000,
     page_free_list = None, num_free_pages = 0, page_lock = zero_lock, phys = \<lambda>_ _. 0,
     mmio_base = MMIOBASE, tlb = \<lambda>_. None, hw_cpu = 0, hw_frames = (0, \<lambda>_. 0)\<rparr>"

lemma boot_mem_simps [simp]:
  "length (pages boot_mem) = unat (npages boot_mem)" "unat (npages boot_mem) = 10"
  "npages_basemem boot_mem = 9" "num_free_pages boot_mem = 0" "lock_free (page_lock boot_mem)"
  "KERNBASE \<le> nextfree boot_mem"
  by (simp_all add: boot_mem_def lock_free_def zero_lock_def layout_defs)

theorem page_init_free_list_witness:
  "\<exists>s'. page_init boot_mem = Inr s' \<and> alloc_inv s' \<and> free_pages s' = [8, 6, 5, 4, 3, 2, 1]"
  using page_init_free_list[of boot_mem] by (auto simp: boot_free_def upt_rec)

text \<open>
  C8. The allocator hands out the pages of the free list one after the other, never one twice,
  and \<open>NULL\<close> exactly when the list is exhausted: \<open>n\<close> calls of \<open>page_alloc\<close> return the first \<open>n\<close>
  pages of the list, pairwise distinct and within physical memory, then null pointers; and
  freeing what was allocated in reverse order restores the list.
\<close>

theorem page_alloc_sequence:
  assumes "alloc_inv s"
  shows "\<exists>s'. alloc_seq (page_alloc fl) n s =
      Inr (map Some (take n (free_pages s)) @ replicate (n - length (free_pages s)) None, s') \<and>
    alloc_inv s' \<and> free_pages s' = drop n (free_pages s) \<and>
    distinct (take n (free_pages s)) \<and> (\<forall>p\<in>set (take n (free_pages s)). p < unat (npages s)) \<and>
    (n \<le> length (free_pages s) \<longrightarrow>
      (\<exists>s''. free_seq page_free (rev (take n (free_pages s))) s' = Inr s'' \<and>
        alloc_inv s'' \<and> free_pages s'' = free_pages s))"
proof -
  from page_stack.alloc_seq_avail[OF assms, of fl n] obtain s' where
    s': "alloc_seq (page_alloc fl) n s =
      Inr (map Some (take n (free_pages s)) @ replicate (n - length (free_pages s)) None, s')"
      "alloc_inv s'" "free_pages s' = drop n (free_pages s)" by blast
  have "distinct (take n (free_pages s))" "\<forall>p\<in>set (take n (free_pages s)). p < unat (npages s)"
    using alloc_invD(4,8)[OF assms] by (auto dest: in_set_takeD)
  moreover have "\<exists>s''. free_seq page_free (rev (take n (free_pages s))) s' = Inr s'' \<and>
      alloc_inv s'' \<and> free_pages s'' = free_pages s" if "n \<le> length (free_pages s)"
    using page_stack.alloc_free_restores[OF assms that, of fl] s'(1) that by auto
  ultimately show ?thesis
    using s' by blast
qed

text \<open>A small machine: five pages, of which 2, 3 and 4 are free (in this order).\<close>

definition small_mem :: mem_state where
  "small_mem = boot_mem\<lparr>npages := 5, page_free_list := Some 2, num_free_pages := 3,
     pages := [\<lparr>pp_link = None, pp_ref = 1\<rparr>, \<lparr>pp_link = None, pp_ref = 1\<rparr>,
               \<lparr>pp_link = Some 3, pp_ref = 0\<rparr>, \<lparr>pp_link = Some 4, pp_ref = 0\<rparr>,
               \<lparr>pp_link = None, pp_ref = 0\<rparr>]\<rparr>"

lemma small_mem_inv [simp]:
  "alloc_inv small_mem" "free_pages small_mem = [2, 3, 4]" "npages small_mem = 5" "num_free_pages small_mem = 3"
proof -
  have "x = 0 \<or> x = 1" if "x < 5" "x \<notin> set [2, 3, 4]" for x :: nat
    using that by auto
  then have nl: "pp_link (pages small_mem ! x) = None" if "x < 5" "x \<notin> set [2, 3, 4]" for x
    using that by (fastforce simp: small_mem_def)
  have len: "length (pages small_mem) = 5"
    by (simp add: small_mem_def)
  show "alloc_inv small_mem" "free_pages small_mem = [2, 3, 4]"
    by (rule alloc_invI[where xs = "[2, 3, 4]"]; (rule nl; simp add: len; fail)?;
        (auto simp: small_mem_def boot_mem_def lock_free_def zero_lock_def; fail)?)+
qed (simp_all add: small_mem_def)

theorem page_alloc_sequence_witness:
  "\<exists>s'. alloc_seq (page_alloc 0) 4 small_mem = Inr ([Some 2, Some 3, Some 4, None], s') \<and>
    alloc_inv s' \<and> free_pages s' = []"
  using page_alloc_sequence[of small_mem 0 4] by (auto simp: numeral_eq_Suc)

text \<open>
  C9. What \<open>page_alloc\<close> does to memory: it returns the head of the free list with its link
  cleared and its count zero, fills that page with zero bytes when \<open>ALLOC_ZERO\<close> asks for it,
  leaves every other page frame and every other \<open>PageInfo\<close> as it was, and releases the lock.
\<close>

theorem page_alloc_effect:
  assumes "alloc_inv s" and "free_pages s = p # ps"
  shows "\<exists>s'. page_alloc fl s = Inr (Some p, s') \<and> alloc_inv s' \<and> free_pages s' = ps \<and>
    pages s' ! p = \<lparr>pp_link = None, pp_ref = 0\<rparr> \<and> (\<forall>q. q \<noteq> p \<longrightarrow> pages s' ! q = pages s ! q) \<and>
    (fl AND ALLOC_ZERO \<noteq> 0 \<longrightarrow> (\<forall>w. phys s' p w = 0)) \<and>
    (fl AND ALLOC_ZERO = 0 \<longrightarrow> phys s' p = phys s p) \<and>
    (\<forall>q. q \<noteq> p \<longrightarrow> phys s' q = phys s q) \<and> lock_free (page_lock s') \<and>
    num_free_pages s' = num_free_pages s - 1"
proof -
  have p: "p < length (pages s)"
    using alloc_invD(1)[OF assms(1)] alloc_invD(8)[OF assms(1), of p] assms(2) by simp
  from page_alloc_cons[OF assms, of fl] obtain s' where
    s': "page_alloc fl s = Inr (Some p, s')" "mem_frame s s'" "alloc_inv s'" "free_pages s' = ps"
      "pages s' = (pages s)[p := \<lparr>pp_link = None, pp_ref = 0\<rparr>]"
      "phys s' = (if fl AND ALLOC_ZERO \<noteq> 0 then (phys s)(p := \<lambda>_. 0) else phys s)" by blast
  have "num_free_pages s' = num_free_pages s - 1"
    using alloc_invD(5)[OF assms(1)] alloc_invD(5)[OF s'(3)] s'(4) assms(2) by simp
  with s' p alloc_invD(9)[OF s'(3)] show ?thesis by auto
qed

theorem page_alloc_effect_witness:
  "\<exists>s'. page_alloc ALLOC_ZERO small_mem = Inr (Some 2, s') \<and> free_pages s' = [3, 4] \<and>
    num_free_pages s' = 2 \<and> (\<forall>w. phys s' 2 w = 0)"
  using page_alloc_effect[of small_mem 2 "[3, 4]" ALLOC_ZERO]
  by (auto simp: ALLOC_ZERO_def)

text \<open>
  C10. The double-free check of \<open>page_free\<close> is incomplete. Freeing a page that is already on the
  free list panics unless it is the last one of the list: that one has a null link like a
  page in use, so the assertion passes and the list becomes a cycle, which no traversal leaves.
\<close>

theorem page_free_double:
  assumes "alloc_inv s" and "p \<in> set (free_pages s)"
  shows "(p \<noteq> last (free_pages s) \<longrightarrow> page_free p s = Inl (Panic ''pp->pp_link == NULL'')) \<and>
    (p = last (free_pages s) \<longrightarrow>
      (\<exists>s'. page_free p s = Inr s' \<and> (\<forall>n. length (walk_links n (pages s') (page_free_list s')) = n)))"
proof -
  note inv = alloc_invD[OF assms(1)]
  let ?xs = "free_pages s"
  have p: "p < length (pages s)" "pp_ref (pages s ! p) = 0"
    using inv(1) inv(6,8)[of p] assms(2) by auto
  note link = chain_links[OF inv(3,4)]
  have 1: "page_free p s = Inl (Panic ''pp->pp_link == NULL'')" if "p \<noteq> last ?xs"
    using link[OF assms(2)] that p by (auto simp: page_free_def)
  have 2: "\<exists>s'. page_free p s = Inr s' \<and> (\<forall>n. length (walk_links n (pages s') (page_free_list s')) = n)"
    if last: "p = last ?xs"
  proof -
    let ?ps = "(pages s)[p := \<lparr>pp_link = page_free_list s, pp_ref = 0\<rparr>]"
    let ?s = "s\<lparr>pages := ?ps, page_free_list := Some p, num_free_pages := num_free_pages s + 1,
      page_lock := released_lock s\<rparr>"
    have "page_free p s = Inr ?s"
      using p link[OF assms(2)] last
      by (simp add: page_free_def lock_pages_free inv(9) set_page_def unlock_pages_held[where s = s])
    moreover have "length (walk_links n ?ps (Some p)) = n" for n
    proof (rule walk_links_endless[where A = "set ?xs"])
      fix x assume x: "x \<in> set ?xs"
      obtain h where h: "page_free_list s = Some h" "h \<in> set ?xs"
        using inv(3) x by (cases ?xs) auto
      show "x < length ?ps \<and> (\<exists>y\<in>set ?xs. pp_link (?ps ! x) = Some y)"
        using link[OF x] x inv(1,8) h last p by (cases "x = p") auto
    qed (rule assms(2))
    ultimately show ?thesis by auto
  qed
  from 1 2 show ?thesis by blast
qed

theorem page_free_double_witness:
  "page_free 3 small_mem = Inl (Panic ''pp->pp_link == NULL'') \<and>
   (\<exists>s'. page_free 4 small_mem = Inr s' \<and> length (walk_links 100 (pages s') (page_free_list s')) = 100)"
  using page_free_double[of small_mem 3] page_free_double[of small_mem 4] by auto

text \<open>
  The two page-count system calls are exact: under the invariant one returns the length
  of the free list and the other the number of pages that are not on it.
\<close>

lemma page_counts_exact:
  assumes "alloc_inv s"
  shows "sys_get_num_free_page s = int (length (free_pages s)) \<and>
    sys_get_num_used_page s = int (card ({..<unat (npages s)} - set (free_pages s)))"
proof -
  note inv = alloc_invD[OF assms]
  let ?n = "unat (npages s)" and ?k = "length (free_pages s)"
  have k: "?k \<le> ?n"
    using distinct_chain_length[OF inv(3,4)] inv(1) by simp
  have uk: "unat (num_free_pages s) = ?k"
    using k inv(2,5) by (simp add: unat_of_nat take_bit_nat_eq_self)
  have "unat (npages s - num_free_pages s) = ?n - ?k"
    using k uk by (simp add: unat_sub word_le_nat_alt)
  moreover have "card ({..<?n} - set (free_pages s)) = ?n - ?k"
    using inv(4,8) by (subst card_Diff_subset) (auto simp: distinct_card)
  ultimately show ?thesis
    using k inv(2) uk by (simp add: sys_get_num_free_page_def sys_get_num_used_page_def sint_eq_int_unat)
qed

end
