(* ===== verification/Page_Table.thy ===== *)
theory Page_Table
  imports Page_Alloc
begin

text \<open>
  The two-level page tables of \<^verbatim>\<open>kernel/mem.c\<close>: \<open>pgdir_walk\<close>, \<open>boot_map_region\<close>, \<open>page_insert\<close>,
  \<open>page_lookup\<close>, \<open>page_remove\<close>, the tear-down functions and the construction of address spaces.

  A page directory is the number of its page frame and a \<open>pte_t *\<close> is the pair of a frame and
  an entry index. A write through the null pointer that \<open>pgdir_walk\<close> returns when memory is
  exhausted is a \<open>Fault\<close>.
\<close>

section \<open>Operations\<close>

type_synonym pte_ptr = "nat \<times> nat"

definition read_pte :: "pte_ptr \<Rightarrow> 'a mem_state_scheme \<Rightarrow> u32" where
  "read_pte p s = phys s (fst p) (snd p)"

definition write_pte :: "pte_ptr \<Rightarrow> u32 \<Rightarrow> 'a mem_state_scheme \<Rightarrow> 'a mem_state_scheme" where
  "write_pte p v s = s\<lparr>phys := (phys s)(fst p := (phys s (fst p))(snd p := v))\<rparr>"

definition page_incref :: "nat \<Rightarrow> 'a mem_state_scheme \<Rightarrow> 'a mem_state_scheme result" where
  "page_incref pp s =
     rbind (aget (pages s) pp) (\<lambda>info. set_page pp (pp_link info) (pp_ref info + 1) s)"

definition pgdir_walk ::
    "nat \<Rightarrow> u32 \<Rightarrow> bool \<Rightarrow> 'a mem_state_scheme \<Rightarrow> (pte_ptr option \<times> 'a mem_state_scheme) result" where
  "pgdir_walk pgdir va create s =
     (let pde = (pgdir, unat (PDX va)) in
      if read_pte pde s AND PTE_P \<noteq> 0 then
        rbind (KADDR (PTE_ADDR (read_pte pde s)) s) (\<lambda>kva. Inr (Some (kva, unat (PTX va)), s))
      else if \<not> create then Inr (None, s)
      else rbind (page_alloc ALLOC_ZERO s) (\<lambda>(pp, s).
        case pp of None \<Rightarrow> Inr (None, s)
        | Some pp \<Rightarrow>
            rbind (page_incref pp s) (\<lambda>s.
            rbind (page2kva pp s) (\<lambda>kva.
            Inr (Some (kva, unat (PTX va)),
                 write_pte pde (page2pa pp OR PTE_P OR PTE_U OR PTE_W) s)))))"

function boot_map_region ::
    "nat \<Rightarrow> u32 \<Rightarrow> u32 \<Rightarrow> u32 \<Rightarrow> u32 \<Rightarrow> 'a mem_state_scheme \<Rightarrow> 'a mem_state_scheme result" where
  "boot_map_region pgdir va sz pa perm s =
     (if PGSIZE \<le> sz then
        rbind (pgdir_walk pgdir va True s) (\<lambda>(pte, s).
          case pte of None \<Rightarrow> Inl Fault
          | Some pte \<Rightarrow>
              boot_map_region pgdir (va + PGSIZE) (sz - PGSIZE) (pa + PGSIZE) perm
                (write_pte pte (pa OR perm OR PTE_P) s))
      else Inr s)"
  by pat_completeness auto

termination boot_map_region
  by (relation "measure (\<lambda>(pgdir, va, sz, pa, perm, s). unat sz)")
    (auto simp: unat_sub word_le_nat_alt PGSIZE_def)

declare boot_map_region.simps [simp del]

definition tlb_invalidate :: "u32 \<Rightarrow> 'a mem_state_scheme \<Rightarrow> 'a mem_state_scheme" where
  "tlb_invalidate va s = s\<lparr>tlb := (tlb s)(PGNUM va := None)\<rparr>"

text \<open>\<open>page_lookup\<close> returns the page together with the entry it stores through \<open>pte_store\<close>.\<close>

definition page_lookup :: "nat \<Rightarrow> u32 \<Rightarrow> 'a mem_state_scheme \<Rightarrow> (nat \<times> pte_ptr) option result" where
  "page_lookup pgdir va s =
     rbind (pgdir_walk pgdir va False s) (\<lambda>(pte, s).
       case pte of None \<Rightarrow> Inr None
       | Some pte \<Rightarrow>
           if read_pte pte s AND PTE_P = 0 then Inr None
           else rbind (pa2page (PTE_ADDR (read_pte pte s)) s) (\<lambda>pp. Inr (Some (pp, pte))))"

definition page_remove :: "nat \<Rightarrow> u32 \<Rightarrow> 'a mem_state_scheme \<Rightarrow> 'a mem_state_scheme result" where
  "page_remove pgdir va s =
     rbind (page_lookup pgdir va s) (\<lambda>r.
       case r of None \<Rightarrow> Inr s
       | Some (pp, pte) \<Rightarrow>
           rbind (page_decref pp s) (\<lambda>s. Inr (tlb_invalidate va (write_pte pte 0 s))))"

definition E_NO_MEM :: int where "E_NO_MEM = 4"

definition page_insert ::
    "nat \<Rightarrow> nat \<Rightarrow> u32 \<Rightarrow> u32 \<Rightarrow> 'a mem_state_scheme \<Rightarrow> (int \<times> 'a mem_state_scheme) result" where
  "page_insert pgdir pp va perm s =
     rbind (pgdir_walk pgdir va True s) (\<lambda>(pte, s).
       case pte of None \<Rightarrow> Inr (- E_NO_MEM, s)
       | Some pte \<Rightarrow>
           rbind (page_incref pp s) (\<lambda>s.
           rbind (if read_pte pte s AND PTE_P \<noteq> 0
                  then rbind (page_remove pgdir va s) (\<lambda>s. Inr (tlb_invalidate va s))
                  else Inr s) (\<lambda>s.
           Inr (0, write_pte pte (page2pa pp OR PTE_P OR perm) s))))"

definition ptable_remove_step :: "nat \<Rightarrow> nat \<Rightarrow> 'a mem_state_scheme \<Rightarrow> 'a mem_state_scheme result" where
  "ptable_remove_step pgdir i s =
     (if phys s pgdir i AND PTE_P \<noteq> 0
      then rbind (pa2page (PTE_ADDR (phys s pgdir i)) s) (\<lambda>pp. page_decref pp s)
      else Inr s)"

definition ptable_remove :: "nat \<Rightarrow> 'a mem_state_scheme \<Rightarrow> 'a mem_state_scheme result" where
  "ptable_remove pgdir s = kfor 0 1024 (ptable_remove_step pgdir) s"

definition pgdir_remove :: "nat \<Rightarrow> 'a mem_state_scheme \<Rightarrow> 'a mem_state_scheme result" where
  "pgdir_remove pgdir s = rbind (pa2page (page2pa pgdir) s) (\<lambda>pp. page_free pp s)"

definition check_va2pa :: "nat \<Rightarrow> u32 \<Rightarrow> 'a mem_state_scheme \<Rightarrow> u32 result" where
  "check_va2pa pgdir va s =
     (let pde = phys s pgdir (unat (PDX va)) in
      if pde AND PTE_P = 0 then Inr (NOT 0)
      else rbind (KADDR (PTE_ADDR pde) s) (\<lambda>p.
        if phys s p (unat (PTX va)) AND PTE_P = 0 then Inr (NOT 0)
        else Inr (PTE_ADDR (phys s p (unat (PTX va))))))"

definition mmio_map_region ::
    "u32 \<Rightarrow> u32 \<Rightarrow> 'a mem_state_scheme \<Rightarrow> (u32 \<times> 'a mem_state_scheme) result" where
  "mmio_map_region pa sz s =
     (let base = mmio_base s in
      rbind (boot_map_region (kern_pgdir s) base (ROUNDUP sz PGSIZE) pa (PTE_PCD OR PTE_PWT OR PTE_W) s) (\<lambda>s.
      rbind (kassert (base + ROUNDUP sz PGSIZE < MMIOLIM) ''base + ROUNDUP(size, PGSIZE) < MMIOLIM'') (\<lambda>_.
      Inr (base, s\<lparr>mmio_base := base + ROUNDUP sz PGSIZE\<rparr>))))"

definition setupvm :: "nat \<Rightarrow> u32 \<Rightarrow> u32 \<Rightarrow> 'a mem_state_scheme \<Rightarrow> 'a mem_state_scheme result" where
  "setupvm pgdir start sz s =
     rbind (PADDR start) (\<lambda>pa.
     rbind (boot_map_region pgdir start (ROUNDUP sz PGSIZE) pa (PTE_W OR PTE_U) s) (\<lambda>s.
     rbind (check_va2pa pgdir start s) (\<lambda>r.
     rbind (kassert (r = pa) ''check_va2pa(pgdir, start) == PADDR((void*)start)'') (\<lambda>_. Inr s))))"

text \<open>Addresses the linker and the other modules provide.\<close>

record kernel_image =
  bootstack :: u32
  percpu_kstack :: "nat \<Rightarrow> u32"
  lapic :: u32
  lapicaddr :: u32

definition NCPU :: nat where "NCPU = 8"

definition map_kstack :: "kernel_image \<Rightarrow> nat \<Rightarrow> nat \<Rightarrow> 'a mem_state_scheme \<Rightarrow> 'a mem_state_scheme result" where
  "map_kstack img pgdir i s =
     (let kstacktop_i = KSTACKTOP - of_nat i * (KSTKSIZE + KSTKGAP) in
      rbind (PADDR (percpu_kstack img i)) (\<lambda>pa.
      boot_map_region pgdir (kstacktop_i - KSTKSIZE) (ROUNDUP KSTKSIZE PGSIZE) pa PTE_W s))"

definition mem_init_mp :: "kernel_image \<Rightarrow> 'a mem_state_scheme \<Rightarrow> 'a mem_state_scheme result" where
  "mem_init_mp img s = kfor 0 NCPU (map_kstack img (kern_pgdir s)) s"

definition setupkvm ::
    "kernel_image \<Rightarrow> 'a mem_state_scheme \<Rightarrow> (nat option \<times> 'a mem_state_scheme) result" where
  "setupkvm img s =
     rbind (page_alloc ALLOC_ZERO s) (\<lambda>(pp, s).
     case pp of None \<Rightarrow> Inr (None, s)
     | Some pp \<Rightarrow>
       rbind (page2kva pp s) (\<lambda>pgdir.
       rbind (PADDR (pages_kva s)) (\<lambda>pages_pa.
       rbind (boot_map_region pgdir UPAGES (ROUNDUP (8 * npages s) PGSIZE) pages_pa PTE_U s) (\<lambda>s.
       rbind (PADDR (bootstack img)) (\<lambda>stack_pa.
       rbind (boot_map_region pgdir (KSTACKTOP - KSTKSIZE) KSTKSIZE stack_pa PTE_W s) (\<lambda>s.
       rbind (boot_map_region pgdir KERNBASE (ROUNDUP (0xFFFFFFFF - KERNBASE) PGSIZE) 0 PTE_W s) (\<lambda>s.
       rbind (boot_map_region pgdir IOPHYSMEM (ROUNDUP (EXTPHYSMEM - IOPHYSMEM) PGSIZE) IOPHYSMEM PTE_W s) (\<lambda>s.
       rbind (kfor 0 NCPU (map_kstack img pgdir) s) (\<lambda>s.
       rbind (boot_map_region pgdir (lapic img) PGSIZE (lapicaddr img) (PTE_PCD OR PTE_PWT OR PTE_W) s) (\<lambda>s.
       Inr (Some pgdir, s)))))))))))"

section \<open>What the tables mean\<close>

definition present :: "u32 \<Rightarrow> bool" where
  "present e \<longleftrightarrow> e AND PTE_P \<noteq> 0"

definition frame_of :: "u32 \<Rightarrow> nat" where
  "frame_of e = unat (PGNUM (PTE_ADDR e))"

definition table_at :: "'a mem_state_scheme \<Rightarrow> nat \<Rightarrow> nat \<Rightarrow> nat option" where
  "table_at s d i = (if present (phys s d i) then Some (frame_of (phys s d i)) else None)"

text \<open>The entry for virtual page \<open>n\<close> in directory \<open>d\<close>; no page table reads as an empty entry.\<close>

definition pte_at :: "'a mem_state_scheme \<Rightarrow> nat \<Rightarrow> nat \<Rightarrow> u32" where
  "pte_at s d n = (case table_at s d (n div 1024) of None \<Rightarrow> 0 | Some t \<Rightarrow> phys s t (n mod 1024))"

definition mapped :: "'a mem_state_scheme \<Rightarrow> nat \<Rightarrow> nat \<Rightarrow> nat option" where
  "mapped s d n = (if present (pte_at s d n) then Some (frame_of (pte_at s d n)) else None)"

text \<open>
  Every directory slot but the recursive one at \<open>UVPT\<close>. The slots of the live directories
  \<open>D\<close> name pairwise different page tables that are neither directories nor free and have one
  reference, the one \<open>pgdir_walk\<close> gave them.
\<close>

definition slot :: "nat \<Rightarrow> bool" where
  "slot i \<longleftrightarrow> i < 1024 \<and> i \<noteq> 957"

definition is_table :: "'a mem_state_scheme \<Rightarrow> nat set \<Rightarrow> nat \<Rightarrow> bool" where
  "is_table s D t \<longleftrightarrow> (\<exists>d\<in>D. \<exists>i. slot i \<and> table_at s d i = Some t)"

definition tables_wf :: "'a mem_state_scheme \<Rightarrow> nat set \<Rightarrow> bool" where
  "tables_wf s D \<longleftrightarrow>
     (\<forall>d\<in>D. d < unat (npages s) \<and> d \<notin> set (free_pages s)) \<and>
     (\<forall>t. is_table s D t \<longrightarrow> t < unat (npages s) \<and> t \<notin> set (free_pages s) \<and> t \<notin> D \<and>
        pp_ref (pages s ! t) = 1) \<and>
     (\<forall>d\<in>D. \<forall>d'\<in>D. \<forall>i i' t. slot i \<longrightarrow> slot i' \<longrightarrow>
        table_at s d i = Some t \<longrightarrow> table_at s d' i' = Some t \<longrightarrow> d = d' \<and> i = i')"

definition mappings :: "'a mem_state_scheme \<Rightarrow> nat set \<Rightarrow> nat set \<Rightarrow> nat \<Rightarrow> (nat \<times> nat) set" where
  "mappings s D R q = {(d, n). d \<in> D \<and> n \<in> R \<and> mapped s d n = Some q}"

text \<open>\<open>R\<close> is the region whose mappings are counted: \<open>page_insert\<close> and \<open>page_remove\<close> work there,
  \<open>boot_map_region\<close> outside.\<close>

definition region :: "nat set \<Rightarrow> bool" where
  "region R \<longleftrightarrow> (\<forall>n\<in>R. slot (n div 1024))"

definition refs_wf :: "'a mem_state_scheme \<Rightarrow> nat set \<Rightarrow> nat set \<Rightarrow> bool" where
  "refs_wf s D R \<longleftrightarrow>
     (\<forall>d\<in>D. \<forall>n\<in>R. \<forall>q. mapped s d n = Some q \<longrightarrow>
        q < unat (npages s) \<and> q \<notin> set (free_pages s) \<and> q \<notin> D \<and> \<not> is_table s D q) \<and>
     (\<forall>q. card (mappings s D R q) \<le> unat (pp_ref (pages s ! q)))"

definition vm_inv :: "'a mem_state_scheme \<Rightarrow> nat set \<Rightarrow> nat set \<Rightarrow> bool" where
  "vm_inv s D R \<longleftrightarrow> alloc_inv s \<and> finite D \<and> region R \<and> tables_wf s D \<and> refs_wf s D R"

section \<open>Entries\<close>

lemma frame_of_div: "frame_of e = unat e div 4096"
proof -
  have "frame_of e = (unat e - unat e mod 4096) div 4096"
    by (simp add: frame_of_def unat_PGNUM unat_PTE_ADDR)
  also have "\<dots> = unat e div 4096"
    by (simp add: minus_mod_eq_div_mult)
  finally show ?thesis .
qed

lemma present_odd: "present e \<longleftrightarrow> odd e"
  by (simp add: present_def PTE_P_def and_one_eq odd_iff_mod_2_eq_one)

lemma not_present_0 [simp]: "\<not> present 0"
  by (simp add: present_odd)

lemma present_or_P [simp]: "present (a OR PTE_P OR b)" "present (a OR b OR PTE_P)"
  by (simp_all add: present_odd PTE_P_def even_or_iff)

lemma page2pa_aligned: "p < 65536 \<Longrightarrow> unat (page2pa p) mod 4096 = 0"
  by (simp add: unat_page2pa)

lemma or_less_4096:
  assumes "unat (a :: u32) < 4096" and "unat b < 4096"
  shows "unat (a OR b) < 4096"
proof -
  have "take_bit 12 a = a" "take_bit 12 b = b"
    using assms by (simp_all add: take_bit_small)
  then have "a OR b = take_bit 12 (a OR b)" by simp
  then have "unat (a OR b) = take_bit 12 (unat (a OR b))"
    by (metis unsigned_take_bit_eq)
  then show ?thesis
    using take_bit_nat_less_exp[of 12 "unat (a OR b)"] by simp
qed

lemma frame_of_entry:
  assumes "unat pa mod 4096 = 0" and "unat perm < 4096"
  shows "frame_of (pa OR perm) = unat pa div 4096" and "PTE_ADDR (pa OR perm) = pa"
  using PTE_ADDR_flags[OF assms] by (simp_all add: frame_of_def unat_PGNUM)

lemma frame_of_page:
  assumes "p < 65536" and "unat perm < 4096"
  shows "frame_of (page2pa p OR perm) = p"
  using frame_of_entry(1)[OF page2pa_aligned assms(2)] assms(1) by (simp add: unat_page2pa)

lemma KADDR_frame:
  assumes "frame_of e < unat (npages s)"
  shows "KADDR (PTE_ADDR e) s = Inr (frame_of e)" and "pa2page (PTE_ADDR e) s = Inr (frame_of e)"
  using assms by (simp_all add: KADDR_def pa2page_def frame_of_def word_le_nat_alt)

lemma vpn_parts:
  "unat (PGNUM va) div 1024 = unat (PDX va)" "unat (PGNUM va) mod 1024 = unat (PTX va)"
  using PGNUM_eq_PDX_PTX[of va] PTX_less[of va] by (simp_all add: layout_defs)

lemma pte_at_va:
  "pte_at s d (unat (PGNUM va)) =
     (case table_at s d (unat (PDX va)) of None \<Rightarrow> 0 | Some t \<Rightarrow> phys s t (unat (PTX va)))"
  by (simp add: pte_at_def vpn_parts split: option.split)

section \<open>How writes change the meaning\<close>

lemma tables_wfD:
  assumes "tables_wf s D"
  shows "d \<in> D \<Longrightarrow> d < unat (npages s)" "d \<in> D \<Longrightarrow> d \<notin> set (free_pages s)"
    and "d \<in> D \<Longrightarrow> slot i \<Longrightarrow> table_at s d i = Some t \<Longrightarrow> t < unat (npages s)"
    and "d \<in> D \<Longrightarrow> slot i \<Longrightarrow> table_at s d i = Some t \<Longrightarrow> t \<notin> set (free_pages s)"
    and "d \<in> D \<Longrightarrow> slot i \<Longrightarrow> table_at s d i = Some t \<Longrightarrow> t \<notin> D"
    and "d \<in> D \<Longrightarrow> d' \<in> D \<Longrightarrow> slot i \<Longrightarrow> slot i' \<Longrightarrow> table_at s d i = Some t \<Longrightarrow>
      table_at s d' i' = Some t \<Longrightarrow> d = d' \<and> i = i'"
    and "is_table s D t \<Longrightarrow> pp_ref (pages s ! t) = 1"
  using assms unfolding tables_wf_def is_table_def by blast+

lemma table_at_phys_cong: "phys s' d = phys s d \<Longrightarrow> table_at s' d i = table_at s d i"
  by (simp add: table_at_def)

text \<open>Storing an entry into a page table changes the meaning of exactly one virtual page.\<close>

lemma write_pte_table:
  assumes "tables_wf s D" "d \<in> D" "slot i" "table_at s d i = Some t" "e \<in> D"
  shows "table_at (write_pte (t, j) v s) e i' = table_at s e i'"
  using tables_wfD(5)[OF assms(1-4)] assms(5)
  by (intro table_at_phys_cong) (auto simp: write_pte_def)

lemma write_pte_pte_at:
  assumes "tables_wf s D" "d \<in> D" "slot i" "table_at s d i = Some t" "j < 1024"
    and "e \<in> D" "slot (n div 1024)"
  shows "pte_at (write_pte (t, j) v s) e n = (if e = d \<and> n = i * 1024 + j then v else pte_at s e n)"
proof -
  have same: "table_at (write_pte (t, j) v s) e (n div 1024) = table_at s e (n div 1024)"
    using write_pte_table[OF assms(1-4,6)] .
  show ?thesis
  proof (cases "table_at s e (n div 1024)")
    case None
    then have "\<not> (e = d \<and> n = i * 1024 + j)"
      using assms(4,5) by auto
    then show ?thesis
      using None same by (auto simp: pte_at_def)
  next
    case (Some u)
    have "u = t \<longleftrightarrow> e = d \<and> n div 1024 = i"
      using tables_wfD(6)[OF assms(1) assms(6,2,7,3) Some] assms(4) Some by auto
    moreover have "n = i * 1024 + j \<longleftrightarrow> n div 1024 = i \<and> n mod 1024 = j"
      using assms(5) by auto
    ultimately show ?thesis
      using same Some by (auto simp: pte_at_def write_pte_def)
  qed
qed

lemma write_pte_mapped:
  assumes "tables_wf s D" "d \<in> D" "slot i" "table_at s d i = Some t" "j < 1024"
    and "e \<in> D" "slot (n div 1024)"
  shows "mapped (write_pte (t, j) v s) e n =
    (if e = d \<and> n = i * 1024 + j then (if present v then Some (frame_of v) else None) else mapped s e n)"
  unfolding mapped_def write_pte_pte_at[OF assms] by auto

text \<open>Both well-formedness conditions depend only on the tables, the free list and the counts.\<close>

lemma is_table_cong:
  assumes "\<And>d i. d \<in> D \<Longrightarrow> slot i \<Longrightarrow> table_at s' d i = table_at s d i"
  shows "is_table s' D t \<longleftrightarrow> is_table s D t"
  unfolding is_table_def by (metis assms)

lemma tables_wf_mono:
  assumes "tables_wf s D" and "\<And>d i. d \<in> D \<Longrightarrow> slot i \<Longrightarrow> table_at s' d i = table_at s d i"
    and "npages s' = npages s"
    and "\<And>q. q \<in> set (free_pages s') \<Longrightarrow> q \<in> set (free_pages s) \<or> (q \<notin> D \<and> \<not> is_table s D q)"
    and "\<And>q. is_table s D q \<Longrightarrow> pp_ref (pages s' ! q) = pp_ref (pages s ! q)"
  shows "tables_wf s' D"
proof -
  have t: "is_table s' D t \<longleftrightarrow> is_table s D t" for t
    using assms(2) by (rule is_table_cong)
  show ?thesis
    unfolding tables_wf_def t assms(3)
  proof (intro conjI)
    show "\<forall>d\<in>D. d < unat (npages s) \<and> d \<notin> set (free_pages s')"
      using tables_wfD(1,2)[OF assms(1)] assms(4) by blast
    show "\<forall>t. is_table s D t \<longrightarrow> t < unat (npages s) \<and> t \<notin> set (free_pages s') \<and> t \<notin> D \<and>
        pp_ref (pages s' ! t) = 1"
      using assms(1,4,5) unfolding tables_wf_def by metis
    show "\<forall>d\<in>D. \<forall>d'\<in>D. \<forall>i i' t. slot i \<longrightarrow> slot i' \<longrightarrow>
        table_at s' d i = Some t \<longrightarrow> table_at s' d' i' = Some t \<longrightarrow> d = d' \<and> i = i'"
      using tables_wfD(6)[OF assms(1)] assms(2) by metis
  qed
qed

lemma free_pages_cong:
  assumes "pages s' = pages s" and "page_free_list s' = page_free_list s"
  shows "free_pages s' = free_pages s"
  using assms by (simp add: free_pages_def)

lemma alloc_inv_cong:
  assumes "pages s' = pages s" "page_free_list s' = page_free_list s" "npages s' = npages s"
    "num_free_pages s' = num_free_pages s" "page_lock s' = page_lock s"
  shows "alloc_inv s' = alloc_inv s"
  using assms free_pages_cong[OF assms(1,2)] by (simp add: alloc_inv_def)

lemma write_pte_fields [simp]:
  "pages (write_pte p v s) = pages s" "page_free_list (write_pte p v s) = page_free_list s"
  "npages (write_pte p v s) = npages s" "num_free_pages (write_pte p v s) = num_free_pages s"
  "page_lock (write_pte p v s) = page_lock s" "tlb (write_pte p v s) = tlb s"
  "free_pages (write_pte p v s) = free_pages s" "alloc_inv (write_pte p v s) = alloc_inv s"
  by (simp_all add: write_pte_def free_pages_def alloc_inv_def)

lemma phys_write_pte: "phys (write_pte (t, j) v s) = (phys s)(t := (phys s t)(j := v))"
  by (simp add: write_pte_def)

lemma mem_frame_write_pte [simp]: "mem_frame s (write_pte p v s)"
  by (simp add: mem_frame_def write_pte_def)

lemma tlb_invalidate_fields [simp]:
  "pages (tlb_invalidate va s) = pages s" "npages (tlb_invalidate va s) = npages s"
  "free_pages (tlb_invalidate va s) = free_pages s" "alloc_inv (tlb_invalidate va s) = alloc_inv s"
  "phys (tlb_invalidate va s) = phys s" "table_at (tlb_invalidate va s) = table_at s"
  "pte_at (tlb_invalidate va s) = pte_at s" "mapped (tlb_invalidate va s) = mapped s"
  "tables_wf (tlb_invalidate va s) D = tables_wf s D" "refs_wf (tlb_invalidate va s) D R = refs_wf s D R"
  "tlb (tlb_invalidate va s) (PGNUM va) = None"
  by (simp_all add: tlb_invalidate_def free_pages_def alloc_inv_def table_at_def pte_at_def mapped_def
      tables_wf_def refs_wf_def is_table_def mappings_def fun_eq_iff split: option.splits)

lemma mem_frame_tlb_invalidate [simp]: "mem_frame s (tlb_invalidate va s)"
  by (simp add: mem_frame_def tlb_invalidate_def)

section \<open>Walking and creating page tables\<close>

lemma pgdir_walk_hit:
  assumes "tables_wf s D" "d \<in> D" "slot (unat (PDX va))" "table_at s d (unat (PDX va)) = Some t"
  shows "pgdir_walk d va c s = Inr (Some (t, unat (PTX va)), s)"
proof -
  have "present (phys s d (unat (PDX va)))" "frame_of (phys s d (unat (PDX va))) = t"
    using assms(4) by (auto simp: table_at_def split: if_splits)
  with tables_wfD(3)[OF assms] show ?thesis
    by (simp add: pgdir_walk_def read_pte_def present_def KADDR_frame)
qed

lemma pgdir_walk_miss:
  assumes "table_at s d (unat (PDX va)) = None"
  shows "pgdir_walk d va False s = Inr (None, s)"
  using assms by (simp add: pgdir_walk_def read_pte_def table_at_def present_def split: if_splits)

lemma page_incref_used:
  assumes "alloc_inv s" "p < unat (npages s)" "p \<notin> set (free_pages s)"
  obtains s' where "page_incref p s = Inr s'" "mem_frame s s'" "alloc_inv s'"
    "free_pages s' = free_pages s" "phys s' = phys s" "tlb s' = tlb s"
    "pages s' = (pages s)[p := \<lparr>pp_link = None, pp_ref = pp_ref (pages s ! p) + 1\<rparr>]"
proof -
  note inv = alloc_invD[OF assms(1)]
  have p: "p < length (pages s)" "pp_link (pages s ! p) = None"
    using inv(1,7) assms by auto
  let ?s = "s\<lparr>pages := (pages s)[p := \<lparr>pp_link = None, pp_ref = pp_ref (pages s ! p) + 1\<rparr>]\<rparr>"
  have "page_incref p s = Inr ?s"
    using p by (simp add: page_incref_def set_page_def)
  then show thesis
    using alloc_inv_set_ref[OF assms(1,3,2), of "pp_ref (pages s ! p) + 1"] p
    by (intro that[of ?s]) (simp_all add: mem_frame_def)
qed

lemma table_flags: "unat (PTE_P OR PTE_U OR PTE_W) < 4096"
  by (simp add: layout_defs)

lemma pgdir_walk_new:
  assumes "alloc_inv s" "table_at s d (unat (PDX va)) = None" "free_pages s = p # ps"
  obtains s' where "pgdir_walk d va True s = Inr (Some (p, unat (PTX va)), s')" "mem_frame s s'"
    "alloc_inv s'" "free_pages s' = ps" "tlb s' = tlb s"
    "pages s' = (pages s)[p := \<lparr>pp_link = None, pp_ref = 1\<rparr>]"
    "phys s' = (let ph = (phys s)(p := \<lambda>_. 0) in
      ph(d := (ph d)(unat (PDX va) := page2pa p OR PTE_P OR PTE_U OR PTE_W)))"
proof -
  obtain s1 where s1: "page_alloc ALLOC_ZERO s = Inr (Some p, s1)" "mem_frame s s1" "alloc_inv s1"
    "free_pages s1 = ps" "pages s1 = (pages s)[p := \<lparr>pp_link = None, pp_ref = 0\<rparr>]"
    "phys s1 = (phys s)(p := \<lambda>_. 0)" "tlb s1 = tlb s"
    using page_alloc_cons[OF assms(1,3), of ALLOC_ZERO] by (auto simp: ALLOC_ZERO_def)
  have p: "p < unat (npages s1)" "p \<notin> set (free_pages s1)" "p < length (pages s)"
    using alloc_invD(1,4)[OF assms(1)] alloc_invD(8)[OF assms(1), of p] assms(3) s1(4) mem_frameD(1)[OF s1(2)] by auto
  obtain s2 where s2: "page_incref p s1 = Inr s2" "mem_frame s1 s2" "alloc_inv s2"
    "free_pages s2 = ps" "phys s2 = phys s1" "tlb s2 = tlb s1"
    "pages s2 = (pages s1)[p := \<lparr>pp_link = None, pp_ref = pp_ref (pages s1 ! p) + 1\<rparr>]"
    using page_incref_used[OF s1(3) p(1,2)] s1(4) by metis
  have kva: "page2kva p s2 = Inr p"
    using p(1) alloc_invD(2)[OF s2(3)] mem_frameD(1)[OF s2(2)] by (simp add: page2kva_in)
  let ?s = "write_pte (d, unat (PDX va)) (page2pa p OR PTE_P OR PTE_U OR PTE_W) s2"
  have "read_pte (d, unat (PDX va)) s AND PTE_P = 0"
    using assms(2) by (simp add: table_at_def present_def read_pte_def split: if_splits)
  then have "pgdir_walk d va True s = Inr (Some (p, unat (PTX va)), ?s)"
    using s1(1) s2(1) kva by (simp add: pgdir_walk_def)
  moreover have "mem_frame s ?s"
    using mem_frame_trans[OF s1(2) mem_frame_trans[OF s2(2) mem_frame_write_pte]] .
  moreover have "pages ?s = (pages s)[p := \<lparr>pp_link = None, pp_ref = 1\<rparr>]"
    using s1(5) s2(7) p(3) by simp
  ultimately show thesis
    using s1 s2 by (intro that[of ?s]) (simp_all add: phys_write_pte)
qed

lemma pgdir_walk_full:
  assumes "alloc_inv s" "table_at s d (unat (PDX va)) = None" "free_pages s = []"
  obtains s' where "pgdir_walk d va True s = Inr (None, s')" "mem_frame s s'" "alloc_inv s'"
    "free_pages s' = []" "pages s' = pages s" "phys s' = phys s" "tlb s' = tlb s"
proof -
  obtain s' where s': "page_alloc ALLOC_ZERO s = Inr (None, s')" "mem_frame s s'" "alloc_inv s'"
    "free_pages s' = []" "pages s' = pages s" "phys s' = phys s" "tlb s' = tlb s"
    using page_alloc_empty[OF assms(1,3), of ALLOC_ZERO] by metis
  have "read_pte (d, unat (PDX va)) s AND PTE_P = 0"
    using assms(2) by (simp add: table_at_def present_def read_pte_def split: if_splits)
  with s' show thesis
    by (intro that[of s']) (simp_all add: pgdir_walk_def)
qed

text \<open>A fresh, zeroed table changes the meaning of no virtual page.\<close>

lemma new_table:
  assumes "tables_wf s D" "alloc_inv s" "d \<in> D" "slot i" "table_at s d i = None" "free_pages s = p # ps"
    and ph: "phys s' = (let ph = (phys s)(p := \<lambda>_. 0) in
      ph(d := (ph d)(i := page2pa p OR PTE_P OR PTE_U OR PTE_W)))"
    and "e \<in> D"
  shows "table_at s' e j = (if e = d \<and> j = i then Some p else table_at s e j)"
    and "slot (n div 1024) \<Longrightarrow> pte_at s' e n = pte_at s e n"
proof -
  have p: "p \<notin> D" "p < 65536" "p \<in> set (free_pages s)"
    using tables_wfD(2)[OF assms(1)] alloc_invD(2)[OF assms(2)] alloc_invD(8)[OF assms(2), of p] assms(6) by auto
  have fr: "frame_of (page2pa p OR PTE_P OR PTE_U OR PTE_W) = p"
    using frame_of_page[OF p(2) table_flags] .
  show tab: "table_at s' e j = (if e = d \<and> j = i then Some p else table_at s e j)" for j
    using p(1) assms(3,8) fr by (auto simp: table_at_def ph Let_def)
  assume n: "slot (n div 1024)"
  show "pte_at s' e n = pte_at s e n"
  proof (cases "e = d \<and> n div 1024 = i")
    case True
    then show ?thesis
      using tab[of i] assms(5) p(1) assms(3) by (auto simp: pte_at_def ph Let_def)
  next
    case False
    have "u \<noteq> p \<and> u \<noteq> d" if "table_at s e (n div 1024) = Some u" for u
      using tables_wfD(4,5)[OF assms(1,8) n that] p(3) assms(3) by auto
    with False tab[of "n div 1024"] show ?thesis
      by (auto simp: pte_at_def ph Let_def split: option.split)
  qed
qed

lemma refs_wfD:
  assumes "refs_wf s D R"
  shows "d \<in> D \<Longrightarrow> n \<in> R \<Longrightarrow> mapped s d n = Some q \<Longrightarrow> q < unat (npages s)"
    and "d \<in> D \<Longrightarrow> n \<in> R \<Longrightarrow> mapped s d n = Some q \<Longrightarrow> q \<notin> set (free_pages s)"
    and "d \<in> D \<Longrightarrow> n \<in> R \<Longrightarrow> mapped s d n = Some q \<Longrightarrow> q \<notin> D"
    and "d \<in> D \<Longrightarrow> n \<in> R \<Longrightarrow> mapped s d n = Some q \<Longrightarrow> \<not> is_table s D q"
    and "card (mappings s D R q) \<le> unat (pp_ref (pages s ! q))"
  using assms unfolding refs_wf_def by blast+

text \<open>What building page tables leaves alone: the content of every frame in use that is not one.\<close>

definition frames_kept :: "nat set \<Rightarrow> 'a mem_state_scheme \<Rightarrow> 'a mem_state_scheme \<Rightarrow> bool" where
  "frames_kept D s s' \<longleftrightarrow> set (free_pages s') \<subseteq> set (free_pages s) \<and>
     (\<forall>f. f \<notin> D \<longrightarrow> f \<notin> set (free_pages s) \<longrightarrow> \<not> is_table s D f \<longrightarrow>
        phys s' f = phys s f \<and> \<not> is_table s' D f) \<and>
     (\<forall>e\<in>D. \<forall>j t. table_at s e j = Some t \<longrightarrow> table_at s' e j = Some t)"

lemma frames_kept_refl [simp]: "frames_kept D s s"
  by (simp add: frames_kept_def)

lemma frames_kept_trans: "frames_kept D s s1 \<Longrightarrow> frames_kept D s1 s2 \<Longrightarrow> frames_kept D s s2"
  unfolding frames_kept_def
  by (intro conjI; elim conjE) (blast, metis subset_iff, blast)

lemma frames_kept_write_pte:
  assumes "tables_wf s D" "d \<in> D" "slot i" "table_at s d i = Some t"
  shows "frames_kept D s (write_pte (t, j) v s)"
proof -
  have "is_table s D t" using assms(2-4) unfolding is_table_def by blast
  moreover have "is_table (write_pte (t, j) v s) D u \<longleftrightarrow> is_table s D u" for u
    using write_pte_table[OF assms] by (intro is_table_cong) auto
  ultimately show ?thesis
    using write_pte_table[OF assms] by (auto simp: frames_kept_def phys_write_pte)
qed

text \<open>
  The outcome of \<open>pgdir_walk\<close> with \<open>create\<close>: either memory is exhausted, or the table exists
  afterwards, no virtual page changed its meaning, and at most one page left the free list.
\<close>

definition walk_post :: "nat set \<Rightarrow> nat \<Rightarrow> nat \<Rightarrow> nat \<Rightarrow> 'a mem_state_scheme \<Rightarrow> 'a mem_state_scheme \<Rightarrow> bool" where
  "walk_post D d i t s s' \<longleftrightarrow>
     mem_frame s s' \<and> alloc_inv s' \<and> tables_wf s' D \<and> table_at s' d i = Some t \<and> tlb s' = tlb s \<and>
     (\<forall>e\<in>D. \<forall>n. slot (n div 1024) \<longrightarrow> pte_at s' e n = pte_at s e n) \<and>
     (\<forall>e\<in>D. \<forall>j. table_at s' e j = (if e = d \<and> j = i then Some t else table_at s e j)) \<and>
     (table_at s d i = Some t \<and> s' = s \<or>
      table_at s d i = None \<and> free_pages s = t # free_pages s' \<and>
      pages s' = (pages s)[t := \<lparr>pp_link = None, pp_ref = 1\<rparr>]) \<and> frames_kept D s s'"

lemma pgdir_walk_create:
  assumes "alloc_inv s" "tables_wf s D" "d \<in> D" "slot (unat (PDX va))"
    and "table_at s d (unat (PDX va)) \<noteq> None \<or> free_pages s \<noteq> []"
  obtains t s' where "pgdir_walk d va True s = Inr (Some (t, unat (PTX va)), s')"
    "walk_post D d (unat (PDX va)) t s s'"
proof (cases "table_at s d (unat (PDX va))")
  case (Some t)
  with assms show thesis
    by (intro that[of t s]) (auto simp: walk_post_def pgdir_walk_hit[OF assms(2-4)])
next
  case None
  then obtain p ps where fp: "free_pages s = p # ps"
    using assms(5) by (cases "free_pages s") auto
  let ?i = "unat (PDX va)"
  obtain s' where s': "pgdir_walk d va True s = Inr (Some (p, unat (PTX va)), s')" "mem_frame s s'"
    "alloc_inv s'" "free_pages s' = ps" "tlb s' = tlb s"
    "pages s' = (pages s)[p := \<lparr>pp_link = None, pp_ref = 1\<rparr>]"
    "phys s' = (let ph = (phys s)(p := \<lambda>_. 0) in ph(d := (ph d)(?i := page2pa p OR PTE_P OR PTE_U OR PTE_W)))"
    using pgdir_walk_new[OF assms(1) None fp] by metis
  note tab = new_table(1)[OF assms(2,1,3,4) None fp s'(7)]
  note pte = new_table(2)[OF assms(2,1,3,4) None fp s'(7)]
  have pf: "p \<in> set (free_pages s)" "p < unat (npages s)" "p \<notin> D" "distinct (p # ps)"
    using fp alloc_invD(8)[OF assms(1), of p] alloc_invD(4)[OF assms(1)] tables_wfD(2)[OF assms(2)] by auto
  have tab': "table_at s' e j = Some u \<longleftrightarrow> e = d \<and> j = ?i \<and> u = p \<or> table_at s e j = Some u"
    if "e \<in> D" for e j u
    using tab[OF that, of j] None by auto
  have it: "is_table s' D u \<longleftrightarrow> u = p \<or> is_table s D u" for u
    unfolding is_table_def using tab' assms(3,4) by blast
  have "tables_wf s' D"
    unfolding tables_wf_def it mem_frameD(1)[OF s'(2)]
  proof (intro conjI ballI allI impI)
    fix e e' i i' u
    assume a: "e \<in> D" "e' \<in> D" "slot i" "slot i'" "table_at s' e i = Some u" "table_at s' e' i' = Some u"
    have "table_at s x y \<noteq> Some p" if "x \<in> D" "slot y" for x y
      using tables_wfD(4)[OF assms(2) that] pf(1) by blast
    with a tables_wfD(6)[OF assms(2) a(1-4)] show "e = e'" "i = i'"
      by (auto simp: tab')
  qed (use assms(2) fp pf s'(4,6) alloc_invD(1)[OF assms(1)] in \<open>auto simp: tables_wf_def nth_list_update\<close>)
  moreover have "table_at s' d ?i = Some p"
    using tab'[OF assms(3)] by blast
  moreover have "frames_kept D s s'"
    using s'(4,7) fp assms(3) tab' by (auto simp: frames_kept_def it Let_def)
  ultimately show thesis
    using s' None fp tab pte by (intro that[of p s']) (auto simp: walk_post_def)
qed

lemma walk_post_refs:
  assumes "walk_post D d i t s s'" "refs_wf s D R" "region R" "alloc_inv s" "d \<in> D" "slot i"
  shows "refs_wf s' D R" and "e \<in> D \<Longrightarrow> slot (n div 1024) \<Longrightarrow> mapped s' e n = mapped s e n"
proof -
  show m: "mapped s' e n = mapped s e n" if "e \<in> D" "slot (n div 1024)" for e n
    using assms(1) that by (simp add: walk_post_def mapped_def)
  then have mp: "mappings s' D R q = mappings s D R q" for q
    using assms(3) by (auto simp: mappings_def region_def)
  show "refs_wf s' D R"
  proof (cases "s' = s")
    case False
    then have n: "table_at s d i = None" "free_pages s = t # free_pages s'"
      "pages s' = (pages s)[t := \<lparr>pp_link = None, pp_ref = 1\<rparr>]" "npages s' = npages s"
      using assms(1) mem_frameD(1) unfolding walk_post_def by blast+
    have "is_table s' D u \<longleftrightarrow> u = t \<or> is_table s D u" for u
      using assms(1,5,6) n(1) unfolding walk_post_def is_table_def
      by (metis option.distinct(1) option.inject)
    moreover have "t < length (pages s)"
      using alloc_invD(1,8)[OF assms(4)] n(2) by auto
    moreover have "mappings s D R t = {}"
      using refs_wfD(2)[OF assms(2)] n(2) by (auto simp: mappings_def)
    ultimately show ?thesis
      using assms(2,3) m n unfolding refs_wf_def mp region_def
      by (auto simp: nth_list_update) 
  qed (use assms(2) in simp)
qed

section \<open>Lookup and removal\<close>

lemma page_lookup_none:
  assumes "tables_wf s D" "d \<in> D" "slot (unat (PDX va))" "mapped s d (unat (PGNUM va)) = None"
  shows "page_lookup d va s = Inr None"
proof (cases "table_at s d (unat (PDX va))")
  case None
  then show ?thesis by (simp add: page_lookup_def pgdir_walk_miss)
next
  case (Some t)
  then have "\<not> present (phys s t (unat (PTX va)))"
    using assms(4) by (simp add: mapped_def pte_at_va split: if_splits)
  with pgdir_walk_hit[OF assms(1-3) Some] show ?thesis
    by (simp add: page_lookup_def read_pte_def present_def)
qed

lemma page_lookup_some:
  assumes "tables_wf s D" "d \<in> D" "slot (unat (PDX va))" "mapped s d (unat (PGNUM va)) = Some q"
    and "q < unat (npages s)"
  obtains t where "table_at s d (unat (PDX va)) = Some t"
    "page_lookup d va s = Inr (Some (q, (t, unat (PTX va))))"
proof (cases "table_at s d (unat (PDX va))")
  case None
  then show ?thesis
    using assms(4) by (simp add: mapped_def pte_at_va)
next
  case (Some t)
  then have "present (phys s t (unat (PTX va)))" "frame_of (phys s t (unat (PTX va))) = q"
    using assms(4) by (auto simp: mapped_def pte_at_va split: if_splits)
  with pgdir_walk_hit[OF assms(1-3) Some] assms(5) have
    "page_lookup d va s = Inr (Some (q, (t, unat (PTX va))))"
    by (simp add: page_lookup_def read_pte_def present_def KADDR_frame)
  with Some show thesis by (rule that)
qed

lemma page_decref_used:
  assumes "alloc_inv s" "q < unat (npages s)" "pp_ref (pages s ! q) \<noteq> 0"
  obtains s' where "page_decref q s = Inr s'" "mem_frame s s'" "alloc_inv s'" "phys s' = phys s" "tlb s' = tlb s"
    "free_pages s' = (if pp_ref (pages s ! q) = 1 then q # free_pages s else free_pages s)"
    "\<And>x. pp_ref (pages s' ! x) = (if x = q then pp_ref (pages s ! q) - 1 else pp_ref (pages s ! x))"
proof (cases "pp_ref (pages s ! q) = 1")
  case True
  from page_decref_last[OF assms(1,2) True] obtain s' where s':
    "page_decref q s = Inr s'" "mem_frame s s'" "alloc_inv s'" "free_pages s' = q # free_pages s"
    "pages s' = (pages s)[q := \<lparr>pp_link = page_free_list s, pp_ref = 0\<rparr>]" "phys s' = phys s" "tlb s' = tlb s" .
  with True alloc_invD(1)[OF assms(1)] assms(2) show thesis
    by (intro that[of s']) (auto simp: nth_list_update)
next
  case False
  then have "1 < pp_ref (pages s ! q)"
    using assms(3) by (metis not_less_iff_gr_or_eq word_less_1)
  from page_decref_shared[OF assms(1,2) this] obtain s' where s':
    "page_decref q s = Inr s'" "mem_frame s s'" "alloc_inv s'" "free_pages s' = free_pages s"
    "pages s' = (pages s)[q := \<lparr>pp_link = None, pp_ref = pp_ref (pages s ! q) - 1\<rparr>]"
    "phys s' = phys s" "tlb s' = tlb s" .
  with False alloc_invD(1)[OF assms(1)] assms(2) show thesis
    by (intro that[of s']) (auto simp: nth_list_update)
qed

lemma finite_mappings:
  assumes "finite D" "region R"
  shows "finite (mappings s D R q)"
proof -
  have "R \<subseteq> {..<1048576}"
    using assms(2) by (auto simp: region_def slot_def)
  then have "finite (D \<times> R)"
    using assms(1) finite_subset by auto
  moreover have "mappings s D R q \<subseteq> D \<times> R"
    by (auto simp: mappings_def)
  ultimately show ?thesis by (rule rev_finite_subset)
qed

lemma unat_ref_minus_1: "(r :: u16) \<noteq> 0 \<Longrightarrow> unat (r - 1) = unat r - 1"
  by (simp add: unat_sub word_le_nat_alt unat_gt_0 Suc_leI)

lemma unat_ref_plus_1:
  assumes "(r :: u16) \<noteq> 0xFFFF"
  shows "unat (r + 1) = Suc (unat r)"
proof -
  have "unat r \<noteq> 65535"
    using assms by (auto simp: word_unat_eq_iff)
  moreover have "unat r < 65536"
    using unsigned_less[of r] by simp
  ultimately show ?thesis
    by (simp add: unat_word_ariths)
qed

text \<open>What removing the mapping of virtual page \<open>n\<close> to page \<open>q\<close> does to the state.\<close>

definition remove_post ::
    "nat set \<Rightarrow> nat set \<Rightarrow> nat \<Rightarrow> nat \<Rightarrow> nat \<Rightarrow> 'a mem_state_scheme \<Rightarrow> 'a mem_state_scheme \<Rightarrow> bool" where
  "remove_post D R d n q s s' \<longleftrightarrow>
     mem_frame s s' \<and> vm_inv s' D R \<and> tlb s' (of_nat n) = None \<and>
     (\<forall>e\<in>D. \<forall>j. table_at s' e j = table_at s e j) \<and>
     (\<forall>e\<in>D. \<forall>m. slot (m div 1024) \<longrightarrow> pte_at s' e m = (if e = d \<and> m = n then 0 else pte_at s e m)) \<and>
     free_pages s' = (if pp_ref (pages s ! q) = 1 then q # free_pages s else free_pages s) \<and>
     (\<forall>x. pp_ref (pages s' ! x) = (if x = q then pp_ref (pages s ! q) - 1 else pp_ref (pages s ! x)))"

lemma remove_post_mapped:
  assumes "remove_post D R d n q s s'" "e \<in> D" "slot (m div 1024)"
  shows "mapped s' e m = (if e = d \<and> m = n then None else mapped s e m)"
  using assms by (auto simp: remove_post_def mapped_def)

lemma mapping_counted:
  assumes "vm_inv s D R" "d \<in> D" "n \<in> R" "mapped s d n = Some q"
  shows "pp_ref (pages s ! q) \<noteq> 0" "card (mappings s D R q) = Suc (card (mappings s D R q - {(d, n)}))"
proof -
  have in_m: "(d, n) \<in> mappings s D R q"
    using assms by (simp add: mappings_def)
  have fin: "finite (mappings s D R q)"
    using assms(1) finite_mappings by (auto simp: vm_inv_def)
  show "card (mappings s D R q) = Suc (card (mappings s D R q - {(d, n)}))"
    using card.remove[OF fin in_m] .
  then show "pp_ref (pages s ! q) \<noteq> 0"
    using assms(1) refs_wfD(5)[of s D R q] by (auto simp: vm_inv_def)
qed

lemma refs_wf_remove:
  assumes "vm_inv s D R" "d \<in> D" "n \<in> R" "mapped s d n = Some q"
    and m: "\<And>e m. e \<in> D \<Longrightarrow> m \<in> R \<Longrightarrow> mapped s' e m = (if e = d \<and> m = n then None else mapped s e m)"
    and tab: "\<And>u. is_table s' D u \<longleftrightarrow> is_table s D u" and np: "npages s' = npages s"
    and fp: "free_pages s' = (if pp_ref (pages s ! q) = 1 then q # free_pages s else free_pages s)"
    and ref: "\<And>x. pp_ref (pages s' ! x) = (if x = q then pp_ref (pages s ! q) - 1 else pp_ref (pages s ! x))"
  shows "refs_wf s' D R"
proof -
  have wf: "refs_wf s D R" and fin: "finite (mappings s D R x)" for x
    using assms(1) finite_mappings by (auto simp: vm_inv_def)
  have mp: "mappings s' D R x = mappings s D R x - {(d, n)}" for x
    using m by (auto simp: mappings_def split: if_splits)
  have c: "card (mappings s D R q) \<le> unat (pp_ref (pages s ! q))"
    using refs_wfD(5)[OF wf] .
  have q1: "mappings s' D R q = {}" if "pp_ref (pages s ! q) = 1"
    using c that mapping_counted(2)[OF assms(1-4)] fin[of q] by (simp add: mp)
  have "x < unat (npages s') \<and> x \<notin> set (free_pages s') \<and> x \<notin> D \<and> \<not> is_table s' D x"
    if "e \<in> D" "k \<in> R" "mapped s' e k = Some x" for e k x
  proof -
    have old: "mapped s e k = Some x"
      using m[OF that(1,2)] that(3) by (auto split: if_splits)
    have "x \<noteq> q" if "pp_ref (pages s ! q) = 1"
      using q1[OF that] \<open>e \<in> D\<close> \<open>k \<in> R\<close> \<open>mapped s' e k = Some x\<close> by (auto simp: mappings_def)
    with refs_wfD(1-4)[OF wf that(1,2) old] show ?thesis
      by (auto simp: np tab fp)
  qed
  moreover have "card (mappings s' D R x) \<le> unat (pp_ref (pages s' ! x))" for x
  proof (cases "x = q")
    case True
    then show ?thesis
      using c mapping_counted[OF assms(1-4)] by (simp add: mp ref unat_ref_minus_1)
  next
    case False
    have "card (mappings s' D R x) \<le> card (mappings s D R x)"
      unfolding mp by (rule card_mono[OF fin]) auto
    with False refs_wfD(5)[OF wf, of x] show ?thesis by (simp add: ref)
  qed
  ultimately show ?thesis
    by (auto simp: refs_wf_def)
qed

lemma page_remove_some:
  assumes "vm_inv s D R" "d \<in> D" "unat (PGNUM va) \<in> R" "mapped s d (unat (PGNUM va)) = Some q"
  obtains s' where "page_remove d va s = Inr s'" "remove_post D R d (unat (PGNUM va)) q s s'"
proof -
  let ?n = "unat (PGNUM va)"
  note inv = assms(1)[unfolded vm_inv_def]
  have inv': "alloc_inv s" "tables_wf s D" "refs_wf s D R" "region R" using inv by auto
  have sl: "slot (unat (PDX va))"
    using inv'(4) assms(3) by (auto simp: region_def simp flip: vpn_parts)
  note q = refs_wfD(1-4)[OF inv'(3) assms(2-4)]
  obtain t where t: "table_at s d (unat (PDX va)) = Some t"
    "page_lookup d va s = Inr (Some (q, (t, unat (PTX va))))"
    using page_lookup_some[OF inv'(2) assms(2) sl assms(4) q(1)] .
  obtain s1 where s1: "page_decref q s = Inr s1" "mem_frame s s1" "alloc_inv s1" "phys s1 = phys s" "tlb s1 = tlb s"
    "free_pages s1 = (if pp_ref (pages s ! q) = 1 then q # free_pages s else free_pages s)"
    "\<And>x. pp_ref (pages s1 ! x) = (if x = q then pp_ref (pages s ! q) - 1 else pp_ref (pages s ! x))"
    using page_decref_used[OF inv'(1) q(1) mapping_counted(1)[OF assms]] by metis
  have same: "table_at s1 e j = table_at s e j" "pte_at s1 e m = pte_at s e m" for e j m
    using s1(4) by (simp_all add: table_at_def pte_at_def split: option.split)
  have wf1: "tables_wf s1 D"
    by (rule tables_wf_mono[OF inv'(2)]) (use same mem_frameD(1)[OF s1(2)] s1(6,7) q in \<open>auto split: if_splits\<close>)
  let ?s = "tlb_invalidate va (write_pte (t, unat (PTX va)) 0 s1)"
  have t1: "table_at s1 d (unat (PDX va)) = Some t"
    using t(1) same by simp
  have n: "unat (PDX va) * 1024 + unat (PTX va) = ?n"
    by (simp add: PGNUM_eq_PDX_PTX)
  have j: "unat (PTX va) < 1024"
    using PTX_less[of va] by (simp add: layout_defs)
  have tab: "table_at ?s e i = table_at s e i" if "e \<in> D" for e i
    using write_pte_table[OF wf1 assms(2) sl t1 that] same by simp
  have pte: "pte_at ?s e m = (if e = d \<and> m = ?n then 0 else pte_at s e m)" if "e \<in> D" "slot (m div 1024)" for e m
    using write_pte_pte_at[OF wf1 assms(2) sl t1 j that, of 0] same n by simp
  have "tables_wf ?s D"
    by (rule tables_wf_mono[OF wf1]) (use tab same in auto)
  moreover have "refs_wf ?s D R"
  proof (rule refs_wf_remove[OF assms])
    show "mapped ?s e m = (if e = d \<and> m = ?n then None else mapped s e m)" if "e \<in> D" "m \<in> R" for e m
      using pte[OF that(1)] inv'(4) that by (auto simp: mapped_def region_def)
    show "is_table ?s D u \<longleftrightarrow> is_table s D u" for u
      using tab by (intro is_table_cong) auto
  qed (use s1(6,7) mem_frameD(1)[OF s1(2)] in simp_all)
  moreover have "mem_frame s ?s"
    using mem_frame_trans[OF s1(2) mem_frame_trans[OF mem_frame_write_pte mem_frame_tlb_invalidate]] .
  ultimately have "remove_post D R d ?n q s ?s"
    using inv s1 tab pte by (auto simp: remove_post_def vm_inv_def)
  moreover have "page_remove d va s = Inr ?s"
    using t(2) s1(1) by (simp add: page_remove_def)
  ultimately show thesis using that by blast
qed

lemma page_remove_none:
  assumes "vm_inv s D R" "d \<in> D" "unat (PGNUM va) \<in> R" "mapped s d (unat (PGNUM va)) = None"
  shows "page_remove d va s = Inr s"
proof -
  have "slot (unat (PDX va))" "tables_wf s D"
    using assms by (auto simp: vm_inv_def region_def simp flip: vpn_parts)
  with page_lookup_none[of s D d va] assms show ?thesis
    by (simp add: page_remove_def)
qed

section \<open>Insertion\<close>

text \<open>A page that \<open>page_insert\<close> may map: allocated, not part of a table structure, and with
  room in its 16-bit reference count.\<close>

definition mappable :: "'a mem_state_scheme \<Rightarrow> nat set \<Rightarrow> nat \<Rightarrow> bool" where
  "mappable s D p \<longleftrightarrow> p < unat (npages s) \<and> p \<notin> set (free_pages s) \<and> p \<notin> D \<and> \<not> is_table s D p \<and>
     pp_ref (pages s ! p) \<noteq> 0xFFFF"

lemma refs_wf_insert:
  assumes "vm_inv s D R" "d \<in> D" "n \<in> R" "mapped s d n = None"
    and p: "p < unat (npages s)" "p \<notin> set (free_pages s)" "p \<notin> D" "\<not> is_table s D p"
    and room: "card (mappings s D R p) < unat (pp_ref (pages s ! p))"
    and m: "\<And>e m. e \<in> D \<Longrightarrow> m \<in> R \<Longrightarrow> mapped s' e m = (if e = d \<and> m = n then Some p else mapped s e m)"
    and tab: "\<And>u. is_table s' D u \<longleftrightarrow> is_table s D u"
    and eq: "npages s' = npages s" "free_pages s' = free_pages s" "pages s' = pages s"
  shows "refs_wf s' D R"
proof -
  have wf: "refs_wf s D R" and fin: "finite (mappings s D R x)" for x
    using assms(1) finite_mappings by (auto simp: vm_inv_def)
  have mp: "mappings s' D R x = (if x = p then insert (d, n) (mappings s D R x) else mappings s D R x)" for x
    using m assms(2-4) by (auto simp: mappings_def split: if_splits)
  have "card (mappings s' D R x) \<le> unat (pp_ref (pages s' ! x))" for x
    using refs_wfD(5)[OF wf, of x] room fin[of x] card_insert_le_m1[of "unat (pp_ref (pages s ! p))" "mappings s D R p" "(d, n)"]
    by (auto simp: mp eq card_insert_if)
  moreover have "x < unat (npages s') \<and> x \<notin> set (free_pages s') \<and> x \<notin> D \<and> \<not> is_table s' D x"
    if "e \<in> D" "k \<in> R" "mapped s' e k = Some x" for e k x
    using that m[OF that(1,2)] refs_wfD(1-4)[OF wf that(1,2)] p by (auto simp: eq tab split: if_splits)
  ultimately show ?thesis
    by (auto simp: refs_wf_def)
qed

text \<open>The middle of \<open>page_insert\<close>: count the new mapping, then drop the old one if there is one.\<close>

definition insert_prepared ::
    "nat set \<Rightarrow> nat set \<Rightarrow> nat \<Rightarrow> nat \<Rightarrow> nat \<Rightarrow> 'a mem_state_scheme \<Rightarrow> 'a mem_state_scheme \<Rightarrow> bool" where
  "insert_prepared D R d n p s s' \<longleftrightarrow>
     mem_frame s s' \<and> vm_inv s' D R \<and>
     (\<forall>e\<in>D. \<forall>j. table_at s' e j = table_at s e j) \<and>
     (\<forall>e\<in>D. \<forall>m. slot (m div 1024) \<longrightarrow>
        pte_at s' e m = (if e = d \<and> m = n \<and> mapped s d m \<noteq> None then 0 else pte_at s e m)) \<and>
     p \<notin> set (free_pages s') \<and> card (mappings s' D R p) < unat (pp_ref (pages s' ! p)) \<and>
     (mapped s d n \<noteq> None \<longrightarrow> tlb s' (of_nat n) = None) \<and>
     pp_ref (pages s' ! p) = (if mapped s d n = Some p then pp_ref (pages s ! p) else pp_ref (pages s ! p) + 1)"

lemma insert_prepare:
  assumes "vm_inv s D R" "d \<in> D" "unat (PGNUM va) \<in> R" "mappable s D p"
    and "table_at s d (unat (PDX va)) = Some t"
  obtains s1 s2 where "page_incref p s = Inr s1"
    "(if read_pte (t, unat (PTX va)) s1 AND PTE_P \<noteq> 0
      then rbind (page_remove d va s1) (\<lambda>s. Inr (tlb_invalidate va s)) else Inr s1) = Inr s2"
    "insert_prepared D R d (unat (PGNUM va)) p s s2"
proof -
  let ?n = "unat (PGNUM va)"
  have inv: "alloc_inv s" "tables_wf s D" "refs_wf s D R" "region R" "finite D"
    using assms(1) by (auto simp: vm_inv_def)
  have p: "p < unat (npages s)" "p \<notin> set (free_pages s)" "p \<notin> D" "\<not> is_table s D p" "pp_ref (pages s ! p) \<noteq> 0xFFFF"
    using assms(4) by (auto simp: mappable_def)
  obtain s1 where s1: "page_incref p s = Inr s1" "mem_frame s s1" "alloc_inv s1"
    "free_pages s1 = free_pages s" "phys s1 = phys s" "tlb s1 = tlb s"
    "pages s1 = (pages s)[p := \<lparr>pp_link = None, pp_ref = pp_ref (pages s ! p) + 1\<rparr>]"
    using page_incref_used[OF inv(1) p(1,2)] by metis
  have same: "table_at s1 e j = table_at s e j" "pte_at s1 e m = pte_at s e m" "mapped s1 e m = mapped s e m" for e j m
    using s1(5) by (simp_all add: table_at_def pte_at_def mapped_def split: option.split)
  have mp: "mappings s1 D R x = mappings s D R x" for x
    by (simp add: mappings_def same)
  have "unat (pp_ref (pages s ! p) + 1) = Suc (unat (pp_ref (pages s ! p)))"
    using unat_ref_plus_1[OF p(5)] .
  then have ref: "unat (pp_ref (pages s1 ! x)) = (if x = p then Suc (unat (pp_ref (pages s ! p))) else unat (pp_ref (pages s ! x)))" for x
    using s1(7) p(1) alloc_invD(1)[OF inv(1)] by (auto simp: nth_list_update)
  have it: "is_table s1 D u \<longleftrightarrow> is_table s D u" for u
    by (rule is_table_cong) (simp add: same)
  have "card (mappings s D R x) \<le> unat (pp_ref (pages s1 ! x))" for x
    using refs_wfD(5)[OF inv(3), of x] by (auto simp: ref)
  moreover have tw1: "tables_wf s1 D"
  proof (rule tables_wf_mono[OF inv(2)])
    show "pp_ref (pages s1 ! x) = pp_ref (pages s ! x)" if "is_table s D x" for x
      using that p(4) s1(7) by (cases "x = p") auto
  qed (use same s1(4) mem_frameD(1)[OF s1(2)] in auto)
  ultimately have vm1: "vm_inv s1 D R"
    using inv s1(3,4) mem_frameD(1)[OF s1(2)] tw1
    by (auto simp: vm_inv_def same refs_wf_def it mp)
  have room: "card (mappings s1 D R p) < unat (pp_ref (pages s1 ! p))"
    using refs_wfD(5)[OF inv(3), of p] by (simp add: mp ref)
  have rd: "read_pte (t, unat (PTX va)) s1 = pte_at s d ?n"
    using assms(5) by (simp add: read_pte_def s1(5) pte_at_va)
  show thesis
  proof (cases "mapped s d ?n")
    case None
    then have "read_pte (t, unat (PTX va)) s1 AND PTE_P = 0"
      using rd by (simp add: mapped_def present_def split: if_splits)
    then show thesis
      using s1 vm1 room same None p(2) alloc_invD(1)[OF inv(1)] p(1) by (intro that[of s1 s1]) (auto simp: insert_prepared_def)
  next
    case (Some q)
    then have pr: "read_pte (t, unat (PTX va)) s1 AND PTE_P \<noteq> 0"
      using rd by (simp add: mapped_def present_def split: if_splits)
    have "mapped s1 d ?n = Some q"
      using Some same by simp
    from page_remove_some[OF vm1 assms(2,3) this] obtain s2 where
      s2: "page_remove d va s1 = Inr s2" "remove_post D R d ?n q s1 s2" .
    note post = s2(2)[unfolded remove_post_def]
    let ?s = "tlb_invalidate va s2"
    have two: "pp_ref (pages s1 ! p) \<noteq> 1" if "q = p"
      using mapping_counted(2)[OF vm1 assms(2,3)] that Some same room by auto
    have nz: "pp_ref (pages s1 ! p) \<noteq> 0"
      using room by auto
    have "mappings s2 D R p = (if q = p then mappings s1 D R p - {(d, ?n)} else mappings s1 D R p)"
      using remove_post_mapped[OF s2(2)] inv(4) Some same
      by (auto simp: mappings_def region_def split: if_splits)
    moreover have "unat (pp_ref (pages s2 ! p)) = (if q = p then unat (pp_ref (pages s1 ! p)) - 1 else unat (pp_ref (pages s1 ! p)))"
      using post unat_ref_minus_1[OF nz] by auto
    ultimately have room2: "card (mappings s2 D R p) < unat (pp_ref (pages s2 ! p))"
      using room mapping_counted(2)[OF vm1 assms(2,3)] Some same by auto
    have fr: "mem_frame s ?s"
      using mem_frame_trans[OF s1(2) mem_frame_trans[OF _ mem_frame_tlb_invalidate]] post by blast
    have pr2: "pp_ref (pages s1 ! p) = pp_ref (pages s ! p) + 1"
      using s1(7) p(1) alloc_invD(1)[OF inv(1)] by simp
    show thesis
      using s1 s2(1) post room2 fr pr same Some p(2) two pr2
      by (intro that[of s1 ?s]) (auto simp: insert_prepared_def vm_inv_def mappings_def split: if_splits)
  qed
qed

lemma walk_post_vm_inv:
  assumes "walk_post D d i t s s'" "vm_inv s D R" "d \<in> D" "slot i"
  shows "vm_inv s' D R"
  using assms walk_post_refs(1)[OF assms(1), of R] by (auto simp: vm_inv_def walk_post_def)

lemma walk_post_mappable:
  assumes "walk_post D d i t s s'" "mappable s D p" "alloc_inv s" "d \<in> D" "slot i"
  shows "mappable s' D p" "pp_ref (pages s' ! p) = pp_ref (pages s ! p)"
proof (atomize (full), cases "s' = s")
  case False
  then have n: "table_at s d i = None" "free_pages s = t # free_pages s'"
    "pages s' = (pages s)[t := \<lparr>pp_link = None, pp_ref = 1\<rparr>]" "npages s' = npages s"
    using assms(1) mem_frameD(1) unfolding walk_post_def by blast+
  have "is_table s' D u \<longleftrightarrow> u = t \<or> is_table s D u" for u
    using assms(1,4,5) n(1) unfolding walk_post_def is_table_def
    by (metis option.distinct(1) option.inject)
  moreover have "p \<noteq> t"
    using assms(2) n(2) by (auto simp: mappable_def)
  ultimately show "mappable s' D p \<and> pp_ref (pages s' ! p) = pp_ref (pages s ! p)"
    using assms(2) n by (auto simp: mappable_def)
qed (use assms(2) in simp)

lemma page_insert_ok:
  assumes "vm_inv s D R" "d \<in> D" "unat (PGNUM va) \<in> R" "mappable s D p" "unat perm < 4096"
    and "table_at s d (unat (PDX va)) \<noteq> None \<or> free_pages s \<noteq> []"
  obtains s' where "page_insert d p va perm s = Inr (0, s')" "mem_frame s s'" "vm_inv s' D R"
    "\<forall>e\<in>D. \<forall>m. slot (m div 1024) \<longrightarrow>
       pte_at s' e m = (if e = d \<and> m = unat (PGNUM va) then page2pa p OR PTE_P OR perm else pte_at s e m)"
    "mapped s d (unat (PGNUM va)) \<noteq> None \<longrightarrow> tlb s' (PGNUM va) = None"
    "pp_ref (pages s' ! p) =
       (if mapped s d (unat (PGNUM va)) = Some p then pp_ref (pages s ! p) else pp_ref (pages s ! p) + 1)"
proof -
  let ?n = "unat (PGNUM va)" and ?v = "page2pa p OR PTE_P OR perm"
  have inv: "alloc_inv s" "tables_wf s D" "region R" using assms(1) by (auto simp: vm_inv_def)
  have sl: "slot (unat (PDX va))" "slot (?n div 1024)"
    using inv(3) assms(3) by (auto simp: region_def simp flip: vpn_parts)
  obtain t s0 where s0: "pgdir_walk d va True s = Inr (Some (t, unat (PTX va)), s0)"
    "walk_post D d (unat (PDX va)) t s s0"
    using pgdir_walk_create[OF inv(1,2) assms(2) sl(1) assms(6)] .
  note vm0 = walk_post_vm_inv[OF s0(2) assms(1,2) sl(1)]
  note mp0 = walk_post_mappable[OF s0(2) assms(4) inv(1) assms(2) sl(1)]
  note w = s0(2)[unfolded walk_post_def]
  have m0: "mapped s0 d ?n = mapped s d ?n"
    using w assms(2) sl(2) by (auto simp: mapped_def)
  have t0: "table_at s0 d (unat (PDX va)) = Some t"
    using w by blast
  obtain s1 s2 where s12: "page_incref p s0 = Inr s1"
    "(if read_pte (t, unat (PTX va)) s1 AND PTE_P \<noteq> 0
      then rbind (page_remove d va s1) (\<lambda>s. Inr (tlb_invalidate va s)) else Inr s1) = Inr s2"
    and prep: "insert_prepared D R d ?n p s0 s2"
    using insert_prepare[OF vm0 assms(2,3) mp0(1) t0] .
  have s2: "mem_frame s0 s2" "vm_inv s2 D R" "\<And>e j. e \<in> D \<Longrightarrow> table_at s2 e j = table_at s0 e j"
    "p \<notin> set (free_pages s2)" "card (mappings s2 D R p) < unat (pp_ref (pages s2 ! p))"
    and pte2: "\<And>e m. e \<in> D \<Longrightarrow> slot (m div 1024) \<Longrightarrow>
       pte_at s2 e m = (if e = d \<and> m = ?n \<and> mapped s0 d m \<noteq> None then 0 else pte_at s0 e m)"
    using prep unfolding insert_prepared_def by blast+
  have wf2: "tables_wf s2 D" "table_at s2 d (unat (PDX va)) = Some t"
    using s2(2,3) t0 assms(2) by (auto simp: vm_inv_def)
  have n: "unat (PDX va) * 1024 + unat (PTX va) = ?n" and j: "unat (PTX va) < 1024"
    using PTX_less[of va] by (simp_all add: PGNUM_eq_PDX_PTX layout_defs)
  let ?s = "write_pte (t, unat (PTX va)) ?v s2"
  have pte: "pte_at ?s e m = (if e = d \<and> m = ?n then ?v else pte_at s e m)" if "e \<in> D" "slot (m div 1024)" for e m
    using write_pte_pte_at[OF wf2(1) assms(2) sl(1) wf2(2) j that, of ?v] pte2[OF that] w that n by auto
  have tab: "table_at ?s e i = table_at s2 e i" if "e \<in> D" for e i
    using write_pte_table[OF wf2(1) assms(2) sl(1) wf2(2) that] .
  have none: "mapped s2 d ?n = None"
    using pte2[OF assms(2) sl(2)] by (auto simp: mapped_def split: if_splits)
  have p: "p < unat (npages s2)" "p < 65536" "p \<notin> D" "\<not> is_table s2 D p"
  proof -
    have al: "unat (npages s2) \<le> 65536"
      using s2(2) alloc_invD(2) by (auto simp: vm_inv_def)
    show "p < unat (npages s2)" "p \<notin> D"
      using mp0(1) mem_frameD(1)[OF s2(1)] by (simp_all add: mappable_def)
    then show "p < 65536" using al by linarith
    show "\<not> is_table s2 D p"
      using mp0(1) is_table_cong[of D s2 s0 p] s2(3) by (simp add: mappable_def)
  qed
  have fv: "frame_of ?v = p"
    using frame_of_page[OF p(2), of "PTE_P OR perm"] or_less_4096[of PTE_P perm] assms(5)
    by (simp add: PTE_P_def)
  have "refs_wf ?s D R"
  proof (rule refs_wf_insert[OF s2(2) assms(2,3) none p(1) s2(4) p(3,4) s2(5)])
    show "mapped ?s e m = (if e = d \<and> m = ?n then Some p else mapped s2 e m)" if "e \<in> D" "m \<in> R" for e m
      using write_pte_mapped[OF wf2(1) assms(2) sl(1) wf2(2) j that(1), of m ?v] inv(3) that n fv
      by (auto simp: region_def)
    show "is_table ?s D u \<longleftrightarrow> is_table s2 D u" for u
      by (rule is_table_cong) (simp add: tab)
  qed simp_all
  moreover have "tables_wf ?s D"
    by (rule tables_wf_mono[OF wf2(1)]) (use tab in auto)
  ultimately have "vm_inv ?s D R"
    using s2(2) by (simp add: vm_inv_def)
  moreover have "mem_frame s ?s"
    using w mem_frame_trans[OF _ mem_frame_trans[OF s2(1) mem_frame_write_pte]] by blast
  moreover have "page_insert d p va perm s = Inr (0, ?s)"
    using s0(1) s12 by (simp add: page_insert_def)
  moreover have "mapped s d ?n \<noteq> None \<longrightarrow> tlb ?s (PGNUM va) = None"
    "pp_ref (pages ?s ! p) = (if mapped s d ?n = Some p then pp_ref (pages s ! p) else pp_ref (pages s ! p) + 1)"
    using prep m0 mp0(2) by (simp_all add: insert_prepared_def)
  ultimately show thesis
    using pte that by blast
qed

text \<open>Where nothing was mapped, \<open>page_insert\<close> only allocates a table if one is missing.\<close>

lemma page_insert_fresh:
  assumes "vm_inv s D R" "d \<in> D" "unat (PGNUM va) \<in> R" "mappable s D p" "unat perm < 4096"
    and "table_at s d (unat (PDX va)) \<noteq> None \<or> free_pages s \<noteq> []" "mapped s d (unat (PGNUM va)) = None"
  obtains t s' where "page_insert d p va perm s = Inr (0, s')" "mem_frame s s'" "vm_inv s' D R"
    "\<forall>e\<in>D. \<forall>m. slot (m div 1024) \<longrightarrow>
       pte_at s' e m = (if e = d \<and> m = unat (PGNUM va) then page2pa p OR PTE_P OR perm else pte_at s e m)"
    "\<forall>e\<in>D. \<forall>j. table_at s' e j = (if e = d \<and> j = unat (PDX va) then Some t else table_at s e j)"
    "table_at s d (unat (PDX va)) = Some t \<and> free_pages s' = free_pages s \<or>
     table_at s d (unat (PDX va)) = None \<and> free_pages s = t # free_pages s'"
    "\<forall>x. x \<notin> set (free_pages s) \<longrightarrow> pp_ref (pages s' ! x) = (if x = p then pp_ref (pages s ! p) + 1 else pp_ref (pages s ! x))"
    "frames_kept D s s'"
proof -
  let ?n = "unat (PGNUM va)" and ?i = "unat (PDX va)" and ?v = "page2pa p OR PTE_P OR perm"
  have inv: "alloc_inv s" "tables_wf s D" "region R" using assms(1) by (auto simp: vm_inv_def)
  have sl: "slot ?i" "slot (?n div 1024)"
    using inv(3) assms(3) by (auto simp: region_def simp flip: vpn_parts)
  obtain t s0 where s0: "pgdir_walk d va True s = Inr (Some (t, unat (PTX va)), s0)" "walk_post D d ?i t s s0"
    using pgdir_walk_create[OF inv(1,2) assms(2) sl(1) assms(6)] .
  have w: "mem_frame s s0" "alloc_inv s0" "tables_wf s0 D" "table_at s0 d ?i = Some t" "frames_kept D s s0"
    "\<And>e j. e \<in> D \<Longrightarrow> table_at s0 e j = (if e = d \<and> j = ?i then Some t else table_at s e j)"
    "pte_at s0 d ?n = pte_at s d ?n"
    and fp: "table_at s d ?i = Some t \<and> s0 = s \<or> table_at s d ?i = None \<and> free_pages s = t # free_pages s0 \<and>
      pages s0 = (pages s)[t := \<lparr>pp_link = None, pp_ref = 1\<rparr>]"
    using s0(2) assms(2) sl(2) unfolding walk_post_def by simp_all
  note mp = walk_post_mappable[OF s0(2) assms(4) inv(1) assms(2) sl(1)]
  have p: "p < unat (npages s0)" "p \<notin> set (free_pages s0)" "p < length (pages s0)"
    using mp(1) alloc_invD(1)[OF w(2)] by (auto simp: mappable_def)
  obtain s1 where s1: "page_incref p s0 = Inr s1" "mem_frame s0 s1" "alloc_inv s1"
    "free_pages s1 = free_pages s0" "phys s1 = phys s0" "tlb s1 = tlb s0"
    "pages s1 = (pages s0)[p := \<lparr>pp_link = None, pp_ref = pp_ref (pages s0 ! p) + 1\<rparr>]"
    using page_incref_used[OF w(2) p(1,2)] by metis
  have tab1: "table_at s1 e j = table_at s0 e j" for e j
    using s1(5) by (simp add: table_at_def)
  have "read_pte (t, unat (PTX va)) s1 AND PTE_P = 0"
    using assms(7) w(4,7) s1(5) by (simp add: read_pte_def pte_at_va mapped_def present_def split: if_splits)
  then have eq: "page_insert d p va perm s = Inr (0, write_pte (t, unat (PTX va)) ?v s1)"
    using s0(1) s1(1) by (simp add: page_insert_def)
  have wf1: "tables_wf s1 D"
  proof (rule tables_wf_mono[OF w(3)])
    show "pp_ref (pages s1 ! x) = pp_ref (pages s0 ! x)" if "is_table s0 D x" for x
      using that mp(1) s1(7) by (cases "x = p") (auto simp: mappable_def)
  qed (use tab1 s1(4) mem_frameD(1)[OF s1(2)] in auto)
  have tab: "table_at (write_pte (t, unat (PTX va)) ?v s1) e j = table_at s0 e j" if "e \<in> D" for e j
    using write_pte_table[OF wf1 assms(2) sl(1) _ that] w(4) tab1 by simp
  have "frames_kept D s0 s1"
    using s1(4,5) is_table_cong[of D s1 s0] by (simp add: frames_kept_def tab1)
  then have fk: "frames_kept D s (write_pte (t, unat (PTX va)) ?v s1)"
    using frames_kept_trans[OF w(5)] frames_kept_trans[OF _ frames_kept_write_pte[OF wf1 assms(2) sl(1), of t]] w(4) tab1
    by auto
  have ref: "pp_ref (pages s1 ! x) = (if x = p then pp_ref (pages s ! p) + 1 else pp_ref (pages s ! x))"
    if "x \<notin> set (free_pages s)" for x
    using that fp mp(2) p(3) s1(7) by (auto simp: nth_list_update)
  obtain s' where s': "page_insert d p va perm s = Inr (0, s')" "mem_frame s s'" "vm_inv s' D R"
    "\<forall>e\<in>D. \<forall>m. slot (m div 1024) \<longrightarrow> pte_at s' e m = (if e = d \<and> m = ?n then ?v else pte_at s e m)"
    using page_insert_ok[OF assms(1-6)] by metis
  have "s' = write_pte (t, unat (PTX va)) ?v s1" using s'(1) eq by simp
  then show thesis
    using that[OF s'] tab w(6) fp s1(4) ref fk by auto
qed

lemma page_insert_no_memory:
  assumes "vm_inv s D R" "d \<in> D" "unat (PGNUM va) \<in> R"
    and "table_at s d (unat (PDX va)) = None" "free_pages s = []"
  obtains s' where "page_insert d p va perm s = Inr (- E_NO_MEM, s')" "mem_frame s s'"
    "pages s' = pages s" "phys s' = phys s" "tlb s' = tlb s" "free_pages s' = free_pages s" "alloc_inv s'"
proof -
  have "alloc_inv s" using assms(1) by (simp add: vm_inv_def)
  from pgdir_walk_full[OF this assms(4,5)] obtain s' where
    "pgdir_walk d va True s = Inr (None, s')" "mem_frame s s'" "alloc_inv s'"
    "free_pages s' = []" "pages s' = pages s" "phys s' = phys s" "tlb s' = tlb s" .
  then show thesis
    using assms(5) by (intro that[of s']) (simp_all add: page_insert_def)
qed

section \<open>Static regions\<close>

definition dirs :: "nat \<Rightarrow> nat \<Rightarrow> nat set" where
  "dirs n0 N = (\<lambda>m. m div 1024) ` {n0..<n0 + N}"

text \<open>The page tables a region of \<open>N\<close> pages from virtual page \<open>n0\<close> on still needs.\<close>

definition missing :: "'a mem_state_scheme \<Rightarrow> nat \<Rightarrow> nat \<Rightarrow> nat \<Rightarrow> nat set" where
  "missing s d n0 N = {j \<in> dirs n0 N. table_at s d j = None}"

definition region_post ::
    "nat set \<Rightarrow> nat \<Rightarrow> nat \<Rightarrow> nat \<Rightarrow> (nat \<Rightarrow> u32) \<Rightarrow> 'a mem_state_scheme \<Rightarrow> 'a mem_state_scheme \<Rightarrow> bool" where
  "region_post D d n0 N f s s' \<longleftrightarrow>
     mem_frame s s' \<and> alloc_inv s' \<and> tables_wf s' D \<and> tlb s' = tlb s \<and>
     (\<forall>e\<in>D. \<forall>m. slot (m div 1024) \<longrightarrow>
        pte_at s' e m = (if e = d \<and> n0 \<le> m \<and> m < n0 + N then f (m - n0) else pte_at s e m)) \<and>
     (\<forall>e\<in>D. \<forall>j. table_at s' e j = None \<longleftrightarrow> table_at s e j = None \<and> \<not> (e = d \<and> j \<in> dirs n0 N)) \<and>
     free_pages s' = drop (card (missing s d n0 N)) (free_pages s) \<and>
     (\<forall>p. p \<notin> set (free_pages s) \<longrightarrow> pages s' ! p = pages s ! p) \<and>
     (\<forall>R. refs_wf s D R \<longrightarrow> region R \<longrightarrow> R \<inter> {n0..<n0 + N} = {} \<longrightarrow> refs_wf s' D R) \<and> frames_kept D s s'"

lemma dirs_Suc: "dirs n0 (Suc N) = insert (n0 div 1024) (dirs (Suc n0) N)"
proof -
  have "{n0..<n0 + Suc N} = insert n0 {Suc n0..<Suc n0 + N}" by auto
  then show ?thesis by (simp add: dirs_def)
qed

lemma dirs_1: "dirs n0 (Suc 0) = {n0 div 1024}"
  by (simp add: dirs_def)

lemma finite_missing [simp]: "finite (missing s d n0 N)"
  by (simp add: missing_def dirs_def)

lemma region_post_0:
  assumes "alloc_inv s" "tables_wf s D"
  shows "region_post D d n0 0 f s s"
  using assms by (auto simp: region_post_def dirs_def missing_def)

lemma write_pte_refs:
  assumes "tables_wf s D" "d \<in> D" "slot (n div 1024)" "table_at s d (n div 1024) = Some t"
    and "refs_wf s D R" "region R" "n \<notin> R"
  shows "refs_wf (write_pte (t, n mod 1024) v s) D R"
proof -
  let ?s = "write_pte (t, n mod 1024) v s"
  have m: "mapped ?s e m = mapped s e m" if "e \<in> D" "m \<in> R" for e m
    using write_pte_mapped[OF assms(1-4) _ that(1), of "n mod 1024" m v] that assms(6,7)
    by (auto simp: region_def)
  have "is_table ?s D u \<longleftrightarrow> is_table s D u" for u
    using write_pte_table[OF assms(1-4)] by (intro is_table_cong) auto
  moreover have "mappings ?s D R q = mappings s D R q" for q
    using m by (auto simp: mappings_def)
  ultimately show ?thesis
    using assms(5) m by (auto simp: refs_wf_def)
qed

text \<open>One iteration of \<open>boot_map_region\<close>.\<close>

lemma map_one_page:
  assumes "alloc_inv s" "tables_wf s D" "d \<in> D" "slot (unat (PDX va))"
    and "table_at s d (unat (PDX va)) \<noteq> None \<or> free_pages s \<noteq> []"
  obtains pte s1 where "pgdir_walk d va True s = Inr (Some pte, s1)"
    "region_post D d (unat (PGNUM va)) (Suc 0) (\<lambda>_. v) s (write_pte pte v s1)"
proof -
  let ?n = "unat (PGNUM va)" and ?i = "unat (PDX va)" and ?j = "unat (PTX va)"
  obtain t s1 where s1: "pgdir_walk d va True s = Inr (Some (t, ?j), s1)" "walk_post D d ?i t s s1"
    using pgdir_walk_create[OF assms] .
  note w = s1(2)[unfolded walk_post_def]
  have wf1: "tables_wf s1 D" "table_at s1 d ?i = Some t" "alloc_inv s1" using w by auto
  let ?s = "write_pte (t, ?j) v s1"
  have n: "?n div 1024 = ?i" "?n mod 1024 = ?j" "?i * 1024 + ?j = ?n" "?j < 1024"
    using PTX_less[of va] by (simp_all add: vpn_parts PGNUM_eq_PDX_PTX layout_defs)
  have tab: "table_at ?s e j = table_at s1 e j" if "e \<in> D" for e j
    using write_pte_table[OF wf1(1) assms(3,4) wf1(2) that] .
  have pte: "pte_at ?s e m = (if e = d \<and> m = ?n then v else pte_at s e m)" if "e \<in> D" "slot (m div 1024)" for e m
    using write_pte_pte_at[OF wf1(1) assms(3,4) wf1(2) n(4) that, of v] w that n(3) by auto
  have d1: "dirs ?n (Suc 0) = {?i}"
    using n(1) by (simp add: dirs_def)
  have "missing s d ?n (Suc 0) = (if table_at s d ?i = None then {?i} else {})"
    by (auto simp: missing_def d1)
  then have fp: "free_pages ?s = drop (card (missing s d ?n (Suc 0))) (free_pages s)"
    using w by auto
  have pg: "pages ?s ! p = pages s ! p" if "p \<notin> set (free_pages s)" for p
    using w that by (auto simp: nth_list_update_neq)
  have tn: "table_at ?s e j = None \<longleftrightarrow> table_at s e j = None \<and> \<not> (e = d \<and> j \<in> dirs ?n (Suc 0))" if "e \<in> D" for e j
    using w that tab[OF that, of j] by (auto simp: d1)
  have rf: "refs_wf ?s D R" if "refs_wf s D R" "region R" "R \<inter> {?n..<?n + Suc 0} = {}" for R
    using write_pte_refs[OF wf1(1) assms(3), of ?n t R v] wf1(2) assms(4) n(1,2)
      walk_post_refs(1)[OF s1(2) that(1,2) assms(1,3,4)] that by auto
  have "tables_wf ?s D"
    by (rule tables_wf_mono[OF wf1(1)]) (use tab in auto)
  moreover have "mem_frame s ?s"
    using w mem_frame_trans[OF _ mem_frame_write_pte] by blast
  moreover have "frames_kept D s ?s"
    by (rule frames_kept_trans[OF _ frames_kept_write_pte[OF wf1(1) assms(3,4) wf1(2)]]) (use w in simp)
  ultimately have "region_post D d ?n (Suc 0) (\<lambda>_. v) s ?s"
    unfolding region_post_def using wf1(3) w fp pg tn rf pte by auto
  with s1(1) show thesis using that by blast
qed

lemma missing_Suc:
  assumes "region_post D d n0 (Suc 0) f s s1" "d \<in> D"
  shows "card (missing s d n0 (Suc N)) =
    card (missing s d n0 (Suc 0)) + card (missing s1 d (Suc n0) N)"
proof -
  have t: "table_at s1 d j = None \<longleftrightarrow> table_at s d j = None \<and> j \<noteq> n0 div 1024" for j
    using assms unfolding region_post_def dirs_1 by simp
  have "missing s d n0 (Suc N) = missing s d n0 (Suc 0) \<union> missing s1 d (Suc n0) N"
    by (auto simp: missing_def dirs_Suc[of n0 N] dirs_1 t)
  moreover have "missing s d n0 (Suc 0) \<inter> missing s1 d (Suc n0) N = {}"
    by (auto simp: missing_def dirs_1 t)
  ultimately show ?thesis
    by (simp add: card_Un_disjoint)
qed

lemma region_post_trans:
  assumes a: "region_post D d n0 (Suc 0) (\<lambda>_. f 0) s s1"
    and b: "region_post D d (Suc n0) N (\<lambda>k. f (Suc k)) s1 s2" and d: "d \<in> D"
  shows "region_post D d n0 (Suc N) f s s2"
proof -
  note A = a[unfolded region_post_def] and B = b[unfolded region_post_def]
  have fp: "free_pages s2 = drop (card (missing s d n0 (Suc N))) (free_pages s)"
  proof -
    have "free_pages s1 = drop (card (missing s d n0 (Suc 0))) (free_pages s)"
      "free_pages s2 = drop (card (missing s1 d (Suc n0) N)) (free_pages s1)"
      using A B by blast+
    then show ?thesis by (simp add: missing_Suc[OF a d, of N] add.commute)
  qed
  have fr: "mem_frame s s2"
    using mem_frame_trans[OF A[THEN conjunct1] B[THEN conjunct1]] .
  have pte: "pte_at s2 e m = (if e = d \<and> n0 \<le> m \<and> m < n0 + Suc N then f (m - n0) else pte_at s e m)"
    if "e \<in> D" "slot (m div 1024)" for e m
  proof -
    have "pte_at s1 e m = (if e = d \<and> m = n0 then f 0 else pte_at s e m)"
      using A that by auto
    moreover have "pte_at s2 e m = (if e = d \<and> Suc n0 \<le> m \<and> m < Suc n0 + N then f (Suc (m - Suc n0)) else pte_at s1 e m)"
      using B that by blast
    ultimately show ?thesis
      by (auto simp: Suc_diff_Suc less_eq_Suc_le)
  qed
  have tab: "table_at s2 e j = None \<longleftrightarrow> table_at s e j = None \<and> \<not> (e = d \<and> j \<in> dirs n0 (Suc N))"
    if "e \<in> D" for e j
  proof -
    have "table_at s1 e j = None \<longleftrightarrow> table_at s e j = None \<and> \<not> (e = d \<and> j \<in> dirs n0 (Suc 0))"
      using A that by blast
    moreover have "table_at s2 e j = None \<longleftrightarrow> table_at s1 e j = None \<and> \<not> (e = d \<and> j \<in> dirs (Suc n0) N)"
      using B that by blast
    ultimately show ?thesis
      by (auto simp: dirs_Suc[of n0 N] dirs_1)
  qed
  have pg: "pages s2 ! p = pages s ! p" if "p \<notin> set (free_pages s)" for p
    using A B that by (metis in_set_dropD)
  have rf: "refs_wf s2 D R" if "refs_wf s D R" "region R" "R \<inter> {n0..<n0 + Suc N} = {}" for R
  proof -
    have "R \<inter> {n0..<n0 + Suc 0} = {}" "R \<inter> {Suc n0..<Suc n0 + N} = {}"
      using that(3) by auto
    then show ?thesis using A B that(1,2) by blast
  qed
  have k: "frames_kept D s s1" "frames_kept D s1 s2" using A B by simp_all
  have "frames_kept D s s2" by (rule frames_kept_trans[OF k])
  then show ?thesis
    unfolding region_post_def using A B fp fr pte tab pg rf by auto
qed

lemma PGNUM_next:
  assumes "unat va + 4096 < 4294967296"
  shows "unat (PGNUM (va + PGSIZE)) = Suc (unat (PGNUM va))"
proof -
  have "unat (va + PGSIZE) = unat va + 4096"
    using assms by (simp add: PGSIZE_def unat_word_ariths)
  then show ?thesis by (simp add: unat_PGNUM)
qed

lemma boot_map_region_post:
  assumes "alloc_inv s" "tables_wf s D" "d \<in> D"
    and "unat va + unat sz div 4096 * 4096 \<le> 4294967296"
    and "\<And>j. j \<in> dirs (unat (PGNUM va)) (unat sz div 4096) \<Longrightarrow> slot j"
    and "card (missing s d (unat (PGNUM va)) (unat sz div 4096)) \<le> length (free_pages s)"
  shows "\<exists>s'. boot_map_region d va sz pa perm s = Inr s' \<and>
    region_post D d (unat (PGNUM va)) (unat sz div 4096) (\<lambda>k. (pa + of_nat k * PGSIZE) OR perm OR PTE_P) s s'"
  using assms
proof (induction N \<equiv> "unat sz div 4096" arbitrary: va sz pa s)
  case 0
  then have "\<not> PGSIZE \<le> sz"
    by (simp add: PGSIZE_def word_le_nat_alt)
  with 0 show ?case
    by (simp add: boot_map_region.simps region_post_0)
next
  case (Suc N)
  let ?n = "unat (PGNUM va)" and ?i = "unat (PDX va)"
  let ?f = "\<lambda>k. (pa + of_nat k * PGSIZE) OR perm OR PTE_P"
  have N: "unat sz div 4096 = Suc N" using Suc.hyps(2) by simp
  have ge: "PGSIZE \<le> sz"
    using N by (simp add: PGSIZE_def word_le_nat_alt div_eq_0_iff) 
  have sz': "unat (sz - PGSIZE) = unat sz - 4096"
    using ge by (simp add: PGSIZE_def unat_sub)
  have N': "N = unat (sz - PGSIZE) div 4096"
    using N unfolding sz' by linarith
  have ni: "?n div 1024 = ?i" by (rule vpn_parts)
  have sl: "slot ?i"
    using Suc.prems(5)[of ?i] by (simp add: N dirs_Suc ni)
  have room: "table_at s d ?i \<noteq> None \<or> free_pages s \<noteq> []"
  proof (rule ccontr)
    assume "\<not> ?thesis"
    then have "?i \<in> missing s d ?n (Suc N)" "free_pages s = []"
      by (auto simp: missing_def dirs_Suc ni)
    then show False
      using Suc.prems(6) finite_missing[of s d ?n "Suc N"] by (auto simp: N card_gt_0_iff)
  qed
  obtain pte s1 where s1: "pgdir_walk d va True s = Inr (Some pte, s1)"
    "region_post D d ?n (Suc 0) (\<lambda>_. ?f 0) s (write_pte pte (?f 0) s1)"
    using map_one_page[OF Suc.prems(1-3) sl room] .
  let ?s1 = "write_pte pte (?f 0) s1"
  have step: "boot_map_region d va sz pa perm s =
      boot_map_region d (va + PGSIZE) (sz - PGSIZE) (pa + PGSIZE) perm ?s1"
    using s1(1) ge by (subst boot_map_region.simps) simp
  have lt: "unat va + unat (sz - PGSIZE) div 4096 * 4096 + 4096 \<le> 4294967296"
    using Suc.prems(4) N N' by simp
  show ?case
  proof (cases N)
    case 0
    then have "\<not> PGSIZE \<le> sz - PGSIZE"
      using N' by (simp add: PGSIZE_def word_le_nat_alt)
    then have "boot_map_region d (va + PGSIZE) (sz - PGSIZE) (pa + PGSIZE) perm ?s1 = Inr ?s1"
      by (simp add: boot_map_region.simps)
    then show ?thesis
      using step s1(2) N 0 by (auto simp: region_post_def)
  next
    case (Suc M)
    then have n1: "unat (PGNUM (va + PGSIZE)) = Suc ?n"
      using lt N' by (intro PGNUM_next) simp
    have va1: "unat (va + PGSIZE) = unat va + 4096"
      using lt N' Suc by (simp add: PGSIZE_def unat_word_ariths)
    note A = s1(2)[unfolded region_post_def]
    have fe: "(\<lambda>k. (pa + PGSIZE + of_nat k * PGSIZE) OR perm OR PTE_P) = (\<lambda>k. ?f (Suc k))"
      by (simp add: algebra_simps)
    have "\<exists>s'. boot_map_region d (va + PGSIZE) (sz - PGSIZE) (pa + PGSIZE) perm ?s1 = Inr s' \<and>
        region_post D d (unat (PGNUM (va + PGSIZE))) (unat (sz - PGSIZE) div 4096)
          (\<lambda>k. (pa + PGSIZE + of_nat k * PGSIZE) OR perm OR PTE_P) ?s1 s'"
    proof (rule Suc.hyps(1)[OF N'])
      show "alloc_inv ?s1" "tables_wf ?s1 D" using A by auto
      show "unat (va + PGSIZE) + unat (sz - PGSIZE) div 4096 * 4096 \<le> 4294967296"
        using lt va1 by simp
      show "slot j" if "j \<in> dirs (unat (PGNUM (va + PGSIZE))) (unat (sz - PGSIZE) div 4096)" for j
        using that Suc.prems(5)[of j] by (simp add: n1 N flip: N') (simp add: dirs_Suc)
      show "card (missing ?s1 d (unat (PGNUM (va + PGSIZE))) (unat (sz - PGSIZE) div 4096)) \<le> length (free_pages ?s1)"
        using Suc.prems(6) missing_Suc[OF s1(2) Suc.prems(3), of N] A by (simp add: n1 N flip: N')
    qed (rule Suc.prems(3))
    then obtain s' where s': "boot_map_region d (va + PGSIZE) (sz - PGSIZE) (pa + PGSIZE) perm ?s1 = Inr s'"
      "region_post D d (Suc ?n) N (\<lambda>k. ?f (Suc k)) ?s1 s'"
      unfolding n1 fe N'[symmetric] by blast
    show ?thesis
      using step s'(1) region_post_trans[where f = ?f, OF s1(2) s'(2) Suc.prems(3)] N by auto
  qed
qed

section \<open>The interface of an address space\<close>

fun remove_seq :: "('k \<Rightarrow> 's \<Rightarrow> 's result) \<Rightarrow> 'k list \<Rightarrow> 's \<Rightarrow> 's result" where
  "remove_seq remove [] s = Inr s"
| "remove_seq remove (k # ks) s = rbind (remove k s) (remove_seq remove ks)"

text \<open>
  A translation map: inserting a value under a key makes the lookup of every key of the same
  page return it (or fails and changes no lookup), and removing a key unmaps its page only.
\<close>

locale translation_map =
  fixes lookup :: "'s \<Rightarrow> 'k \<Rightarrow> 'v option"
    and insert_map :: "'k \<Rightarrow> 'v \<Rightarrow> 's \<Rightarrow> (int \<times> 's) result"
    and remove :: "'k \<Rightarrow> 's \<Rightarrow> 's result"
    and inv :: "'s \<Rightarrow> bool"
    and key :: "'k \<Rightarrow> bool"
    and same :: "'k \<Rightarrow> 'k \<Rightarrow> bool"
    and usable :: "'s \<Rightarrow> 'v \<Rightarrow> bool"
  assumes insert_law: "inv s \<Longrightarrow> key k \<Longrightarrow> usable s v \<Longrightarrow>
      \<exists>r s'. insert_map k v s = Inr (r, s') \<and> inv s' \<and> r \<le> 0 \<and>
        (\<forall>k'. key k' \<longrightarrow> lookup s' k' = (if r = 0 \<and> same k k' then Some v else lookup s k'))"
    and remove_law: "inv s \<Longrightarrow> key k \<Longrightarrow>
      \<exists>s'. remove k s = Inr s' \<and> inv s' \<and>
        (\<forall>k'. key k' \<longrightarrow> lookup s' k' = (if same k k' then None else lookup s k'))"
    and same_refl: "same k k"
begin

lemma remove_seq_law:
  assumes "inv s" and "\<And>k. k \<in> set ks \<Longrightarrow> key k"
  shows "\<exists>s'. remove_seq remove ks s = Inr s' \<and> inv s' \<and>
    (\<forall>k'. key k' \<longrightarrow> lookup s' k' = (if \<exists>k\<in>set ks. same k k' then None else lookup s k'))"
  using assms
proof (induction ks arbitrary: s)
  case (Cons k ks)
  obtain s1 where s1: "remove k s = Inr s1" "inv s1"
    "\<forall>k'. key k' \<longrightarrow> lookup s1 k' = (if same k k' then None else lookup s k')"
    using remove_law[OF Cons.prems(1), of k] Cons.prems(2) by auto
  obtain s2 where "remove_seq remove ks s1 = Inr s2" "inv s2"
    "\<forall>k'. key k' \<longrightarrow> lookup s2 k' = (if \<exists>k\<in>set ks. same k k' then None else lookup s1 k')"
    using Cons.IH[OF s1(2)] Cons.prems(2) by auto
  with s1 show ?case by auto
qed simp

lemma insert_then_remove:
  assumes "inv s" "key k" "usable s v"
  shows "\<exists>r s1 s2. insert_map k v s = Inr (r, s1) \<and> remove k s1 = Inr s2 \<and> inv s2 \<and>
    (r = 0 \<longrightarrow> lookup s1 k = Some v) \<and>
    (\<forall>k'. key k' \<longrightarrow> lookup s2 k' = (if same k k' then None else lookup s k'))"
proof -
  obtain r s1 where s1: "insert_map k v s = Inr (r, s1)" "inv s1"
    "\<forall>k'. key k' \<longrightarrow> lookup s1 k' = (if r = 0 \<and> same k k' then Some v else lookup s k')"
    using insert_law[OF assms] by blast
  obtain s2 where s2: "remove k s1 = Inr s2" "inv s2"
    "\<forall>k'. key k' \<longrightarrow> lookup s2 k' = (if same k k' then None else lookup s1 k')"
    using remove_law[OF s1(2) assms(2)] by blast
  from s1 s2 same_refl[of k] assms(2) show ?thesis by auto
qed

end

abbreviation vpn :: "u32 \<Rightarrow> nat" where
  "vpn va \<equiv> unat (PGNUM va)"

lemma vm_inv_cong:
  assumes "vm_inv s D R" "phys s' = phys s" "pages s' = pages s" "npages s' = npages s"
    and "free_pages s' = free_pages s" "alloc_inv s'"
  shows "vm_inv s' D R" and "mapped s' e m = mapped s e m"
proof -
  have eq: "table_at s' e j = table_at s e j" "mapped s' e m = mapped s e m" for e j m
    using assms(2) by (simp_all add: table_at_def pte_at_def mapped_def split: option.split)
  then show "mapped s' e m = mapped s e m" by simp
  have "tables_wf s' D"
    by (rule tables_wf_mono[of s]) (use assms(1,3-5) in \<open>simp_all add: vm_inv_def eq\<close>)
  moreover have "refs_wf s' D R"
  proof -
    have "is_table s' D u \<longleftrightarrow> is_table s D u" "mappings s' D R q = mappings s D R q" for u q
      by (simp_all only: is_table_def mappings_def eq)
    moreover have "refs_wf s D R" using assms(1) by (simp add: vm_inv_def)
    ultimately show ?thesis
      by (simp add: refs_wf_def eq assms(3-5))
  qed
  ultimately show "vm_inv s' D R"
    using assms(1,6) by (simp add: vm_inv_def)
qed

lemma region_slot: "vm_inv s D R \<Longrightarrow> m \<in> R \<Longrightarrow> slot (m div 1024)"
  by (auto simp: vm_inv_def region_def)

lemma page_remove_map:
  assumes "vm_inv s D R" "d \<in> D" "vpn va \<in> R"
  shows "\<exists>s'. page_remove d va s = Inr s' \<and> vm_inv s' D R \<and>
    (\<forall>e\<in>D. \<forall>m\<in>R. mapped s' e m = (if e = d \<and> m = vpn va then None else mapped s e m))"
proof (cases "mapped s d (vpn va)")
  case None
  then show ?thesis
    using page_remove_none[OF assms None] assms(1) by auto
next
  case (Some q)
  from page_remove_some[OF assms Some] obtain s' where
    s': "page_remove d va s = Inr s'" "remove_post D R d (vpn va) q s s'" .
  then show ?thesis
    using remove_post_mapped[OF s'(2)] region_slot[OF assms(1)] by (auto simp: remove_post_def)
qed

lemma page_insert_map:
  assumes "vm_inv s D R" "d \<in> D" "vpn va \<in> R" "mappable s D p" "unat perm < 4096"
  shows "\<exists>r s'. page_insert d p va perm s = Inr (r, s') \<and> vm_inv s' D R \<and> (r = 0 \<or> r = - E_NO_MEM) \<and>
    (\<forall>e\<in>D. \<forall>m\<in>R. mapped s' e m = (if r = 0 \<and> e = d \<and> m = vpn va then Some p else mapped s e m))"
proof (cases "table_at s d (unat (PDX va)) \<noteq> None \<or> free_pages s \<noteq> []")
  case True
  obtain s' where s': "page_insert d p va perm s = Inr (0, s')" "vm_inv s' D R"
    "\<forall>e\<in>D. \<forall>m. slot (m div 1024) \<longrightarrow>
       pte_at s' e m = (if e = d \<and> m = vpn va then page2pa p OR PTE_P OR perm else pte_at s e m)"
    using page_insert_ok[OF assms True] by metis
  have "p < unat (npages s)" "unat (npages s) \<le> 65536"
    using assms(1,4) alloc_invD(2) by (auto simp: mappable_def vm_inv_def)
  then have "frame_of (page2pa p OR PTE_P OR perm) = p"
    using frame_of_page[of p "PTE_P OR perm"] or_less_4096[of PTE_P perm] assms(5)
    by (simp add: PTE_P_def)
  then show ?thesis
    using s' region_slot[OF assms(1)] by (auto simp: mapped_def)
next
  case False
  then obtain s' where s': "page_insert d p va perm s = Inr (- E_NO_MEM, s')" "mem_frame s s'"
    "pages s' = pages s" "phys s' = phys s" "free_pages s' = free_pages s" "alloc_inv s'"
    using page_insert_no_memory[OF assms(1-3), of p perm] by metis
  with vm_inv_cong[OF assms(1) s'(4,3) mem_frameD(1)[OF s'(2)] s'(5,6)] show ?thesis
    by (auto simp: E_NO_MEM_def)
qed

interpretation aspace: translation_map "\<lambda>s va. mapped s d (vpn va)" "\<lambda>va p. page_insert d p va perm"
    "page_remove d" "\<lambda>s. vm_inv s D R \<and> d \<in> D \<and> unat perm < 4096" "\<lambda>va. vpn va \<in> R"
    "\<lambda>va va'. vpn va = vpn va'" "\<lambda>s p. mappable s D p"
proof
  fix s :: "'a mem_state_scheme" and k v
  assume "vm_inv s D R \<and> d \<in> D \<and> unat perm < 4096" and "vpn k \<in> R" and "mappable s D v"
  then obtain r s' where "page_insert d v k perm s = Inr (r, s')" "vm_inv s' D R" "r = 0 \<or> r = - E_NO_MEM"
    "\<forall>e\<in>D. \<forall>m\<in>R. mapped s' e m = (if r = 0 \<and> e = d \<and> m = vpn k then Some v else mapped s e m)" and
    "d \<in> D" "unat perm < 4096"
    using page_insert_map[of s D R d k v perm] by blast
  then show "\<exists>r s'. page_insert d v k perm s = Inr (r, s') \<and> (vm_inv s' D R \<and> d \<in> D \<and> unat perm < 4096) \<and> r \<le> 0 \<and>
      (\<forall>k'. vpn k' \<in> R \<longrightarrow> mapped s' d (vpn k') = (if r = 0 \<and> vpn k = vpn k' then Some v else mapped s d (vpn k')))"
    by (auto simp: E_NO_MEM_def)
next
  fix s :: "'a mem_state_scheme" and k
  assume "vm_inv s D R \<and> d \<in> D \<and> unat perm < 4096" and "vpn k \<in> R"
  then show "\<exists>s'. page_remove d k s = Inr s' \<and> (vm_inv s' D R \<and> d \<in> D \<and> unat perm < 4096) \<and>
      (\<forall>k'. vpn k' \<in> R \<longrightarrow> mapped s' d (vpn k') = (if vpn k = vpn k' then None else mapped s d (vpn k')))"
    using page_remove_map[of s D R d k] by force
qed simp

lemma check_va2pa_mapped:
  assumes "tables_wf s D" "d \<in> D" "slot (unat (PDX va))"
  shows "check_va2pa d va s = Inr (if present (pte_at s d (vpn va)) then PTE_ADDR (pte_at s d (vpn va)) else NOT 0)"
proof (cases "table_at s d (unat (PDX va))")
  case None
  then show ?thesis
    by (simp add: check_va2pa_def table_at_def pte_at_va present_def split: if_splits)
next
  case (Some t)
  then have "present (phys s d (unat (PDX va)))" "frame_of (phys s d (unat (PDX va))) = t"
    by (auto simp: table_at_def split: if_splits)
  with tables_wfD(3)[OF assms Some] Some show ?thesis
    by (simp add: check_va2pa_def pte_at_va present_def KADDR_frame)
qed

end
