(* ===== verification/Address_Space.thy ===== *)
theory Address_Space
  imports Page_Table
begin

text \<open>
  Whole address spaces on top of the page-table operations: the mappings \<open>setupkvm\<close> builds for
  a new task, the tear-down with \<open>ptable_remove\<close> and \<open>pgdir_remove\<close>, the memory-mapped I/O
  window, and the properties of the virtual memory component.
\<close>

section \<open>Building a directory region by region\<close>

text \<open>
  The state while the directory \<open>d\<close> is being filled: \<open>g\<close> is its content so far, \<open>J\<close> the set of
  its page tables, and every page table came from the free list of the start state \<open>s0\<close>.
\<close>

definition filling :: "nat set \<Rightarrow> nat \<Rightarrow> 'a mem_state_scheme \<Rightarrow> (nat \<Rightarrow> u32) \<Rightarrow> nat set \<Rightarrow> 'a mem_state_scheme \<Rightarrow> bool" where
  "filling D d s0 g J s \<longleftrightarrow>
     d \<in> D \<and> alloc_inv s \<and> tables_wf s D \<and> mem_frame s0 s \<and> finite J \<and>
     (\<forall>m. slot (m div 1024) \<longrightarrow> pte_at s d m = g m) \<and>
     (\<forall>e\<in>D. e \<noteq> d \<longrightarrow> (\<forall>m. slot (m div 1024) \<longrightarrow> pte_at s e m = pte_at s0 e m)) \<and>
     (\<forall>j. table_at s d j \<noteq> None \<longleftrightarrow> j \<in> J) \<and>
     (\<exists>k. free_pages s = drop k (free_pages s0) \<and> k = card J) \<and>
     (\<forall>p. p \<notin> set (free_pages s0) \<longrightarrow> pages s ! p = pages s0 ! p) \<and>
     (\<forall>R. region R \<longrightarrow> (\<forall>m\<in>R. g m = 0) \<longrightarrow> refs_wf s0 D R \<longrightarrow> refs_wf s D R) \<and> frames_kept D s0 s"

definition overlay :: "nat \<Rightarrow> nat \<Rightarrow> (nat \<Rightarrow> u32) \<Rightarrow> (nat \<Rightarrow> u32) \<Rightarrow> nat \<Rightarrow> u32" where
  "overlay n0 N f g m = (if n0 \<le> m \<and> m < n0 + N then f (m - n0) else g m)"

lemma filling_region:
  assumes "filling D d s0 g J s"
    and "unat va + unat sz div 4096 * 4096 \<le> 4294967296"
    and "\<And>j. j \<in> dirs (vpn va) (unat sz div 4096) \<Longrightarrow> slot j"
    and "card (J \<union> dirs (vpn va) (unat sz div 4096)) \<le> length (free_pages s0)"
  shows "\<exists>s'. boot_map_region d va sz pa perm s = Inr s' \<and>
    filling D d s0 (overlay (vpn va) (unat sz div 4096) (\<lambda>k. (pa + of_nat k * PGSIZE) OR perm OR PTE_P) g)
      (J \<union> dirs (vpn va) (unat sz div 4096)) s'"
proof -
  let ?N = "unat sz div 4096"
  let ?f = "\<lambda>k. (pa + of_nat k * PGSIZE) OR perm OR PTE_P"
  have st: "d \<in> D" "alloc_inv s" "tables_wf s D" "mem_frame s0 s" "finite J"
    and g: "\<And>m. slot (m div 1024) \<Longrightarrow> pte_at s d m = g m"
    and oth: "\<And>e m. e \<in> D \<Longrightarrow> e \<noteq> d \<Longrightarrow> slot (m div 1024) \<Longrightarrow> pte_at s e m = pte_at s0 e m"
    and J: "\<And>j. table_at s d j \<noteq> None \<longleftrightarrow> j \<in> J"
    and fp: "free_pages s = drop (card J) (free_pages s0)"
    and pg: "\<And>p. p \<notin> set (free_pages s0) \<Longrightarrow> pages s ! p = pages s0 ! p"
    and rf: "\<And>R. region R \<Longrightarrow> \<forall>m\<in>R. g m = 0 \<Longrightarrow> refs_wf s0 D R \<Longrightarrow> refs_wf s D R"
    and fk: "frames_kept D s0 s"
    using assms(1) unfolding filling_def by blast+
  have ms: "missing s d (vpn va) ?N = dirs (vpn va) ?N - J"
    unfolding missing_def using J by blast
  have fin: "finite (dirs (vpn va) ?N)" by (simp add: dirs_def)
  have card_eq: "card (J \<union> dirs (vpn va) ?N) = card J + card (dirs (vpn va) ?N - J)"
    using st(5) fin by (metis Un_Diff_cancel card_Un_disjoint Diff_disjoint finite_Diff)
  have room: "card (missing s d (vpn va) ?N) \<le> length (free_pages s)"
    using assms(4) by (simp add: ms fp card_eq)
  obtain s' where s': "boot_map_region d va sz pa perm s = Inr s'" "region_post D d (vpn va) ?N ?f s s'"
    using boot_map_region_post[OF st(2,3,1) assms(2,3) room] by blast
  note P = s'(2)[unfolded region_post_def]
  have P1: "mem_frame s s'" "alloc_inv s'" "tables_wf s' D"
    and P2: "\<And>e m. e \<in> D \<Longrightarrow> slot (m div 1024) \<Longrightarrow>
        pte_at s' e m = (if e = d \<and> vpn va \<le> m \<and> m < vpn va + ?N then ?f (m - vpn va) else pte_at s e m)"
    and P3: "\<And>j. table_at s' d j = None \<longleftrightarrow> table_at s d j = None \<and> j \<notin> dirs (vpn va) ?N"
    and P4: "free_pages s' = drop (card (missing s d (vpn va) ?N)) (free_pages s)"
    and P5: "\<And>p. p \<notin> set (free_pages s) \<Longrightarrow> pages s' ! p = pages s ! p"
    and P6: "\<And>R. refs_wf s D R \<Longrightarrow> region R \<Longrightarrow> R \<inter> {vpn va..<vpn va + ?N} = {} \<Longrightarrow> refs_wf s' D R"
    and P7: "frames_kept D s s'"
    using P st(1) by blast+
  have "refs_wf s' D R" if R: "region R" "\<forall>m\<in>R. overlay (vpn va) ?N ?f g m = 0" "refs_wf s0 D R" for R
  proof -
    have nz: "?f k \<noteq> 0" for k using present_or_P(2) not_present_0 by metis
    have ov: "(if vpn va \<le> m \<and> m < vpn va + ?N then ?f (m - vpn va) else g m) = 0" if "m \<in> R" for m
      using R(2) that by (simp add: overlay_def)
    have out: "R \<inter> {vpn va..<vpn va + ?N} = {}"
      using ov nz by (auto split: if_splits) metis
    have "\<forall>m\<in>R. g m = 0"
      using ov nz by (metis (full_types))
    then show ?thesis using P6[OF rf[OF R(1) _ R(3)] R(1) out] by simp
  qed
  moreover have "free_pages s' = drop (card (J \<union> dirs (vpn va) ?N)) (free_pages s0)"
    by (simp add: P4 fp ms card_eq add.commute)
  moreover have "pages s' ! p = pages s0 ! p" if "p \<notin> set (free_pages s0)" for p
    using P5[of p] pg[OF that] that fp by (metis in_set_dropD)
  moreover have "table_at s' d j \<noteq> None \<longleftrightarrow> j \<in> J \<union> dirs (vpn va) ?N" for j
    using P3[of j] J[of j] by auto
  moreover have "pte_at s' d m = overlay (vpn va) ?N ?f g m" if "slot (m div 1024)" for m
    using P2[OF st(1) that] g[OF that] by (auto simp: overlay_def)
  moreover have "pte_at s' e m = pte_at s0 e m" if "e \<in> D" "e \<noteq> d" "slot (m div 1024)" for e m
    using P2[OF that(1,3)] oth[OF that] that(2) by simp
  ultimately have "filling D d s0 (overlay (vpn va) ?N ?f g) (J \<union> dirs (vpn va) ?N) s'"
    unfolding filling_def using st P1 fin mem_frame_trans[OF st(4) P1(1)] frames_kept_trans[OF fk P7] by blast
  with s'(1) show ?thesis by blast
qed

section \<open>The kernel part of an address space\<close>

lemma dirs_bounds:
  assumes "0 < N"
  shows "dirs n0 N = {n0 div 1024..(n0 + N - 1) div 1024}"
proof (intro equalityI subsetI)
  fix j assume "j \<in> dirs n0 N"
  then obtain m where "n0 \<le> m" "m \<le> n0 + N - 1" "j = m div 1024"
    by (auto simp: dirs_def)
  then show "j \<in> {n0 div 1024..(n0 + N - 1) div 1024}"
    by (simp add: div_le_mono)
next
  fix j assume j: "j \<in> {n0 div 1024..(n0 + N - 1) div 1024}"
  let ?m = "max n0 (j * 1024)"
  have "?m div 1024 = j"
    using j by (auto simp: max_def)
  moreover have "j * 1024 \<le> n0 + N - 1"
    using j by (auto simp: less_eq_div_iff_mult_less_eq)
  ultimately show "j \<in> dirs n0 N"
    using assms unfolding dirs_def by (intro image_eqI[of _ _ ?m]) auto
qed

text \<open>The entries of the kernel stack of processor \<open>i\<close>, eight mapped pages below a gap of eight.\<close>

definition kstack_entries :: "kernel_image \<Rightarrow> nat \<Rightarrow> (nat \<Rightarrow> u32) \<Rightarrow> nat \<Rightarrow> u32" where
  "kstack_entries img i g =
     overlay (983032 - 16 * i) 8 (\<lambda>k. ((percpu_kstack img i - KERNBASE) + of_nat k * PGSIZE) OR PTE_W OR PTE_P) g"

fun kstacks :: "kernel_image \<Rightarrow> nat \<Rightarrow> (nat \<Rightarrow> u32) \<Rightarrow> nat \<Rightarrow> u32" where
  "kstacks img 0 g = g"
| "kstacks img (Suc i) g = kstack_entries img i (kstacks img i g)"

definition kernel_entries :: "kernel_image \<Rightarrow> u32 \<Rightarrow> u32 \<Rightarrow> nat \<Rightarrow> u32" where
  "kernel_entries img np pages_va =
     overlay (vpn (lapic img)) 1 (\<lambda>k. (lapicaddr img + of_nat k * PGSIZE) OR (PTE_PCD OR PTE_PWT OR PTE_W) OR PTE_P)
      (kstacks img NCPU
        (overlay 160 96 (\<lambda>k. (IOPHYSMEM + of_nat k * PGSIZE) OR PTE_W OR PTE_P)
          (overlay 983040 65536 (\<lambda>k. (0 + of_nat k * PGSIZE) OR PTE_W OR PTE_P)
            (overlay 983032 8 (\<lambda>k. ((bootstack img - KERNBASE) + of_nat k * PGSIZE) OR PTE_W OR PTE_P)
              (overlay 978944 (unat (ROUNDUP (8 * np) PGSIZE) div 4096)
                (\<lambda>k. ((pages_va - KERNBASE) + of_nat k * PGSIZE) OR PTE_U OR PTE_P) (\<lambda>_. 0))))))"

text \<open>What the linked image guarantees: the mapped objects lie in the kernel's half, the local
  APIC window in the memory-mapped I/O region, the \<open>pages\<close> array below \<open>UVPT\<close>.\<close>

definition image_ok :: "kernel_image \<Rightarrow> 'a mem_state_scheme \<Rightarrow> bool" where
  "image_ok img s \<longleftrightarrow> KERNBASE \<le> bootstack img \<and> (\<forall>i<NCPU. KERNBASE \<le> percpu_kstack img i) \<and>
     KERNBASE \<le> pages_kva s \<and> MMIOBASE \<le> lapic img \<and> lapic img < MMIOLIM"

lemma kstack_va:
  assumes "i < NCPU"
  shows "unat (KSTACKTOP - of_nat i * (KSTKSIZE + KSTKGAP) - KSTKSIZE) = 4026499072 - i * 65536"
proof -
  have "unat (of_nat i * (KSTKSIZE + KSTKGAP) :: u32) = i * 65536"
    using assms by (simp add: layout_defs NCPU_def unat_word_ariths unat_of_nat take_bit_nat_eq_self)
  then show ?thesis
    using assms by (simp add: layout_defs NCPU_def unat_sub_if')
qed

lemma filling_kstack:
  assumes "filling D d s0 (kstacks img i g) J s" "959 \<in> J" "card J \<le> length (free_pages s0)"
    and "i < NCPU" "KERNBASE \<le> percpu_kstack img i"
  shows "\<exists>s'. map_kstack img d i s = Inr s' \<and> filling D d s0 (kstacks img (Suc i) g) J s'"
proof -
  let ?va = "KSTACKTOP - of_nat i * (KSTKSIZE + KSTKGAP) - KSTKSIZE"
  have va: "unat ?va = 4026499072 - i * 65536" using kstack_va[OF assms(4)] .
  have n: "vpn ?va = 983032 - 16 * i"
    using assms(4) va by (simp add: unat_PGNUM NCPU_def)
  have sz: "unat (ROUNDUP KSTKSIZE PGSIZE) div 4096 = 8"
    by (simp add: layout_defs ROUNDUP_def ROUNDDOWN_def)
  have dr: "dirs (983032 - 16 * i) 8 = {959}"
  proof -
    have "(983032 - 16 * i) div 1024 = 959" "(983032 - 16 * i + 8 - 1) div 1024 = 959"
      using assms(4) by (intro div_nat_eqI; simp add: NCPU_def)+
    then show ?thesis by (subst dirs_bounds) simp_all
  qed
  have J: "J \<union> {959} = J" using assms(2) by auto
  have pa: "PADDR (percpu_kstack img i) = Inr (percpu_kstack img i - KERNBASE)"
    using assms(5) by (simp add: PADDR_def)
  have "\<exists>s'. boot_map_region d ?va (ROUNDUP KSTKSIZE PGSIZE) (percpu_kstack img i - KERNBASE) PTE_W s = Inr s' \<and>
      filling D d s0 (overlay (vpn ?va) 8 (\<lambda>k. ((percpu_kstack img i - KERNBASE) + of_nat k * PGSIZE) OR PTE_W OR PTE_P)
        (kstacks img i g)) (J \<union> dirs (vpn ?va) 8) s'"
    using filling_region[OF assms(1), of ?va "ROUNDUP KSTKSIZE PGSIZE"] sz va n dr J assms(3)
    by (simp add: slot_def)
  then show ?thesis
    by (simp add: map_kstack_def pa n dr insert_absorb[OF assms(2)] kstack_entries_def)
qed

lemma filling_kstacks:
  assumes "filling D d s0 g J s" "959 \<in> J" "card J \<le> length (free_pages s0)"
    and "\<And>i. i < NCPU \<Longrightarrow> KERNBASE \<le> percpu_kstack img i"
  shows "\<exists>s'. kfor 0 NCPU (map_kstack img d) s = Inr s' \<and> filling D d s0 (kstacks img NCPU g) J s'"
proof -
  have "\<exists>s'. kfor 0 NCPU (map_kstack img d) s = Inr s' \<and> filling D d s0 (kstacks img (0 + NCPU) g) J s'"
  proof (rule kfor_inv)
    show "\<exists>s'. map_kstack img d i s = Inr s' \<and> filling D d s0 (kstacks img (Suc i) g) J s'"
      if "i < 0 + NCPU" "filling D d s0 (kstacks img i g) J s" for i s
      using filling_kstack[OF that(2) assms(2,3)] that(1) assms(4) by simp
  qed (use assms(1) in simp)
  then show ?thesis by simp
qed

lemma alloc_dir:
  assumes "alloc_inv s" "tables_wf s D" "p \<in> set (free_pages s)" "page_alloc ALLOC_ZERO s = Inr (Some p, s1)"
  shows "free_pages s = p # free_pages s1" and "mem_frame s s1" and "phys s1 = (phys s)(p := \<lambda>_. 0)"
    and "alloc_inv s1" and "pp_ref (pages s1 ! p) = 0" and "\<And>x. x \<noteq> p \<Longrightarrow> pages s1 ! x = pages s ! x"
    and "p < unat (npages s1)" "p \<notin> set (free_pages s1)" "p \<notin> D"
    and "\<And>j. table_at s1 p j = None" and "\<And>e j. e \<in> D \<Longrightarrow> table_at s1 e j = table_at s e j"
    and "\<And>u. is_table s1 (insert p D) u \<longleftrightarrow> is_table s D u" and "tlb s1 = tlb s"
proof -
  obtain q ps where q: "free_pages s = q # ps"
    using assms(3) by (cases "free_pages s") auto
  obtain t where t: "page_alloc ALLOC_ZERO s = Inr (Some q, t)" "mem_frame s t" "alloc_inv t" "free_pages t = ps"
    "pages t = (pages s)[q := \<lparr>pp_link = None, pp_ref = 0\<rparr>]" "phys t = (phys s)(q := \<lambda>_. 0)" "tlb t = tlb s"
    using page_alloc_cons[OF assms(1) q, of ALLOC_ZERO] by (auto simp: ALLOC_ZERO_def)
  have eq: "q = p" "t = s1" using t(1) assms(4) by auto
  show fs: "free_pages s = p # free_pages s1" and fr: "mem_frame s s1" and ph: "phys s1 = (phys s)(p := \<lambda>_. 0)"
    and "alloc_inv s1" and "tlb s1 = tlb s"
    using q t eq by auto
  have pn: "p < length (pages s)" "p < unat (npages s)"
    using alloc_invD(1)[OF assms(1)] alloc_invD(8)[OF assms(1) assms(3)] by auto
  show "pp_ref (pages s1 ! p) = 0" using t(5) eq pn by simp
  show "pages s1 ! x = pages s ! x" if "x \<noteq> p" for x using t(5) eq that by simp
  show pD: "p \<notin> D" and "p < unat (npages s1)" "p \<notin> set (free_pages s1)"
    using alloc_invD(4)[OF assms(1)] fs mem_frameD(1)[OF fr] pn tables_wfD(2)[OF assms(2)] assms(3) by auto
  show none: "table_at s1 p j = None" for j
    by (simp add: table_at_def ph)
  show old: "table_at s1 e j = table_at s e j" if "e \<in> D" for e j
    using that pD ph by (intro table_at_phys_cong) auto
  show "is_table s1 (insert p D) u \<longleftrightarrow> is_table s D u" for u
    unfolding is_table_def using none old by auto
qed

lemma alloc_dir_entries:
  assumes "alloc_inv s" "tables_wf s D" "p \<in> set (free_pages s)" "page_alloc ALLOC_ZERO s = Inr (Some p, s1)"
  shows "\<And>e m. e \<in> D \<Longrightarrow> slot (m div 1024) \<Longrightarrow> pte_at s1 e m = pte_at s e m"
    and "\<And>m. pte_at s1 p m = 0"
    and "region R \<Longrightarrow> refs_wf s D R \<Longrightarrow> refs_wf s1 (insert p D) R"
proof -
  note A = alloc_dir[OF assms]
  show pte: "pte_at s1 e m = pte_at s e m" if e: "e \<in> D" "slot (m div 1024)" for e m
  proof -
    have "t \<noteq> p" if "table_at s e (m div 1024) = Some t" for t
      using tables_wfD(4)[OF assms(2) e that] assms(3) by auto
    then show ?thesis
      using A(3) A(11)[OF e(1)] by (auto simp: pte_at_def split: option.split)
  qed
  show z: "pte_at s1 p m = 0" for m
    using A(10) by (simp add: pte_at_def)
  show "refs_wf s1 (insert p D) R" if R: "region R" "refs_wf s D R"
  proof -
    have m: "mapped s1 e k = (if e = p then None else mapped s e k)" if "e \<in> insert p D" "k \<in> R" for e k
      using that pte[of e k] z R(1) by (auto simp: mapped_def region_def)
    have mp: "mappings s1 (insert p D) R q = mappings s D R q" for q
      using m A(9) by (auto simp: mappings_def split: if_splits)
    have "card (mappings s D R q) \<le> unat (pp_ref (pages s1 ! q))" for q
    proof (cases "q = p")
      case True
      have "mappings s D R p = {}"
        using refs_wfD(2)[OF R(2)] assms(3) by (auto simp: mappings_def)
      then show ?thesis using True by simp
    qed (use refs_wfD(5)[OF R(2), of q] A(6) in simp)
    moreover have "q < unat (npages s1) \<and> q \<notin> set (free_pages s1) \<and> q \<notin> insert p D \<and> \<not> is_table s1 (insert p D) q"
      if "e \<in> insert p D" "k \<in> R" "mapped s1 e k = Some q" for e k q
      using that m[OF that(1,2)] refs_wfD(1-4)[OF R(2) _ that(2), of e q] A(1,12) mem_frameD(1)[OF A(2)] assms(3)
      by (auto split: if_splits)
    ultimately show ?thesis
      unfolding refs_wf_def mp by blast
  qed
qed

lemma filling_start:
  assumes "alloc_inv s" "tables_wf s D" "p \<in> set (free_pages s)" "page_alloc ALLOC_ZERO s = Inr (Some p, s1)"
  shows "filling (insert p D) p s1 (\<lambda>_. 0) {} s1"
proof -
  note A = alloc_dir[OF assms]
  have "tables_wf s1 (insert p D)"
    unfolding tables_wf_def A(12) mem_frameD(1)[OF A(2)]
  proof (intro conjI ballI allI impI)
    fix e e' i i' u
    assume a: "e \<in> insert p D" "e' \<in> insert p D" "slot i" "slot i'" "table_at s1 e i = Some u" "table_at s1 e' i' = Some u"
    then have "e \<in> D" "e' \<in> D" using A(10) by auto
    with a tables_wfD(6)[OF assms(2) _ _ a(3,4)] show "e = e'" "i = i'"
      by (auto simp: A(11))
  next
    fix u assume "is_table s D u"
    then have "u < unat (npages s)" "u \<notin> set (free_pages s)" "u \<notin> D" "pp_ref (pages s ! u) = 1"
      using assms(2) by (auto simp: tables_wf_def)
    then show "u < unat (npages s)" "u \<notin> set (free_pages s1)" "u \<notin> insert p D" "pp_ref (pages s1 ! u) = 1"
      using A(1) A(6)[of u] by auto
  qed (use assms(2) A(1,7,8) mem_frameD(1)[OF A(2)] in \<open>auto simp: tables_wf_def\<close>)
  then show ?thesis
    using A(4,10) by (simp add: filling_def pte_at_def)
qed

definition kernel_dirs :: "nat set" where
  "kernel_dirs = insert 0 {956, 958, 959} \<union> {960..1023}"

lemma card_kernel_dirs: "card kernel_dirs = 68"
proof -
  have "kernel_dirs = {0, 956, 958, 959} \<union> {960..1023}" by (simp add: kernel_dirs_def)
  moreover have "card ({0, 956, 958, 959} \<union> {960..1023 :: nat}) = 4 + 64"
    by (subst card_Un_disjoint) auto
  ultimately show ?thesis by simp
qed

lemma filling_kernel_region:
  assumes "filling D d s0 g J s" "J \<subseteq> kernel_dirs" "68 \<le> length (free_pages s0)"
    and "vpn va = n0" "unat sz div 4096 = N" "unat va + N * 4096 \<le> 4294967296" "dirs n0 N \<subseteq> kernel_dirs"
  shows "\<exists>s'. boot_map_region d va sz pa perm s = Inr s' \<and>
    filling D d s0 (overlay n0 N (\<lambda>k. (pa + of_nat k * PGSIZE) OR perm OR PTE_P) g) (J \<union> dirs n0 N) s'"
proof -
  have "card (J \<union> dirs n0 N) \<le> 68"
    using card_mono[of kernel_dirs "J \<union> dirs n0 N"] assms(2,7) card_kernel_dirs
    by (simp add: kernel_dirs_def)
  moreover have "slot j" if "j \<in> dirs n0 N" for j
    using that assms(7) by (auto simp: kernel_dirs_def slot_def)
  ultimately show ?thesis
    using filling_region[OF assms(1), of va sz pa perm] assms(3-6) by auto
qed

lemma pages_region:
  assumes "0 < unat np" "unat np \<le> 65536"
  shows "0 < unat (ROUNDUP (8 * np) PGSIZE) div 4096" "unat (ROUNDUP (8 * np) PGSIZE) div 4096 \<le> 128"
proof -
  have m: "unat (8 * np) = 8 * unat np"
    using assms(2) by (simp add: unat_word_ariths)
  then have "unat (ROUNDUP (8 * np) PGSIZE) = (8 * unat np + 4095) div 4096 * 4096"
    using assms(2) unat_ROUNDUP[of PGSIZE "8 * np"] by (simp add: PGSIZE_def)
  then have e: "unat (ROUNDUP (8 * np) PGSIZE) div 4096 = (8 * unat np + 4095) div 4096"
    by simp
  have "4096 \<le> 8 * unat np + 4095" "8 * unat np + 4095 < 129 * 4096"
    using assms by simp_all
  then show "0 < unat (ROUNDUP (8 * np) PGSIZE) div 4096" "unat (ROUNDUP (8 * np) PGSIZE) div 4096 \<le> 128"
    unfolding e by (simp add: div_greater_zero_iff, simp)
qed

lemma region_dirs:
  assumes "0 < N1" "N1 \<le> 128" "980992 \<le> m" "m < 982016"
  shows "dirs 978944 N1 = {956}" "dirs 983032 8 = {959}" "dirs 983040 65536 = {960..1023}"
    "dirs 160 96 = {0}" "dirs m 1 = {958}"
proof -
  have "(978944 + N1 - 1) div 1024 = 956"
    using assms(1,2) by (intro div_nat_eqI) auto
  then show "dirs 978944 N1 = {956}"
    using assms(1) by (simp add: dirs_bounds)
  have "m div 1024 = 958"
    using assms(3,4) by (intro div_nat_eqI) auto
  then show "dirs m 1 = {958}"
    by (simp add: dirs_bounds)
qed (simp_all add: dirs_bounds)

text \<open>Several regions one after the other.\<close>

type_synonym map_request = "u32 \<times> u32 \<times> u32 \<times> u32"

fun map_regions :: "nat \<Rightarrow> map_request list \<Rightarrow> 'a mem_state_scheme \<Rightarrow> 'a mem_state_scheme result" where
  "map_regions d [] s = Inr s"
| "map_regions d ((va, sz, pa, perm) # rs) s = rbind (boot_map_region d va sz pa perm s) (map_regions d rs)"

fun overlays :: "map_request list \<Rightarrow> (nat \<Rightarrow> u32) \<Rightarrow> nat \<Rightarrow> u32" where
  "overlays [] g = g"
| "overlays ((va, sz, pa, perm) # rs) g =
     overlays rs (overlay (vpn va) (unat sz div 4096) (\<lambda>k. (pa + of_nat k * PGSIZE) OR perm OR PTE_P) g)"

definition request_dirs :: "map_request \<Rightarrow> nat set" where
  "request_dirs = (\<lambda>(va, sz, pa, perm). dirs (vpn va) (unat sz div 4096))"

definition request_fits :: "map_request \<Rightarrow> bool" where
  "request_fits = (\<lambda>(va, sz, pa, perm). unat va + unat sz div 4096 * 4096 \<le> 4294967296)"

lemma filling_regions:
  assumes "filling D d s0 g J s" "J \<subseteq> kernel_dirs" "68 \<le> length (free_pages s0)"
    and "\<And>r. r \<in> set rs \<Longrightarrow> request_fits r \<and> request_dirs r \<subseteq> kernel_dirs"
  shows "\<exists>s'. map_regions d rs s = Inr s' \<and> filling D d s0 (overlays rs g) (J \<union> \<Union> (request_dirs ` set rs)) s'"
  using assms
proof (induction rs arbitrary: g J s)
  case (Cons r rs)
  obtain va sz pa perm where r: "r = (va, sz, pa, perm)" by (cases r)
  let ?g = "overlay (vpn va) (unat sz div 4096) (\<lambda>k. (pa + of_nat k * PGSIZE) OR perm OR PTE_P) g"
  have fit: "unat va + unat sz div 4096 * 4096 \<le> 4294967296" "dirs (vpn va) (unat sz div 4096) \<subseteq> kernel_dirs"
    using Cons.prems(4)[of r] by (auto simp: r request_fits_def request_dirs_def)
  obtain s1 where s1: "boot_map_region d va sz pa perm s = Inr s1"
    "filling D d s0 ?g (J \<union> dirs (vpn va) (unat sz div 4096)) s1"
    using filling_kernel_region[OF Cons.prems(1-3) refl refl fit] by blast
  have J1: "J \<union> dirs (vpn va) (unat sz div 4096) \<subseteq> kernel_dirs"
    using Cons.prems(2) fit(2) by blast
  have "\<exists>s'. map_regions d rs s1 = Inr s' \<and>
      filling D d s0 (overlays rs ?g) (J \<union> dirs (vpn va) (unat sz div 4096) \<union> \<Union> (request_dirs ` set rs)) s'"
    by (rule Cons.IH[OF s1(2) J1 Cons.prems(3)]) (use Cons.prems(4) in simp)
  with s1(1) show ?case
    by (simp add: r request_dirs_def Un_assoc)
qed simp

definition kernel_regions :: "kernel_image \<Rightarrow> u32 \<Rightarrow> u32 \<Rightarrow> map_request list" where
  "kernel_regions img np pages_va =
     [(UPAGES, ROUNDUP (8 * np) PGSIZE, pages_va - KERNBASE, PTE_U),
      (KSTACKTOP - KSTKSIZE, KSTKSIZE, bootstack img - KERNBASE, PTE_W),
      (KERNBASE, ROUNDUP (0xFFFFFFFF - KERNBASE) PGSIZE, 0, PTE_W),
      (IOPHYSMEM, ROUNDUP (EXTPHYSMEM - IOPHYSMEM) PGSIZE, IOPHYSMEM, PTE_W)]"

lemma kernel_region_sizes:
  "unat (ROUNDUP (0xFFFFFFFF - KERNBASE) PGSIZE) div 4096 = 65536"
  "unat (ROUNDUP (EXTPHYSMEM - IOPHYSMEM) PGSIZE) div 4096 = 96" "unat KSTKSIZE div 4096 = 8" "unat PGSIZE div 4096 = 1"
  "vpn UPAGES = 978944" "vpn (KSTACKTOP - KSTKSIZE) = 983032" "vpn KERNBASE = 983040" "vpn IOPHYSMEM = 160"
  by (simp_all add: layout_defs ROUNDUP_def ROUNDDOWN_def unat_PGNUM)

lemma kernel_regions_ok:
  assumes "0 < unat np" "unat np \<le> 65536"
  shows "\<Union> (request_dirs ` set (kernel_regions img np pv)) = {0, 956, 959} \<union> {960..1023}"
    and "r \<in> set (kernel_regions img np pv) \<Longrightarrow> request_fits r \<and> request_dirs r \<subseteq> kernel_dirs"
proof -
  note N = pages_region[OF assms]
  note dr = region_dirs(1-4)[OF N, of 980992, simplified]
  show "\<Union> (request_dirs ` set (kernel_regions img np pv)) = {0, 956, 959} \<union> {960..1023}"
    using N dr by (auto simp: kernel_regions_def request_dirs_def kernel_region_sizes)
  have "unat UPAGES + unat (ROUNDUP (8 * np) PGSIZE) div 4096 * 4096 \<le> 4294967296"
    using N(2) by (simp add: layout_defs)
  then have f: "\<forall>r\<in>set (kernel_regions img np pv). request_fits r"
    by (simp add: kernel_regions_def request_fits_def kernel_region_sizes) (simp add: layout_defs)
  have "\<forall>r\<in>set (kernel_regions img np pv). request_dirs r \<subseteq> kernel_dirs"
    by (simp add: kernel_regions_def request_dirs_def kernel_region_sizes dr kernel_dirs_def subset_insertI2)
  with f show "request_fits r \<and> request_dirs r \<subseteq> kernel_dirs" if "r \<in> set (kernel_regions img np pv)"
    using that by blast
qed

lemma setupkvm_filling:
  assumes "alloc_inv s" "tables_wf s D" "image_ok img s" "69 \<le> length (free_pages s)"
  obtains p s1 s' where "page_alloc ALLOC_ZERO s = Inr (Some p, s1)" "setupkvm img s = Inr (Some p, s')"
    "filling (insert p D) p s1 (kernel_entries img (npages s) (pages_kva s)) kernel_dirs s'"
    "free_pages s = p # free_pages s1"
proof -
  obtain p ps where ps: "free_pages s = p # ps"
    using assms(4) by (cases "free_pages s") auto
  then obtain s1 where s1: "page_alloc ALLOC_ZERO s = Inr (Some p, s1)"
    using page_alloc_cons[OF assms(1) ps, of ALLOC_ZERO] by metis
  have pin: "p \<in> set (free_pages s)" using ps by simp
  note st = filling_start[OF assms(1,2) pin s1] alloc_dir(1-3)[OF assms(1,2) pin s1]
  note fr = mem_frameD[OF st(3)]
  have room: "68 \<le> length (free_pages s1)" using st(2) assms(4) by simp
  have img: "KERNBASE \<le> bootstack img" "\<And>i. i < NCPU \<Longrightarrow> KERNBASE \<le> percpu_kstack img i"
    "KERNBASE \<le> pages_kva s1" "MMIOBASE \<le> lapic img" "lapic img < MMIOLIM"
    using assms(3) fr(5) by (auto simp: image_ok_def)
  have np: "0 < unat (npages s1)" "unat (npages s1) \<le> 65536"
    using alloc_invD(8)[OF assms(1) pin] alloc_invD(2)[OF assms(1)] fr(1) by auto
  have kva: "page2kva p s1 = Inr p"
    using alloc_invD(8)[OF assms(1) pin] np(2) fr(1) by (simp add: page2kva_in)
  let ?rs = "kernel_regions img (npages s1) (pages_kva s1)" and ?J = "{0, 956, 959} \<union> {960..1023 :: nat}"
  obtain s5 where s5: "map_regions p ?rs s1 = Inr s5" "filling (insert p D) p s1 (overlays ?rs (\<lambda>_. 0)) ?J s5"
    using filling_regions[OF st(1) _ room, of ?rs] kernel_regions_ok[OF np, where img = img and pv = "pages_kva s1"] by auto
  have J: "?J \<subseteq> kernel_dirs" "?J \<union> {958} = kernel_dirs" by (auto simp: kernel_dirs_def)
  have cJ: "card ?J \<le> length (free_pages s1)"
    using card_mono[OF _ J(1)] card_kernel_dirs room by (simp add: kernel_dirs_def)
  obtain s6 where s6: "kfor 0 NCPU (map_kstack img p) s5 = Inr s6"
    "filling (insert p D) p s1 (kstacks img NCPU (overlays ?rs (\<lambda>_. 0))) ?J s6"
    using filling_kstacks[OF s5(2) _ cJ img(2)] by blast
  have la: "980992 \<le> vpn (lapic img)" "vpn (lapic img) < 982016" "unat (lapic img) < 4022337536"
    using img(4,5) by (auto simp: unat_PGNUM layout_defs word_le_nat_alt word_less_nat_alt less_mult_imp_div_less)
  have dl: "dirs (vpn (lapic img)) 1 = {958}" using region_dirs(5)[OF _ _ la(1,2), of 1] by simp
  have eq: "overlay (vpn (lapic img)) 1 (\<lambda>k. (lapicaddr img + of_nat k * PGSIZE) OR (PTE_PCD OR PTE_PWT OR PTE_W) OR PTE_P)
      (kstacks img NCPU (overlays ?rs (\<lambda>_. 0))) = kernel_entries img (npages s) (pages_kva s)"
    unfolding kernel_entries_def kernel_regions_def overlays.simps kernel_region_sizes fr(1,5) ..
  obtain s7 where s7: "boot_map_region p (lapic img) PGSIZE (lapicaddr img) (PTE_PCD OR PTE_PWT OR PTE_W) s6 = Inr s7"
    "filling (insert p D) p s1 (kernel_entries img (npages s) (pages_kva s)) kernel_dirs s7"
  proof -
    have "\<exists>s'. boot_map_region p (lapic img) PGSIZE (lapicaddr img) (PTE_PCD OR PTE_PWT OR PTE_W) s6 = Inr s' \<and>
        filling (insert p D) p s1 (kernel_entries img (npages s) (pages_kva s)) (?J \<union> dirs (vpn (lapic img)) 1) s'"
      unfolding eq[symmetric]
      by (rule filling_kernel_region[OF s6(2) J(1) room refl kernel_region_sizes(4)])
        (use la(3) dl in \<open>simp_all add: kernel_dirs_def\<close>)
    then show thesis using that unfolding dl J(2) by blast
  qed
  have pa: "PADDR (pages_kva s1) = Inr (pages_kva s1 - KERNBASE)" "PADDR (bootstack img) = Inr (bootstack img - KERNBASE)"
    using img(1,3) by (simp_all add: PADDR_def)
  have "setupkvm img s = rbind (map_regions p ?rs s1) (\<lambda>s. rbind (kfor 0 NCPU (map_kstack img p) s) (\<lambda>s.
      rbind (boot_map_region p (lapic img) PGSIZE (lapicaddr img) (PTE_PCD OR PTE_PWT OR PTE_W) s) (\<lambda>s. Inr (Some p, s))))"
    by (simp add: setupkvm_def s1 kva pa kernel_regions_def rbind_assoc)
  then show thesis
    using that[OF s1 _ s7(2) st(2)] s5(1) s6(1) s7(1) by simp
qed

lemma kernel_entries_user:
  assumes "MMIOBASE \<le> lapic img" "256 \<le> m" "m < 978944"
  shows "kernel_entries img np pv m = 0"
proof -
  have "980992 \<le> vpn (lapic img)"
    using assms(1) by (simp add: unat_PGNUM layout_defs word_le_nat_alt)
  moreover have "kstacks img i g m = g m" if "i \<le> NCPU" for i g
    using that by (induction i) (use assms(3) in \<open>auto simp: kstack_entries_def overlay_def NCPU_def\<close>)
  ultimately show ?thesis
    using assms(2,3) by (simp add: kernel_entries_def overlay_def)
qed

lemma setupkvm_vm:
  assumes "vm_inv s D R" "image_ok img s" "69 \<le> length (free_pages s)"
    and "\<And>m. m \<in> R \<Longrightarrow> 256 \<le> m \<and> m < 978944"
  obtains p s' where "setupkvm img s = Inr (Some p, s')" "p \<notin> D" "mem_frame s s'" "vm_inv s' (insert p D) R"
    "free_pages s' = drop 69 (free_pages s)" "pp_ref (pages s' ! p) = 0"
    "\<forall>j. table_at s' p j \<noteq> None \<longleftrightarrow> j \<in> kernel_dirs"
    "\<forall>m. slot (m div 1024) \<longrightarrow> pte_at s' p m = kernel_entries img (npages s) (pages_kva s) m"
    "\<forall>e\<in>D. \<forall>m. slot (m div 1024) \<longrightarrow> pte_at s' e m = pte_at s e m"
    "\<forall>f. f \<notin> D \<longrightarrow> f \<notin> set (free_pages s) \<longrightarrow> \<not> is_table s D f \<longrightarrow> phys s' f = phys s f \<and> \<not> is_table s' (insert p D) f"
    "\<forall>e\<in>D. \<forall>j t. table_at s e j = Some t \<longrightarrow> table_at s' e j = Some t"
    "\<forall>x. x \<notin> set (free_pages s) \<longrightarrow> pages s' ! x = pages s ! x" "p \<in> set (free_pages s)"
proof -
  have inv: "alloc_inv s" "tables_wf s D" "refs_wf s D R" "region R" "finite D"
    using assms(1) by (auto simp: vm_inv_def)
  obtain p s1 s' where s': "page_alloc ALLOC_ZERO s = Inr (Some p, s1)" "setupkvm img s = Inr (Some p, s')"
    "filling (insert p D) p s1 (kernel_entries img (npages s) (pages_kva s)) kernel_dirs s'"
    "free_pages s = p # free_pages s1"
    using setupkvm_filling[OF inv(1,2) assms(2,3)] .
  have pin: "p \<in> set (free_pages s)" using s'(4) by simp
  note A = alloc_dir[OF inv(1,2) pin s'(1)] and E = alloc_dir_entries[OF inv(1,2) pin s'(1)]
  note F = s'(3)[unfolded filling_def]
  have F1: "alloc_inv s'" "tables_wf s' (insert p D)" "mem_frame s1 s'"
    and F2: "\<forall>m. slot (m div 1024) \<longrightarrow> pte_at s' p m = kernel_entries img (npages s) (pages_kva s) m"
    and F3: "\<And>e m. e \<in> insert p D \<Longrightarrow> e \<noteq> p \<Longrightarrow> slot (m div 1024) \<Longrightarrow> pte_at s' e m = pte_at s1 e m"
    and F4: "\<forall>j. table_at s' p j \<noteq> None \<longleftrightarrow> j \<in> kernel_dirs"
    and F5: "free_pages s' = drop (card kernel_dirs) (free_pages s1)"
    and F6: "\<And>x. x \<notin> set (free_pages s1) \<Longrightarrow> pages s' ! x = pages s1 ! x"
    and F7: "\<And>R. region R \<Longrightarrow> (\<forall>m\<in>R. kernel_entries img (npages s) (pages_kva s) m = 0) \<Longrightarrow>
        refs_wf s1 (insert p D) R \<Longrightarrow> refs_wf s' (insert p D) R"
    and F8: "frames_kept (insert p D) s1 s'"
    using F by blast+
  have "\<forall>m\<in>R. kernel_entries img (npages s) (pages_kva s) m = 0"
    using assms(2,4) kernel_entries_user by (auto simp: image_ok_def)
  then have "vm_inv s' (insert p D) R"
    using F1 F7[OF inv(4) _ E(3)[OF inv(4,3)]] inv(4,5) by (simp add: vm_inv_def)
  moreover have "\<forall>e\<in>D. \<forall>m. slot (m div 1024) \<longrightarrow> pte_at s' e m = pte_at s e m"
    using F3 E(1) A(9) by auto
  moreover have "free_pages s' = drop 69 (free_pages s)"
    by (simp add: F5 s'(4) card_kernel_dirs)
  moreover have "\<forall>f. f \<notin> D \<longrightarrow> f \<notin> set (free_pages s) \<longrightarrow> \<not> is_table s D f \<longrightarrow>
      phys s' f = phys s f \<and> \<not> is_table s' (insert p D) f"
    using F8 A(1,3,12) unfolding frames_kept_def by auto
  moreover have "\<forall>e\<in>D. \<forall>j t. table_at s e j = Some t \<longrightarrow> table_at s' e j = Some t"
    using F8 A(11) unfolding frames_kept_def by auto
  moreover have "\<forall>x. x \<notin> set (free_pages s) \<longrightarrow> pages s' ! x = pages s ! x"
    using F6 A(1,6) by auto
  ultimately show thesis
    using that[OF s'(2) A(9) mem_frame_trans[OF A(2) F1(3)] _ _ _ F4 F2] F6[OF A(8)] A(5) pin by simp
qed

section \<open>Tearing an address space down\<close>

text \<open>The page tables of the first \<open>n\<close> slots of directory \<open>d\<close>, in order.\<close>

definition tables_upto :: "'a mem_state_scheme \<Rightarrow> nat \<Rightarrow> nat \<Rightarrow> nat list" where
  "tables_upto s d n = map (\<lambda>i. the (table_at s d i)) (filter (\<lambda>i. table_at s d i \<noteq> None) [0..<n])"

lemma tables_upto_Suc:
  "tables_upto s d (Suc n) = tables_upto s d n @ (case table_at s d n of None \<Rightarrow> [] | Some t \<Rightarrow> [t])"
  by (auto simp: tables_upto_def split: option.split)

lemma set_tables_upto: "set (tables_upto s d n) = {t. \<exists>i<n. table_at s d i = Some t}"
  by (auto simp: tables_upto_def) force

definition teardown_inv :: "'a mem_state_scheme \<Rightarrow> nat \<Rightarrow> nat \<Rightarrow> 'a mem_state_scheme \<Rightarrow> bool" where
  "teardown_inv s0 d n s \<longleftrightarrow>
     alloc_inv s \<and> mem_frame s0 s \<and> phys s = phys s0 \<and> tlb s = tlb s0 \<and>
     free_pages s = rev (tables_upto s0 d n) @ free_pages s0 \<and>
     (\<forall>x. x \<notin> set (tables_upto s0 d n) \<longrightarrow> pp_ref (pages s ! x) = pp_ref (pages s0 ! x))"

lemma ptable_remove_step_inv:
  assumes "tables_wf s0 D" "d \<in> D" "table_at s0 d 957 = None" "n < 1024" "teardown_inv s0 d n s"
  shows "\<exists>s'. ptable_remove_step d n s = Inr s' \<and> teardown_inv s0 d (Suc n) s'"
proof -
  have ph: "phys s = phys s0" and np: "npages s = npages s0" and al: "alloc_inv s"
    using assms(5) mem_frameD(1) unfolding teardown_inv_def by blast+
  show ?thesis
  proof (cases "table_at s0 d n")
    case None
    then have "phys s d n AND PTE_P = 0"
      by (simp add: table_at_def present_def ph split: if_splits)
    then show ?thesis
      using assms(5) None by (auto simp: ptable_remove_step_def teardown_inv_def tables_upto_Suc)
  next
    case (Some t)
    then have e: "phys s d n AND PTE_P \<noteq> 0" "frame_of (phys s d n) = t"
      by (auto simp: table_at_def present_def ph split: if_splits)
    have sl: "slot n"
      using assms(3,4) Some by (auto simp: slot_def)
    note t = tables_wfD(3,4)[OF assms(1,2) sl Some]
    have "t \<notin> set (tables_upto s0 d n)"
    proof
      assume "t \<in> set (tables_upto s0 d n)"
      then obtain i where i: "i < n" "table_at s0 d i = Some t"
        by (auto simp: set_tables_upto)
      then have "slot i" using assms(3,4) by (auto simp: slot_def)
      with tables_wfD(6)[OF assms(1,2,2) sl this Some i(2)] i(1) show False by simp
    qed
    moreover have "pp_ref (pages s0 ! t) = 1"
      using tables_wfD(7)[OF assms(1)] assms(2) sl Some by (auto simp: is_table_def)
    ultimately have ref: "pp_ref (pages s ! t) = 1"
      using assms(5) by (simp add: teardown_inv_def)
    obtain s' where s': "page_decref t s = Inr s'" "mem_frame s s'" "alloc_inv s'"
      "free_pages s' = t # free_pages s"
      "pages s' = (pages s)[t := \<lparr>pp_link = page_free_list s, pp_ref = 0\<rparr>]" "phys s' = phys s" "tlb s' = tlb s"
      using page_decref_last[OF al _ ref] t(1) np by metis
    have "ptable_remove_step d n s = Inr s'"
      using e s'(1) t(1) np by (simp add: ptable_remove_step_def KADDR_frame)
    moreover have "mem_frame s0 s'"
      using assms(5) mem_frame_trans[OF _ s'(2)] by (simp add: teardown_inv_def)
    ultimately show ?thesis
      using assms(5) s' Some by (auto simp: teardown_inv_def tables_upto_Suc)
  qed
qed

lemma ptable_remove_inv:
  assumes "alloc_inv s" "tables_wf s D" "d \<in> D" "table_at s d 957 = None"
  shows "\<exists>s'. ptable_remove d s = Inr s' \<and> teardown_inv s d 1024 s'"
proof -
  have "teardown_inv s d 0 s"
    using assms(1) by (simp add: teardown_inv_def tables_upto_def)
  then have "\<exists>s'. kfor 0 1024 (ptable_remove_step d) s = Inr s' \<and> teardown_inv s d (0 + 1024) s'"
    by (rule kfor_inv) (use ptable_remove_step_inv[OF assms(2-4)] in auto)
  then show ?thesis by (simp add: ptable_remove_def)
qed

lemma vm_inv_shrink:
  assumes "vm_inv s D R" "d \<in> D" "alloc_inv s'" "phys s' = phys s" "npages s' = npages s"
    and fp: "set (free_pages s') \<subseteq> insert d (set (tables_upto s d 1024)) \<union> set (free_pages s)"
    and ref: "\<And>x. x \<notin> insert d (set (tables_upto s d 1024)) \<Longrightarrow> pp_ref (pages s' ! x) = pp_ref (pages s ! x)"
    and uv: "table_at s d 957 = None"
  shows "vm_inv s' (D - {d}) R"
proof -
  let ?F = "insert d (set (tables_upto s d 1024))"
  have inv: "tables_wf s D" "refs_wf s D R" "region R" "finite D"
    using assms(1) by (auto simp: vm_inv_def)
  have eq: "table_at s' e j = table_at s e j" "mapped s' e m = mapped s e m" for e j m
    using assms(4) by (simp_all add: table_at_def pte_at_def mapped_def split: option.split)
  have tF: "is_table s D t" if "t \<in> set (tables_upto s d 1024)" for t
  proof -
    obtain i where i: "i < 1024" "table_at s d i = Some t"
      using \<open>t \<in> _\<close> by (auto simp: set_tables_upto)
    then have "slot i" using uv by (auto simp: slot_def)
    with i(2) assms(2) show ?thesis unfolding is_table_def by blast
  qed
  have it: "is_table s' (D - {d}) u \<Longrightarrow> is_table s D u \<and> u \<notin> ?F" for u
  proof -
    assume "is_table s' (D - {d}) u"
    then obtain e j where e: "e \<in> D" "e \<noteq> d" "slot j" "table_at s e j = Some u"
      by (auto simp: is_table_def eq)
    moreover have "u \<notin> set (tables_upto s d 1024)"
    proof
      assume "u \<in> set (tables_upto s d 1024)"
      then obtain i where i: "i < 1024" "table_at s d i = Some u"
        by (auto simp: set_tables_upto)
      then have "slot i" "table_at s d i = Some u"
        using uv by (auto simp: slot_def)
      with tables_wfD(6)[OF inv(1) e(1) assms(2) e(3)] e(2,4) show False by blast
    qed
    moreover have "u \<noteq> d"
      using tables_wfD(5)[OF inv(1) e(1,3,4)] assms(2) by auto
    ultimately show "is_table s D u \<and> u \<notin> ?F"
      by (auto simp: is_table_def)
  qed
  have "tables_wf s' (D - {d})"
    unfolding tables_wf_def assms(5)
  proof (intro conjI allI ballI impI)
    fix u assume "is_table s' (D - {d}) u"
    from it[OF this] inv(1) show "u < unat (npages s)" "u \<notin> set (free_pages s')" "u \<notin> D - {d}" "pp_ref (pages s' ! u) = 1"
      using fp ref[of u] unfolding tables_wf_def by auto
  next
    fix e assume "e \<in> D - {d}"
    then show "e < unat (npages s)" "e \<notin> set (free_pages s')"
      using fp tF inv(1) unfolding tables_wf_def by auto
  next
    fix e e' i i' u
    assume "e \<in> D - {d}" "e' \<in> D - {d}" "slot i" "slot i'" "table_at s' e i = Some u" "table_at s' e' i' = Some u"
    then show "e = e'" "i = i'"
      using tables_wfD(6)[OF inv(1), of e e' i i' u] by (auto simp: eq)
  qed
  moreover have "refs_wf s' (D - {d}) R"
    unfolding refs_wf_def
  proof (intro conjI allI ballI impI)
    fix e n q assume a: "e \<in> D - {d}" "n \<in> R" "mapped s' e n = Some q"
    then have "e \<in> D" "mapped s e n = Some q" by (auto simp: eq)
    note q = refs_wfD(1-4)[OF inv(2) this(1) a(2) this(2)]
    show "q < unat (npages s')" "q \<notin> D - {d}" using q assms(5) by auto
    show "q \<notin> set (free_pages s')" using q fp tF assms(2) by auto
    show "\<not> is_table s' (D - {d}) q" using q it by auto
  next
    fix q
    show "card (mappings s' (D - {d}) R q) \<le> unat (pp_ref (pages s' ! q))"
    proof (cases "q \<in> ?F")
      case True
      have "mapped s e n \<noteq> Some q" if "e \<in> D" "n \<in> R" for e n
        using refs_wfD(3,4)[OF inv(2) that] True tF assms(2) by blast
      then have "mappings s' (D - {d}) R q = {}"
        by (auto simp: mappings_def eq)
      then show ?thesis by simp
    next
      case False
      have "card (mappings s' (D - {d}) R q) \<le> card (mappings s D R q)"
        by (rule card_mono[OF finite_mappings[OF inv(4,3)]]) (auto simp: mappings_def eq)
      with refs_wfD(5)[OF inv(2), of q] ref[OF False] show ?thesis by simp
    qed
  qed
  ultimately show ?thesis
    using assms(3) inv(3,4) by (simp add: vm_inv_def)
qed

lemma teardown_all:
  assumes "vm_inv s D R" "d \<in> D" "table_at s d 957 = None" "pp_ref (pages s ! d) = 0"
  obtains s1 s2 where "ptable_remove d s = Inr s1" "pgdir_remove d s1 = Inr s2" "vm_inv s2 (D - {d}) R"
    "free_pages s2 = d # rev (tables_upto s d 1024) @ free_pages s" "phys s2 = phys s" "mem_frame s s2"
    "\<forall>x. x \<notin> insert d (set (tables_upto s d 1024)) \<longrightarrow> pp_ref (pages s2 ! x) = pp_ref (pages s ! x)"
proof -
  have inv: "alloc_inv s" "tables_wf s D" using assms(1) by (auto simp: vm_inv_def)
  obtain s1 where s1: "ptable_remove d s = Inr s1" "teardown_inv s d 1024 s1"
    using ptable_remove_inv[OF inv assms(2,3)] by blast
  note T = s1(2)[unfolded teardown_inv_def]
  have np: "npages s1 = npages s" using T mem_frameD(1) by blast
  have dn: "d < unat (npages s1)" "d < 65536"
    using tables_wfD(1)[OF inv(2) assms(2)] alloc_invD(2)[OF inv(1)] np by auto
  have dt: "d \<notin> set (tables_upto s d 1024)"
  proof
    assume "d \<in> set (tables_upto s d 1024)"
    then obtain i where i: "i < 1024" "table_at s d i = Some d" by (auto simp: set_tables_upto)
    then have "slot i" using assms(3) by (auto simp: slot_def)
    with tables_wfD(5)[OF inv(2) assms(2) _ i(2)] assms(2) show False by blast
  qed
  then have nf: "d \<notin> set (free_pages s1)" and rf: "pp_ref (pages s1 ! d) = 0"
    using T tables_wfD(2)[OF inv(2) assms(2)] assms(4) by auto
  obtain s2 where s2: "page_free d s1 = Inr s2" "mem_frame s1 s2" "alloc_inv s2" "free_pages s2 = d # free_pages s1"
    "pages s2 = (pages s1)[d := \<lparr>pp_link = page_free_list s1, pp_ref = 0\<rparr>]" "phys s2 = phys s1" "tlb s2 = tlb s1"
    using page_free_ok[OF _ dn(1) nf rf] T by metis
  have "pa2page (page2pa d) s1 = Inr d"
    using dn by (simp add: pa2page_def word_le_nat_alt PGNUM_page2pa)
  then have rm: "pgdir_remove d s1 = Inr s2"
    using s2(1) by (simp add: pgdir_remove_def)
  have fp: "free_pages s2 = d # rev (tables_upto s d 1024) @ free_pages s"
    using s2(4) T by simp
  have "vm_inv s2 (D - {d}) R"
  proof (rule vm_inv_shrink[OF assms(1,2) s2(3) _ _ _ _ assms(3)])
    show "phys s2 = phys s" "npages s2 = npages s"
      using s2(6) T np mem_frameD(1)[OF s2(2)] by auto
    show "set (free_pages s2) \<subseteq> insert d (set (tables_upto s d 1024)) \<union> set (free_pages s)"
      using fp by auto
    show "pp_ref (pages s2 ! x) = pp_ref (pages s ! x)" if "x \<notin> insert d (set (tables_upto s d 1024))" for x
      using that s2(5) T by (simp add: nth_list_update_neq)
  qed
  moreover have "mem_frame s s2" using T mem_frame_trans[OF _ s2(2)] by blast
  ultimately show thesis using that[OF s1(1) rm _ fp] s2(5,6) T by (simp add: nth_list_update_neq)
qed

section \<open>Properties\<close>

text \<open>
  C11. \<open>page_insert\<close> implements the update of a translation map. Under the memory invariant it
  returns, keeps the invariant (tables disjoint, no mapped page free, no page mapped more
  often than its reference count says), and either fails with \<open>-E_NO_MEM\<close>, exactly when a page
  table is needed and no page is left, changing neither memory nor counts, or makes the entry of
  \<open>va\<close> the new one, changes no other entry of any address space, flushes the TLB entry of a
  page that was replaced, and counts one more reference unless the page was already there.
\<close>

theorem page_insert_refines:
  assumes "vm_inv s D R" "d \<in> D" "vpn va \<in> R" "mappable s D p" "unat perm < 4096"
  shows "\<exists>r s'. page_insert d p va perm s = Inr (r, s') \<and> vm_inv s' D R \<and>
    (if table_at s d (unat (PDX va)) = None \<and> free_pages s = []
     then r = - E_NO_MEM \<and> phys s' = phys s \<and> pages s' = pages s
     else r = 0 \<and>
       (\<forall>e\<in>D. \<forall>m. slot (m div 1024) \<longrightarrow>
          pte_at s' e m = (if e = d \<and> m = vpn va then page2pa p OR PTE_P OR perm else pte_at s e m)) \<and>
       (mapped s d (vpn va) \<noteq> None \<longrightarrow> tlb s' (PGNUM va) = None) \<and>
       pp_ref (pages s' ! p) = (if mapped s d (vpn va) = Some p then pp_ref (pages s ! p) else pp_ref (pages s ! p) + 1))"
proof (cases "table_at s d (unat (PDX va)) = None \<and> free_pages s = []")
  case True
  then obtain s' where s': "page_insert d p va perm s = Inr (- E_NO_MEM, s')" "mem_frame s s'"
    "pages s' = pages s" "phys s' = phys s" "free_pages s' = free_pages s" "alloc_inv s'"
    using page_insert_no_memory[OF assms(1-3), of p perm] by metis
  with vm_inv_cong(1)[OF assms(1) s'(4,3) mem_frameD(1)[OF s'(2)] s'(5,6)] True show ?thesis by auto
next
  case False
  then have "table_at s d (unat (PDX va)) \<noteq> None \<or> free_pages s \<noteq> []" by auto
  from page_insert_ok[OF assms this] obtain s' where
    "page_insert d p va perm s = Inr (0, s')" "mem_frame s s'" "vm_inv s' D R"
    "\<forall>e\<in>D. \<forall>m. slot (m div 1024) \<longrightarrow>
       pte_at s' e m = (if e = d \<and> m = vpn va then page2pa p OR PTE_P OR perm else pte_at s e m)"
    "mapped s d (vpn va) \<noteq> None \<longrightarrow> tlb s' (PGNUM va) = None"
    "pp_ref (pages s' ! p) = (if mapped s d (vpn va) = Some p then pp_ref (pages s ! p) else pp_ref (pages s ! p) + 1)"
    .
  with False show ?thesis by (intro exI[of _ 0] exI[of _ s']) auto
qed

text \<open>The small machine of five pages, with page 0 as an empty directory.\<close>

lemma small_mem_phys [simp]: "phys small_mem = (\<lambda>_ _. 0)"
  by (simp add: small_mem_def boot_mem_def)

lemma small_mem_tables [simp]: "table_at small_mem d i = None" "pte_at small_mem d n = 0" "mapped small_mem d n = None"
  by (simp_all add: table_at_def pte_at_def mapped_def)

lemma small_mem_vm [simp]: "vm_inv small_mem {0} {5}" "mappable small_mem {0} (Suc 0)"
    "pp_ref (pages small_mem ! Suc 0) = 1"
  by (simp_all add: vm_inv_def region_def slot_def tables_wf_def is_table_def refs_wf_def mappings_def mappable_def)
    (simp_all add: small_mem_def)

theorem page_insert_refines_witness:
  "\<exists>s'. page_insert 0 1 0x5000 PTE_W small_mem = Inr (0, s') \<and> vm_inv s' {0} {5} \<and>
    pte_at s' 0 5 = 0x1003 \<and> pp_ref (pages s' ! 1) = 2"
  using page_insert_refines[of small_mem "{0}" "{5}" 0 "0x5000" 1 PTE_W]
  by (auto simp: unat_PGNUM layout_defs slot_def page2pa_def)

text \<open>
  C12. \<open>page_remove\<close> implements the deletion from a translation map: it unmaps exactly the page
  of \<open>va\<close> (and does nothing when nothing is mapped there), drops one reference, returns the page
  to the free list exactly when this was the last reference, leaves no stale TLB entry, and
  keeps the memory invariant.
\<close>

theorem page_remove_refines:
  assumes "vm_inv s D R" "d \<in> D" "vpn va \<in> R"
  shows "\<exists>s'. page_remove d va s = Inr s' \<and> vm_inv s' D R \<and>
    (case mapped s d (vpn va) of
       None \<Rightarrow> s' = s
     | Some q \<Rightarrow>
         (\<forall>e\<in>D. \<forall>m. slot (m div 1024) \<longrightarrow> pte_at s' e m = (if e = d \<and> m = vpn va then 0 else pte_at s e m)) \<and>
         tlb s' (PGNUM va) = None \<and> pp_ref (pages s' ! q) = pp_ref (pages s ! q) - 1 \<and>
         free_pages s' = (if pp_ref (pages s ! q) = 1 then q # free_pages s else free_pages s))"
proof (cases "mapped s d (vpn va)")
  case None
  with page_remove_none[OF assms] assms(1) show ?thesis by simp
next
  case (Some q)
  from page_remove_some[OF assms Some] obtain s' where
    "page_remove d va s = Inr s'" "remove_post D R d (vpn va) q s s'" .
  with Some show ?thesis by (auto simp: remove_post_def)
qed

theorem page_remove_refines_witness:
  "page_remove 0 0x5000 small_mem = Inr small_mem"
  using page_remove_refines[of small_mem "{0}" "{5}" 0 "0x5000"] by (simp add: unat_PGNUM)

text \<open>
  Removing a list of virtual addresses one after the other, as the task code does for the
  user stack, always returns, keeps the memory invariant, and unmaps exactly the pages listed.
\<close>

lemma page_remove_sequence:
  assumes "vm_inv s D R" "d \<in> D" "\<forall>va\<in>set vas. vpn va \<in> R"
  shows "\<exists>s'. remove_seq (page_remove d) vas s = Inr s' \<and> vm_inv s' D R \<and>
    (\<forall>va. vpn va \<in> R \<longrightarrow>
      mapped s' d (vpn va) = (if \<exists>a\<in>set vas. vpn a = vpn va then None else mapped s d (vpn va)))"
  using aspace.remove_seq_law[of s D R d 0 vas] assms by auto

text \<open>
  C13. \<open>boot_map_region\<close> is totally correct: whenever the free list covers the page tables that
  are still missing, the loop ends without touching a null pointer, the entry of every page of
  the region becomes its physical page with the permissions and \<open>PTE_P\<close>, no other entry of any
  address space changes, and exactly the missing page tables were allocated.
\<close>

theorem boot_map_region_correct:
  assumes "alloc_inv s" "tables_wf s D" "d \<in> D"
    and "unat va + unat sz div 4096 * 4096 \<le> 4294967296"
    and "\<forall>j\<in>dirs (vpn va) (unat sz div 4096). slot j"
    and "card (missing s d (vpn va) (unat sz div 4096)) \<le> length (free_pages s)"
  shows "\<exists>s'. boot_map_region d va sz pa perm s = Inr s' \<and> alloc_inv s' \<and> tables_wf s' D \<and>
    free_pages s' = drop (card (missing s d (vpn va) (unat sz div 4096))) (free_pages s) \<and>
    (\<forall>e\<in>D. \<forall>m. slot (m div 1024) \<longrightarrow> pte_at s' e m =
       (if e = d \<and> vpn va \<le> m \<and> m < vpn va + unat sz div 4096
        then (pa + of_nat (m - vpn va) * PGSIZE) OR perm OR PTE_P else pte_at s e m))"
proof -
  have sl: "\<And>j. j \<in> dirs (vpn va) (unat sz div 4096) \<Longrightarrow> slot j" using assms(5) by blast
  from boot_map_region_post[OF assms(1-4) sl assms(6), of pa perm] show ?thesis
    by (auto simp: region_post_def)
qed

theorem boot_map_region_correct_witness:
  "\<exists>s'. boot_map_region 0 0x5000 0x2000 0x7000 PTE_W small_mem = Inr s' \<and>
    pte_at s' 0 5 = 0x7003 \<and> pte_at s' 0 6 = 0x8003 \<and> pte_at s' 0 7 = 0 \<and> free_pages s' = [3, 4]"
proof -
  have pre: "alloc_inv small_mem" "tables_wf small_mem {0}" "(0::nat) \<in> {0}"
    "unat (0x5000 :: u32) + unat (0x2000 :: u32) div 4096 * 4096 \<le> 4294967296"
    by (simp_all add: tables_wf_def is_table_def)
  have d: "dirs (vpn 0x5000) (unat (0x2000 :: u32) div 4096) = {0}"
    by (simp add: unat_PGNUM dirs_bounds)
  have m: "card (missing small_mem 0 (vpn 0x5000) (unat (0x2000 :: u32) div 4096)) = 1"
    unfolding missing_def d by simp
  show ?thesis
    using boot_map_region_correct[OF pre, of "0x7000" PTE_W, unfolded m d]
    by (auto simp: slot_def unat_PGNUM layout_defs)
qed


text \<open>A machine with 100 pages of base memory after \<open>page_init\<close>, and an image to map.\<close>

definition machine100 :: mem_state where
  "machine100 = boot_mem\<lparr>npages := 100, npages_basemem := 100,
     pages := replicate 100 \<lparr>pp_link = None, pp_ref = 0\<rparr>\<rparr>"

definition image0 :: kernel_image where
  "image0 = \<lparr>bootstack = 0xF0110000, percpu_kstack = \<lambda>i. 0xF0120000 + of_nat i * 0x8000,
     lapic = 0xEF800000, lapicaddr = 0xFEE00000\<rparr>"

lemma machine100_ready:
  obtains s :: mem_state where "alloc_inv s" "image_ok image0 s" "length (free_pages s) = 98" "hw_cpu s = 0"
proof -
  have eq: "filter (boot_free machine100) [0..<100] = filter (\<lambda>i. i \<noteq> 0 \<and> i \<noteq> 7) [0..<100]"
    by (rule filter_cong[OF refl]) (simp add: boot_free_def machine100_def)
  have len: "length (filter (\<lambda>i::nat. i \<noteq> 0 \<and> i \<noteq> 7) [0..<100]) = 98"
    by code_simp
  have np: "unat (npages machine100) = 100" "length (pages machine100) = 100" "num_free_pages machine100 = 0"
    "KERNBASE \<le> nextfree machine100" "lock_free (page_lock machine100)"
    by (simp_all add: machine100_def boot_mem_def layout_defs lock_free_def zero_lock_def)
  obtain s where s: "page_init machine100 = Inr s" "alloc_inv s" "mem_frame machine100 s"
    "free_pages s = rev (filter (boot_free machine100) [0..<100])"
    using page_init_builds[of machine100] np by auto
  have "length (free_pages s) = 98"
    by (simp only: s(4) eq length_rev len)
  moreover have "image_ok image0 s"
  proof -
    have "(0xF0000000 :: u32) \<le> 0xF0120000 + of_nat i * 0x8000" if "i < 8" for i
      using that by (simp add: word_le_nat_alt unat_word_ariths unat_of_nat take_bit_nat_eq_self)
    then show ?thesis
      using mem_frameD(5)[OF s(3)]
      by (simp add: image_ok_def image0_def machine100_def boot_mem_def layout_defs NCPU_def)
  qed
  moreover have "hw_cpu s = 0"
    using mem_frameD[OF s(3)] by (simp add: machine100_def boot_mem_def)
  ultimately show thesis using that s(2) by blast
qed


text \<open>
  C15. Tearing an address space down gives everything back: \<open>ptable_remove\<close> followed by
  \<open>pgdir_remove\<close> frees each page table of the directory exactly once, then the directory itself,
  and the memory invariant holds for the remaining address spaces, whose memory is untouched.
\<close>

theorem address_space_teardown:
  assumes "vm_inv s D R" "d \<in> D" "table_at s d 957 = None" "pp_ref (pages s ! d) = 0"
  shows "\<exists>s1 s2. ptable_remove d s = Inr s1 \<and> pgdir_remove d s1 = Inr s2 \<and> vm_inv s2 (D - {d}) R \<and>
    free_pages s2 = d # rev (tables_upto s d 1024) @ free_pages s \<and> phys s2 = phys s"
  by (rule teardown_all[OF assms]) blast

definition small_dir :: mem_state where
  "small_dir = small_mem\<lparr>pages := (pages small_mem)[0 := \<lparr>pp_link = pp_link (pages small_mem ! 0), pp_ref = 0\<rparr>]\<rparr>"

lemma small_dir_vm [simp]:
  "vm_inv small_dir {0} {}" "table_at small_dir d i = None" "pp_ref (pages small_dir ! 0) = 0" "free_pages small_dir = [2, 3, 4]"
proof -
  show t: "table_at small_dir d i = None" for d i
    by (simp add: table_at_def small_dir_def)
  have f: "alloc_inv small_dir" "free_pages small_dir = [2, 3, 4]"
    using alloc_inv_set_ref[of small_mem 0 0] by (simp_all add: small_dir_def)
  then show "free_pages small_dir = [2, 3, 4]" by simp
  have "npages small_dir = 5" by (simp add: small_dir_def)
  with t f show "vm_inv small_dir {0} {}"
    by (simp add: vm_inv_def region_def tables_wf_def is_table_def refs_wf_def mappings_def)
  show "pp_ref (pages small_dir ! 0) = 0" by (simp add: small_dir_def small_mem_def)
qed

theorem address_space_teardown_witness:
  "\<exists>s1 s2. ptable_remove 0 small_dir = Inr s1 \<and> pgdir_remove 0 s1 = Inr s2 \<and> free_pages s2 = [0, 2, 3, 4]"
  using address_space_teardown[of small_dir "{0}" "{}" 0] by (auto simp: tables_upto_def)

end
