(* ===== verification/Descriptors.thy ===== *)
theory Descriptors
  imports Kernel_Prelude
begin

text \<open>
  Segment and gate descriptors of \<^verbatim>\<open>inc/mmu.h\<close>: the packed structures with the widths of their bit
  fields, the macros that fill them, and what the processor reads back from them.
\<close>

record Segdesc =
  sd_lim_15_0 :: "16 word"
  sd_base_15_0 :: "16 word"
  sd_base_23_16 :: "8 word"
  sd_type :: "4 word"
  sd_s :: "1 word"
  sd_dpl :: "2 word"
  sd_p :: "1 word"
  sd_lim_19_16 :: "4 word"
  sd_avl :: "1 word"
  sd_rsv1 :: "1 word"
  sd_db :: "1 word"
  sd_g :: "1 word"
  sd_base_31_24 :: "8 word"

definition SEG_NULL :: Segdesc where
  "SEG_NULL = \<lparr>sd_lim_15_0 = 0, sd_base_15_0 = 0, sd_base_23_16 = 0, sd_type = 0, sd_s = 0, sd_dpl = 0,
     sd_p = 0, sd_lim_19_16 = 0, sd_avl = 0, sd_rsv1 = 0, sd_db = 0, sd_g = 0, sd_base_31_24 = 0\<rparr>"

definition SEG_FAULT :: Segdesc where
  "SEG_FAULT = SEG_NULL\<lparr>sd_s := 1, sd_p := 1, sd_db := 1\<rparr>"

definition SEG :: "4 word \<Rightarrow> u32 \<Rightarrow> u32 \<Rightarrow> 2 word \<Rightarrow> Segdesc" where
  "SEG type base lim dpl =
     \<lparr>sd_lim_15_0 = ucast (drop_bit 12 lim AND 0xffff), sd_base_15_0 = ucast (base AND 0xffff),
      sd_base_23_16 = ucast (drop_bit 16 base AND 0xff), sd_type = type, sd_s = 1, sd_dpl = dpl, sd_p = 1,
      sd_lim_19_16 = ucast (drop_bit 28 lim), sd_avl = 0, sd_rsv1 = 0, sd_db = 1, sd_g = 1,
      sd_base_31_24 = ucast (drop_bit 24 base)\<rparr>"

definition SEG16 :: "4 word \<Rightarrow> u32 \<Rightarrow> u32 \<Rightarrow> 2 word \<Rightarrow> Segdesc" where
  "SEG16 type base lim dpl =
     \<lparr>sd_lim_15_0 = ucast (lim AND 0xffff), sd_base_15_0 = ucast (base AND 0xffff),
      sd_base_23_16 = ucast (drop_bit 16 base AND 0xff), sd_type = type, sd_s = 1, sd_dpl = dpl, sd_p = 1,
      sd_lim_19_16 = ucast (drop_bit 16 lim), sd_avl = 0, sd_rsv1 = 0, sd_db = 1, sd_g = 0,
      sd_base_31_24 = ucast (drop_bit 24 base)\<rparr>"

record Gatedesc =
  gd_off_15_0 :: "16 word"
  gd_sel :: "16 word"
  gd_args :: "5 word"
  gd_rsv1 :: "3 word"
  gd_type :: "4 word"
  gd_s :: "1 word"
  gd_dpl :: "2 word"
  gd_p :: "1 word"
  gd_off_31_16 :: "16 word"

definition STS_T32A :: "4 word" where "STS_T32A = 0x9"
definition STS_CG32 :: "4 word" where "STS_CG32 = 0xC"
definition STS_IG32 :: "4 word" where "STS_IG32 = 0xE"
definition STS_TG32 :: "4 word" where "STS_TG32 = 0xF"
definition STA_X :: "4 word" where "STA_X = 0x8"
definition STA_W :: "4 word" where "STA_W = 0x2"
definition STA_R :: "4 word" where "STA_R = 0x2"

definition GD_KT :: u16 where "GD_KT = 0x08"
definition GD_KD :: u16 where "GD_KD = 0x10"
definition GD_UT :: u16 where "GD_UT = 0x18"
definition GD_UD :: u16 where "GD_UD = 0x20"
definition GD_TSS0 :: u16 where "GD_TSS0 = 0x28"

definition SETGATE :: "bool \<Rightarrow> u16 \<Rightarrow> u32 \<Rightarrow> 2 word \<Rightarrow> Gatedesc" where
  "SETGATE istrap sel off dpl =
     \<lparr>gd_off_15_0 = ucast (off AND 0xffff), gd_sel = sel, gd_args = 0, gd_rsv1 = 0,
      gd_type = (if istrap then STS_TG32 else STS_IG32), gd_s = 0, gd_dpl = dpl, gd_p = 1,
      gd_off_31_16 = ucast (drop_bit 16 off)\<rparr>"

definition SETCALLGATE :: "u16 \<Rightarrow> u32 \<Rightarrow> 2 word \<Rightarrow> Gatedesc" where
  "SETCALLGATE sel off dpl =
     \<lparr>gd_off_15_0 = ucast (off AND 0xffff), gd_sel = sel, gd_args = 0, gd_rsv1 = 0,
      gd_type = STS_CG32, gd_s = 0, gd_dpl = dpl, gd_p = 1, gd_off_31_16 = ucast (drop_bit 16 off)\<rparr>"

section \<open>What the processor reads\<close>

definition seg_base :: "Segdesc \<Rightarrow> u32" where
  "seg_base d = ucast (sd_base_15_0 d) OR push_bit 16 (ucast (sd_base_23_16 d)) OR
     push_bit 24 (ucast (sd_base_31_24 d))"

text \<open>The limit in bytes: with the granularity bit the 20-bit limit counts pages.\<close>

definition seg_limit :: "Segdesc \<Rightarrow> u32" where
  "seg_limit d = (let l = ucast (sd_lim_15_0 d) OR push_bit 16 (ucast (sd_lim_19_16 d)) in
     if sd_g d = 1 then push_bit 12 l OR 0xfff else l)"

definition gate_offset :: "Gatedesc \<Rightarrow> u32" where
  "gate_offset g = ucast (gd_off_15_0 g) OR push_bit 16 (ucast (gd_off_31_16 g))"

lemma low_masks: "x AND (0xffff :: u32) = take_bit 16 x" "x AND (0xff :: u32) = take_bit 8 x"
    "(0xfff :: u32) = mask 12"
  by (simp_all add: take_bit_eq_mask mask_numeral)

lemma base_bits:
  "ucast (ucast (b AND 0xffff) :: 16 word) OR push_bit 16 (ucast (ucast (drop_bit 16 b AND 0xff) :: 8 word)) OR
   push_bit 24 (ucast (ucast (drop_bit 24 b) :: 8 word)) = (b :: u32)"
  unfolding low_masks
proof (rule bit_word_eqI)
  fix n assume "n < LENGTH(32)"
  then show "bit (ucast (ucast (take_bit 16 b) :: 16 word) OR
      push_bit 16 (ucast (ucast (take_bit 8 (drop_bit 16 b)) :: 8 word)) OR
      push_bit 24 (ucast (ucast (drop_bit 24 b) :: 8 word)) :: u32) n = bit b n"
    by (cases "n < 16"; cases "n < 24") (auto simp: bit_simps)
qed

lemma half_bits:
  "ucast (ucast (x AND 0xffff) :: 16 word) OR push_bit 16 (ucast (ucast (drop_bit 16 x) :: 16 word)) = (x :: u32)"
  unfolding low_masks
  by (rule bit_word_eqI) (auto simp: bit_simps)

lemma limit_bits:
  "push_bit 12 (ucast (ucast (drop_bit 12 l AND 0xffff) :: 16 word) OR
     push_bit 16 (ucast (ucast (drop_bit 28 l) :: 4 word))) OR 0xfff = (l OR 0xfff :: u32)"
  unfolding low_masks
proof (rule bit_word_eqI)
  fix n assume "n < LENGTH(32)"
  then show "bit (push_bit 12 (ucast (ucast (take_bit 16 (drop_bit 12 l)) :: 16 word) OR
      push_bit 16 (ucast (ucast (drop_bit 28 l) :: 4 word))) OR mask 12 :: u32) n = bit (l OR mask 12) n"
    by (cases "n < 12"; cases "n < 28") (auto simp: bit_simps)
qed

lemma limit16_bits:
  assumes "unat l < 2 ^ 20"
  shows "ucast (ucast (l AND 0xffff) :: 16 word) OR push_bit 16 (ucast (ucast (drop_bit 16 l) :: 4 word)) = (l :: u32)"
proof -
  have "take_bit 20 l = l"
    using assms by (simp add: word_unat_eq_iff unsigned_take_bit_eq take_bit_nat_eq_self)
  then have b: "bit l n \<Longrightarrow> n < 20" for n by (metis bit_take_bit_iff)
  show ?thesis
    unfolding low_masks
    by (rule bit_word_eqI) (auto simp: bit_simps not_less, drule b, simp)
qed

section \<open>Properties\<close>

text \<open>
  C16. The descriptor macros encode what they are given: the processor reads back from a
  \<open>SEG\<close> descriptor the base and the limit rounded up to whole pages, from a \<open>SEG16\<close> descriptor
  the base and the byte limit (if it fits into 20 bits), and from a gate the 32-bit
  offset, the selector and the privilege level.
\<close>

theorem descriptors_roundtrip:
  "seg_base (SEG type base lim dpl) = base \<and> seg_limit (SEG type base lim dpl) = lim OR 0xfff \<and>
   seg_base (SEG16 type base lim dpl) = base \<and>
   (unat lim < 2 ^ 20 \<longrightarrow> seg_limit (SEG16 type base lim dpl) = lim) \<and>
   gate_offset (SETGATE istrap sel off dpl) = off \<and> gd_sel (SETGATE istrap sel off dpl) = sel \<and>
   gd_dpl (SETGATE istrap sel off dpl) = dpl \<and> gate_offset (SETCALLGATE sel off dpl) = off"
  using limit16_bits[of lim]
  by (simp add: seg_base_def seg_limit_def gate_offset_def SEG_def SEG16_def SETGATE_def SETCALLGATE_def
      base_bits half_bits limit_bits del: push_bit_or)

theorem descriptors_roundtrip_witness:
  "seg_limit (SEG16 STS_T32A 0xF0123450 104 0) = 104 \<and> seg_base (SEG16 STS_T32A 0xF0123450 104 0) = 0xF0123450"
  using descriptors_roundtrip[of STS_T32A "0xF0123450" 104 0 True 0 0] by simp

end
