(* ===== verification/Devices.thy ===== *)
theory Devices
  imports Kernel_Prelude
begin

text \<open>
  Device access: the interrupt controllers (\<^verbatim>\<open>kernel/picirq.c\<close>), the clock chip
  (\<^verbatim>\<open>kernel/kclock.c\<close>), the interval timer (\<open>set_timer\<close> of \<^verbatim>\<open>kernel/timer.c\<close>) and the register
  writes of the local APIC (\<^verbatim>\<open>kernel/lapic.c\<close>). A write to a device register appends an event to
  a log, so that what a driver sends, and in which order, is part of the state. What a device
  answers is a parameter of the operation that reads it.
\<close>

section \<open>Port and register writes\<close>

datatype ioevent =
    Outb u16 u8      \<comment> \<open>\<open>outb(port, data)\<close> of \<^verbatim>\<open>inc/x86.h\<close>\<close>
  | Outsl u16 u32    \<comment> \<open>one word of \<open>outsl\<close>\<close>
  | Mmio nat u32     \<comment> \<open>a store to a word of the local APIC window\<close>

type_synonym iolog = "ioevent list"

definition outb :: "u16 \<Rightarrow> u8 \<Rightarrow> iolog \<Rightarrow> iolog" where
  "outb port data l = l @ [Outb port data]"

section \<open>The clock chip (kernel/kclock.c)\<close>

definition IO_RTC :: u16 where "IO_RTC = 0x70"

text \<open>The chip answers with the byte its memory holds at the selected register.\<close>

definition mc146818_read :: "(nat \<Rightarrow> u8) \<Rightarrow> u32 \<Rightarrow> iolog \<Rightarrow> u32 \<times> iolog" where
  "mc146818_read cmos reg l = (ucast (cmos (unat (ucast reg :: u8))), outb IO_RTC (ucast reg) l)"

definition mc146818_write :: "u32 \<Rightarrow> u32 \<Rightarrow> iolog \<Rightarrow> iolog" where
  "mc146818_write reg datum l = outb (IO_RTC + 1) (ucast datum) (outb IO_RTC (ucast reg) l)"

section \<open>The interval timer (kernel/timer.c)\<close>

definition TIME_HZ :: int where "TIME_HZ = 100"

definition set_timer :: "int \<Rightarrow> iolog \<Rightarrow> iolog" where
  "set_timer hz l =
     (let divisor = 1193180 div hz in
      outb 0x40 (word_of_int (drop_bit 8 divisor)) (outb 0x40 (word_of_int (divisor AND 0xFF)) (outb 0x43 0x36 l)))"

section \<open>The local APIC registers (kernel/lapic.c)\<close>

definition LAPIC_ID :: nat where "LAPIC_ID = 0x0020 div 4"
definition LAPIC_VER :: nat where "LAPIC_VER = 0x0030 div 4"
definition LAPIC_TPR :: nat where "LAPIC_TPR = 0x0080 div 4"
definition LAPIC_EOI :: nat where "LAPIC_EOI = 0x00B0 div 4"
definition LAPIC_SVR :: nat where "LAPIC_SVR = 0x00F0 div 4"
definition LAPIC_ESR :: nat where "LAPIC_ESR = 0x0280 div 4"
definition LAPIC_ICRLO :: nat where "LAPIC_ICRLO = 0x0300 div 4"
definition LAPIC_ICRHI :: nat where "LAPIC_ICRHI = 0x0310 div 4"
definition LAPIC_TIMER :: nat where "LAPIC_TIMER = 0x0320 div 4"
definition LAPIC_PCINT :: nat where "LAPIC_PCINT = 0x0340 div 4"
definition LAPIC_LINT0 :: nat where "LAPIC_LINT0 = 0x0350 div 4"
definition LAPIC_LINT1 :: nat where "LAPIC_LINT1 = 0x0360 div 4"
definition LAPIC_ERROR :: nat where "LAPIC_ERROR = 0x0370 div 4"
definition LAPIC_TICR :: nat where "LAPIC_TICR = 0x0380 div 4"
definition LAPIC_TDCR :: nat where "LAPIC_TDCR = 0x03E0 div 4"

definition lapicw :: "nat \<Rightarrow> u32 \<Rightarrow> iolog \<Rightarrow> iolog" where
  "lapicw index v l = l @ [Mmio index v]"

text \<open>\<open>lapic_va\<close> is the pointer \<open>lapic\<close>, null until the window is mapped; \<open>ID\<close> is what the
  register answers.\<close>

definition cpunum :: "u32 \<Rightarrow> u32 \<Rightarrow> u32" where
  "cpunum lapic_va ID = (if lapic_va \<noteq> 0 then drop_bit 24 ID else 0)"

definition lapic_eoi :: "u32 \<Rightarrow> iolog \<Rightarrow> iolog" where
  "lapic_eoi lapic_va l = (if lapic_va \<noteq> 0 then lapicw LAPIC_EOI 0 l else l)"

section \<open>The interrupt controllers (kernel/picirq.c)\<close>

definition IO_PIC1 :: u16 where "IO_PIC1 = 0x20"
definition IO_PIC2 :: u16 where "IO_PIC2 = 0xA0"
definition IRQ_SLAVE :: nat where "IRQ_SLAVE = 2"
definition IRQ_OFFSET :: nat where "IRQ_OFFSET = 32"
definition IRQ_TIMER :: nat where "IRQ_TIMER = 0"
definition IRQ_KBD :: nat where "IRQ_KBD = 1"
definition IRQ_SPURIOUS :: nat where "IRQ_SPURIOUS = 7"
definition IRQ_ERROR :: nat where "IRQ_ERROR = 19"

record pic_state =
  irq_mask_8259A :: u16
  didinit :: bool

definition pic0 :: pic_state where
  "pic0 = \<lparr>irq_mask_8259A = 0xFFFF AND NOT (push_bit IRQ_SLAVE 1), didinit = False\<rparr>"

definition irq_setmask_8259A :: "u16 \<Rightarrow> pic_state \<times> iolog \<Rightarrow> pic_state \<times> iolog" where
  "irq_setmask_8259A msk = (\<lambda>(p, l).
     let p = p\<lparr>irq_mask_8259A := msk\<rparr> in
     if \<not> didinit p then (p, l)
     else (p, outb (IO_PIC2 + 1) (ucast (drop_bit 8 msk)) (outb (IO_PIC1 + 1) (ucast msk) l)))"

definition pic_init :: "pic_state \<times> iolog \<Rightarrow> pic_state \<times> iolog" where
  "pic_init = (\<lambda>(p, l).
     let p = p\<lparr>didinit := True\<rparr>;
         l = outb (IO_PIC1 + 1) 0xFF l;
         l = outb (IO_PIC2 + 1) 0xFF l;
         l = outb IO_PIC1 0x11 l;
         l = outb (IO_PIC1 + 1) (of_nat IRQ_OFFSET) l;
         l = outb (IO_PIC1 + 1) (push_bit IRQ_SLAVE 1) l;
         l = outb (IO_PIC1 + 1) 0x3 l;
         l = outb IO_PIC2 0x11 l;
         l = outb (IO_PIC2 + 1) (of_nat IRQ_OFFSET + 8) l;
         l = outb (IO_PIC2 + 1) (of_nat IRQ_SLAVE) l;
         l = outb (IO_PIC2 + 1) 0x01 l;
         l = outb IO_PIC1 0x68 l;
         l = outb IO_PIC1 0x0a l;
         l = outb IO_PIC2 0x68 l;
         l = outb IO_PIC2 0x0a l in
     if irq_mask_8259A p \<noteq> 0xFFFF then irq_setmask_8259A (irq_mask_8259A p) (p, l) else (p, l))"

section \<open>What the controllers make of it\<close>

text \<open>
  The programming model of one 8259A: the command word \<open>ICW1\<close> at the even port starts an
  initialisation in which the next three writes to the odd port are the vector offset, the
  cascade wiring and the mode; otherwise a write to the odd port sets the interrupt mask.
\<close>

record pic_chip =
  chip_expect :: nat    \<comment> \<open>initialisation words still to come\<close>
  chip_vector :: u8
  chip_cascade :: u8
  chip_mode :: u8
  chip_mask :: u8

definition chip_data :: "u8 \<Rightarrow> pic_chip \<Rightarrow> pic_chip" where
  "chip_data v c =
     (if chip_expect c = 3 then c\<lparr>chip_vector := v, chip_expect := 2\<rparr>
      else if chip_expect c = 2 then c\<lparr>chip_cascade := v, chip_expect := 1\<rparr>
      else if chip_expect c = 1 then c\<lparr>chip_mode := v, chip_expect := 0\<rparr>
      else c\<lparr>chip_mask := v\<rparr>)"

definition chip_cmd :: "u8 \<Rightarrow> pic_chip \<Rightarrow> pic_chip" where
  "chip_cmd v c = (if v AND 0x10 \<noteq> 0 then c\<lparr>chip_expect := 3, chip_mask := 0\<rparr> else c)"

fun chip_event :: "u16 \<Rightarrow> ioevent \<Rightarrow> pic_chip \<Rightarrow> pic_chip" where
  "chip_event base (Outb p v) c = (if p = base then chip_cmd v c else if p = base + 1 then chip_data v c else c)"
| "chip_event base _ c = c"

definition chip_run :: "u16 \<Rightarrow> iolog \<Rightarrow> pic_chip \<Rightarrow> pic_chip" where
  "chip_run base l c = fold (chip_event base) l c"

lemmas chip_defs = chip_run_def chip_data_def chip_cmd_def outb_def IO_PIC1_def IO_PIC2_def

lemma chip_run_append: "chip_run base (l @ l') c = chip_run base l' (chip_run base l c)"
  by (simp add: chip_run_def)

text \<open>Writing the mask reaches both chips, whatever they were told before, once they are ready.\<close>

lemma setmask_chips:
  assumes "didinit p" "chip_expect (chip_run IO_PIC1 l c1) = 0" "chip_expect (chip_run IO_PIC2 l c2) = 0"
  shows "chip_run IO_PIC1 (snd (irq_setmask_8259A m (p, l))) c1 = (chip_run IO_PIC1 l c1)\<lparr>chip_mask := ucast m\<rparr>"
    "chip_run IO_PIC2 (snd (irq_setmask_8259A m (p, l))) c2 = (chip_run IO_PIC2 l c2)\<lparr>chip_mask := ucast (drop_bit 8 m)\<rparr>"
  using assms by (simp_all add: irq_setmask_8259A_def Let_def chip_defs)

definition pic_init_log :: iolog where
  "pic_init_log = snd (pic_init (pic0\<lparr>irq_mask_8259A := 0xFFFF\<rparr>, []))"

lemma pic_init_split:
  "pic_init (p, l) = (let q = p\<lparr>didinit := True\<rparr> in
     if irq_mask_8259A p \<noteq> 0xFFFF then irq_setmask_8259A (irq_mask_8259A p) (q, l @ pic_init_log) else (q, l @ pic_init_log))"
  by (simp add: pic_init_def pic_init_log_def outb_def Let_def)

lemma pic_init_chips:
  "chip_run IO_PIC1 pic_init_log c = c\<lparr>chip_expect := 0, chip_vector := 32, chip_cascade := 4, chip_mode := 3, chip_mask := 0\<rparr>"
  "chip_run IO_PIC2 pic_init_log c = c\<lparr>chip_expect := 0, chip_vector := 40, chip_cascade := 2, chip_mode := 1, chip_mask := 0\<rparr>"
  by (simp_all add: pic_init_log_def pic_init_def pic0_def Let_def chip_defs IRQ_OFFSET_def IRQ_SLAVE_def push_bit_eq_mult)

section \<open>Properties\<close>

text \<open>
  C17. The interrupt controllers end up as the kernel believes: whatever state the two chips are
  in and whatever was written before, after \<open>pic_init\<close> and any further \<open>irq_setmask_8259A\<close> the
  master delivers its interrupts at vector 32 and the slave at 40, the slave is wired to line 2
  of the master, and the mask registers hold the two halves of \<open>irq_mask_8259A\<close>.
\<close>

theorem pic_init_programs_chips:
  fixes m :: u16
  assumes "irq_mask_8259A p \<noteq> 0xFFFF"
  shows "let (p1, l1) = pic_init (p, l); (p2, l2) = irq_setmask_8259A m (p1, l1);
             a = chip_run IO_PIC1 l1 c1; b = chip_run IO_PIC2 l1 c2 in
     chip_vector a = of_nat IRQ_OFFSET \<and> chip_vector b = of_nat IRQ_OFFSET + 8 \<and>
     chip_cascade a = push_bit IRQ_SLAVE 1 \<and> chip_cascade b = of_nat IRQ_SLAVE \<and>
     chip_mask a = ucast (irq_mask_8259A p1) \<and> chip_mask b = ucast (drop_bit 8 (irq_mask_8259A p1)) \<and>
     irq_mask_8259A p2 = m \<and>
     chip_run IO_PIC1 l2 c1 = a\<lparr>chip_mask := ucast m\<rparr> \<and> chip_run IO_PIC2 l2 c2 = b\<lparr>chip_mask := ucast (drop_bit 8 m)\<rparr>"
proof -
  let ?q = "p\<lparr>didinit := True\<rparr>" and ?l = "l @ pic_init_log"
  obtain l1 where l1: "irq_setmask_8259A (irq_mask_8259A p) (?q, ?l) = (?q, l1)"
    by (simp add: irq_setmask_8259A_def Let_def)
  obtain l2 where l2: "irq_setmask_8259A m (?q, l1) = (?q\<lparr>irq_mask_8259A := m\<rparr>, l2)"
    by (simp add: irq_setmask_8259A_def Let_def)
  have i: "pic_init (p, l) = (?q, l1)"
    using assms l1 by (simp add: pic_init_split Let_def)
  have e: "chip_expect (chip_run IO_PIC1 ?l c1) = 0" "chip_expect (chip_run IO_PIC2 ?l c2) = 0"
    by (simp_all add: chip_run_append pic_init_chips)
  have a: "chip_run IO_PIC1 l1 c1 = (chip_run IO_PIC1 ?l c1)\<lparr>chip_mask := ucast (irq_mask_8259A p)\<rparr>"
    "chip_run IO_PIC2 l1 c2 = (chip_run IO_PIC2 ?l c2)\<lparr>chip_mask := ucast (drop_bit 8 (irq_mask_8259A p))\<rparr>"
    using setmask_chips[OF _ e, of ?q "irq_mask_8259A p"] l1 by simp_all
  then have "chip_expect (chip_run IO_PIC1 l1 c1) = 0" "chip_expect (chip_run IO_PIC2 l1 c2) = 0"
    using e by simp_all
  then have "chip_run IO_PIC1 l2 c1 = (chip_run IO_PIC1 l1 c1)\<lparr>chip_mask := ucast m\<rparr>"
    "chip_run IO_PIC2 l2 c2 = (chip_run IO_PIC2 l1 c2)\<lparr>chip_mask := ucast (drop_bit 8 m)\<rparr>"
    using setmask_chips[of ?q l1 c1 c2 m] l2 by simp_all
  then show ?thesis
    by (simp add: i l2 a chip_run_append pic_init_chips IRQ_OFFSET_def IRQ_SLAVE_def push_bit_eq_mult)
qed

theorem pic_init_programs_chips_witness:
  "chip_vector (chip_run IO_PIC2 (snd (pic_init (pic0, [])))
     \<lparr>chip_expect = 1, chip_vector = 0, chip_cascade = 0, chip_mode = 0, chip_mask = 0\<rparr>) = 40"
  using pic_init_programs_chips[of pic0 "[]" 0
    "\<lparr>chip_expect = 1, chip_vector = 0, chip_cascade = 0, chip_mode = 0, chip_mask = 0\<rparr>"
    "\<lparr>chip_expect = 1, chip_vector = 0, chip_cascade = 0, chip_mode = 0, chip_mask = 0\<rparr>"]
  by (simp add: pic0_def Let_def split_beta IRQ_OFFSET_def IRQ_SLAVE_def push_bit_eq_mult)

end
