(* ===== verification/Task.thy ===== *)
theory Task
  imports Address_Space Descriptors Devices
begin

text \<open>
  Tasks, run queues and the scheduler: \<^verbatim>\<open>kernel/task.c\<close>, \<^verbatim>\<open>kernel/sched.c\<close> and \<^verbatim>\<open>kernel/timer.c\<close>.
  A \<open>Task *\<close> is the index of its element of \<open>tasks\<close>. The state extends the memory state, so
  the page operations act on it as they are.

  \<open>env_pop_tf\<close> leaves the kernel and never returns; an operation that may end this way returns
  a \<open>flow\<close>: \<open>Return\<close> for an ordinary return, \<open>Resume f\<close> when the processor goes on with the
  registers of the trap frame \<open>f\<close>.
\<close>

section \<open>Trap frames (inc/trap.h)\<close>

record PushRegs =
  reg_edi :: u32
  reg_esi :: u32
  reg_ebp :: u32
  reg_oesp :: u32
  reg_ebx :: u32
  reg_edx :: u32
  reg_ecx :: u32
  reg_eax :: u32

record Trapframe =
  tf_regs :: PushRegs
  tf_es :: u16
  tf_padding1 :: u16
  tf_ds :: u16
  tf_padding2 :: u16
  tf_trapno :: u32
  tf_err :: u32
  tf_eip :: u32
  tf_cs :: u16
  tf_padding3 :: u16
  tf_eflags :: u32
  tf_esp :: u32
  tf_ss :: u16
  tf_padding4 :: u16

definition zero_regs :: PushRegs where
  "zero_regs = \<lparr>reg_edi = 0, reg_esi = 0, reg_ebp = 0, reg_oesp = 0, reg_ebx = 0, reg_edx = 0,
     reg_ecx = 0, reg_eax = 0\<rparr>"

definition zero_frame :: Trapframe where
  "zero_frame = \<lparr>tf_regs = zero_regs, tf_es = 0, tf_padding1 = 0, tf_ds = 0, tf_padding2 = 0,
     tf_trapno = 0, tf_err = 0, tf_eip = 0, tf_cs = 0, tf_padding3 = 0, tf_eflags = 0, tf_esp = 0,
     tf_ss = 0, tf_padding4 = 0\<rparr>"

section \<open>Task structures (kernel/task.h, kernel/cpu.h)\<close>

datatype TaskState = TASK_FREE | TASK_RUNNABLE | TASK_RUNNING | TASK_SLEEP | TASK_STOP

record Task =
  task_id :: int
  parent_id :: int
  tf :: Trapframe
  remind_ticks :: u32       \<comment> \<open>\<open>int32_t\<close>: only decremented and compared with zero\<close>
  state :: TaskState
  pgdir :: "nat option"

record Runqueue =
  cnt :: u32
  rq :: "nat option list"

record tss_struct =
  ts_link :: u32
  ts_esp0 :: u32
  ts_ss0 :: u16
  ts_esp1 :: u32
  ts_ss1 :: u16
  ts_esp2 :: u32
  ts_ss2 :: u16
  ts_cr3 :: u32
  ts_eip :: u32
  ts_eflags :: u32
  ts_eax :: u32
  ts_ecx :: u32
  ts_edx :: u32
  ts_ebx :: u32
  ts_esp :: u32
  ts_ebp :: u32
  ts_esi :: u32
  ts_edi :: u32
  ts_es :: u16
  ts_cs :: u16
  ts_ss :: u16
  ts_ds :: u16
  ts_fs :: u16
  ts_gs :: u16
  ts_ldt :: u16
  ts_t :: u16
  ts_iomb :: u16

definition zero_tss :: tss_struct where
  "zero_tss = \<lparr>ts_link = 0, ts_esp0 = 0, ts_ss0 = 0, ts_esp1 = 0, ts_ss1 = 0, ts_esp2 = 0, ts_ss2 = 0,
     ts_cr3 = 0, ts_eip = 0, ts_eflags = 0, ts_eax = 0, ts_ecx = 0, ts_edx = 0, ts_ebx = 0, ts_esp = 0,
     ts_ebp = 0, ts_esi = 0, ts_edi = 0, ts_es = 0, ts_cs = 0, ts_ss = 0, ts_ds = 0, ts_fs = 0, ts_gs = 0,
     ts_ldt = 0, ts_t = 0, ts_iomb = 0\<rparr>"

record CpuInfo =
  cpu_id :: u8
  cpu_status :: u32
  cpu_task :: "nat option"
  cpu_rq :: Runqueue
  cpu_tss :: tss_struct

definition NR_TASKS :: nat where "NR_TASKS = 32"
definition TIME_QUANT :: u32 where "TIME_QUANT = 100"
definition USR_STACK_SIZE :: u32 where "USR_STACK_SIZE = 40960"

record task_state = mem_state +
  tasks :: "Task list"
  task_lock :: spinlock
  cpus :: "CpuInfo list"
  ncpu :: nat
  bootcpu :: nat
  nextCPU :: nat
  gdt :: "Segdesc list"
  jiffies :: u32
  UTEXT_SZ :: u32
  UDATA_SZ :: u32
  UBSS_SZ :: u32
  URODATA_SZ :: u32
  cr3 :: "nat \<Rightarrow> u32"          \<comment> \<open>control and table registers, by processor\<close>
  tr :: "nat \<Rightarrow> u16"
  ldtr :: "nat \<Rightarrow> u16"
  gdtr :: "nat \<Rightarrow> bool"        \<comment> \<open>\<open>gdt_pd\<close> was loaded\<close>
  pic :: pic_state
  io :: iolog

text \<open>Symbols of the linker script and of the assembly files.\<close>

record user_image =
  UTEXT_start :: u32
  UTEXT_end :: u32
  UDATA_start :: u32
  UDATA_end :: u32
  UBSS_start :: u32
  UBSS_end :: u32
  URODATA_start :: u32
  URODATA_end :: u32
  user_entry :: u32
  idle_entry :: u32
  tss_addr :: "nat \<Rightarrow> u32"

datatype ('v, 's) flow = Return 'v 's | Resume Trapframe 's

section \<open>Access to the current processor and to tasks\<close>

definition thiscpu :: "'a task_state_scheme \<Rightarrow> CpuInfo result" where
  "thiscpu s = aget (cpus s) (hw_cpu s)"

definition set_cpu :: "nat \<Rightarrow> (CpuInfo \<Rightarrow> CpuInfo) \<Rightarrow> 'a task_state_scheme \<Rightarrow> 'a task_state_scheme result" where
  "set_cpu i f s = rbind (aget (cpus s) i) (\<lambda>c. Inr (s\<lparr>cpus := (cpus s)[i := f c]\<rparr>))"

definition set_task :: "nat \<Rightarrow> (Task \<Rightarrow> Task) \<Rightarrow> 'a task_state_scheme \<Rightarrow> 'a task_state_scheme result" where
  "set_task i f s = rbind (aget (tasks s) i) (\<lambda>t. Inr (s\<lparr>tasks := (tasks s)[i := f t]\<rparr>))"

text \<open>A null \<open>Task *\<close> (or page directory) that is dereferenced faults.\<close>

definition nonnull :: "'a option \<Rightarrow> 'a result" where
  "nonnull p = (case p of None \<Rightarrow> Inl Fault | Some x \<Rightarrow> Inr x)"

text \<open>\<open>lcr3\<close> switches the page directory and flushes the translations.\<close>

definition lcr3 :: "u32 \<Rightarrow> 'a task_state_scheme \<Rightarrow> 'a task_state_scheme" where
  "lcr3 v s = s\<lparr>cr3 := (cr3 s)(hw_cpu s := v), tlb := \<lambda>_. None\<rparr>"

definition lock_tasks :: "'a task_state_scheme \<Rightarrow> 'a task_state_scheme result" where
  "lock_tasks s = rbind (spin_lock (hw_frames s) (hw_cpu s) (task_lock s)) (\<lambda>l. Inr (s\<lparr>task_lock := l\<rparr>))"

definition unlock_tasks :: "'a task_state_scheme \<Rightarrow> 'a task_state_scheme result" where
  "unlock_tasks s = rbind (spin_unlock (hw_cpu s) (task_lock s)) (\<lambda>l. Inr (s\<lparr>task_lock := l\<rparr>))"

section \<open>Creating and freeing tasks (kernel/task.c)\<close>

definition find_free_task :: "Task list \<Rightarrow> nat option" where
  "find_free_task ts = List.find (\<lambda>pid. state (ts ! pid) = TASK_FREE) [0..<length ts]"

text \<open>The loop over the user stack. \<open>page_insert\<close> reports failure with \<open>-E_NO_MEM\<close>, the loop tests
  for \<open>-1\<close>.\<close>

fun alloc_ustack :: "nat \<Rightarrow> nat \<Rightarrow> u32 \<Rightarrow> 'a mem_state_scheme \<Rightarrow> (bool \<times> 'a mem_state_scheme) result" where
  "alloc_ustack d 0 va s = Inr (True, s)"
| "alloc_ustack d (Suc n) va s =
     rbind (page_alloc ALLOC_ZERO s) (\<lambda>(pp, s).
       case pp of None \<Rightarrow> Inr (False, s)
       | Some pp \<Rightarrow> rbind (page_insert d pp va (PTE_W OR PTE_U) s) (\<lambda>(r, s).
           if r = -1 then Inr (False, s) else alloc_ustack d n (va + PGSIZE) s))"

definition ustack_pages :: nat where
  "ustack_pages = unat (USR_STACK_SIZE div PGSIZE)"

definition new_frame :: Trapframe where
  "new_frame = zero_frame\<lparr>tf_cs := GD_UT OR 3, tf_ds := GD_UD OR 3, tf_es := GD_UD OR 3,
     tf_ss := GD_UD OR 3, tf_esp := USTACKTOP - PGSIZE\<rparr>"

definition task_create :: "kernel_image \<Rightarrow> 'a task_state_scheme \<Rightarrow> (int \<times> 'a task_state_scheme) result" where
  "task_create img s =
     rbind (lock_tasks s) (\<lambda>s.
     case find_free_task (tasks s) of None \<Rightarrow> Inr (-1, s)
     | Some pid \<Rightarrow>
       rbind (setupkvm img s) (\<lambda>(d, s).
       rbind (set_task pid (pgdir_update (\<lambda>_. d)) s) (\<lambda>s.
       case d of None \<Rightarrow> Inl (Panic ''Not enough memory for per process page directory!'')
       | Some d \<Rightarrow>
         rbind (alloc_ustack d ustack_pages (USTACKTOP - USR_STACK_SIZE) s) (\<lambda>(ok, s).
         if \<not> ok then Inr (-1, s)
         else
           rbind (set_task pid (\<lambda>T. T\<lparr>tf := new_frame, task_id := int pid\<rparr>) s) (\<lambda>s.
           rbind (thiscpu s) (\<lambda>c.
           rbind (case cpu_task c of None \<Rightarrow> Inr (int pid)
                  | Some t \<Rightarrow> rbind (aget (tasks s) t) (\<lambda>T. Inr (task_id T))) (\<lambda>parent.
           rbind (set_task pid (\<lambda>T. T\<lparr>parent_id := parent, remind_ticks := TIME_QUANT,
              state := TASK_RUNNABLE\<rparr>) s) (\<lambda>s.
           rbind (unlock_tasks s) (\<lambda>s. Inr (int pid, s))))))))))"

definition ustack_vas :: "u32 list" where
  "ustack_vas = map (\<lambda>i. USTACKTOP - USR_STACK_SIZE + of_nat i * PGSIZE) [0..<ustack_pages]"

definition task_free :: "nat \<Rightarrow> 'a task_state_scheme \<Rightarrow> 'a task_state_scheme result" where
  "task_free pid s =
     (let s = lcr3 (page2pa (kern_pgdir s)) s in
      rbind (aget (tasks s) pid) (\<lambda>T.
      rbind (nonnull (pgdir T)) (\<lambda>d.
      rbind (remove_seq (page_remove d) ustack_vas s) (\<lambda>s.
      rbind (ptable_remove d s) (pgdir_remove d)))))"

section \<open>The scheduler (kernel/sched.c)\<close>

text \<open>The downward search of \<open>sched_yield\<close> over the first \<open>n\<close> entries; \<open>None\<close> is the index \<open>-1\<close>.\<close>

fun sched_scan :: "Task list \<Rightarrow> nat option list \<Rightarrow> nat \<Rightarrow> nat option result" where
  "sched_scan ts q 0 = Inr None"
| "sched_scan ts q (Suc i) =
     rbind (aget q i) (\<lambda>p. rbind (nonnull p) (\<lambda>t. rbind (aget ts t) (\<lambda>T.
       if state T = TASK_RUNNABLE then Inr (Some i) else sched_scan ts q i)))"

definition sched_yield :: "'a task_state_scheme \<Rightarrow> ('v, 'a task_state_scheme) flow result" where
  "sched_yield s =
     rbind (thiscpu s) (\<lambda>c.
     rbind (sched_scan (tasks s) (rq (cpu_rq c)) (if sint (cnt (cpu_rq c) - 1) < 0 then 0 else unat (cnt (cpu_rq c)))) (\<lambda>i.
     rbind (nonnull i) (\<lambda>i.
     rbind (aget (rq (cpu_rq c)) i) (\<lambda>p.
     rbind (set_cpu (hw_cpu s) (cpu_task_update (\<lambda>_. p)) s) (\<lambda>s.
     rbind (nonnull p) (\<lambda>t.
     rbind (set_task t (\<lambda>T. T\<lparr>state := TASK_RUNNING, remind_ticks := TIME_QUANT\<rparr>) s) (\<lambda>s.
     rbind (aget (tasks s) t) (\<lambda>T.
     case pgdir T of None \<Rightarrow> Inl (Panic ''PADDR called with invalid kva'')
     | Some d \<Rightarrow> Inr (Resume (tf T) (lcr3 (page2pa d) s))))))))))"

section \<open>Killing and forking (kernel/task.c)\<close>

text \<open>One iteration of the inner loop of \<open>sys_kill\<close>: entries behind the killed task move up.\<close>

definition kill_shift :: "int \<Rightarrow> Task list \<Rightarrow> u32 \<Rightarrow> nat \<Rightarrow> bool \<times> nat option list \<Rightarrow> (bool \<times> nat option list) result" where
  "kill_shift pid ts n j = (\<lambda>(found, q).
     rbind (aget q j) (\<lambda>p. rbind (nonnull p) (\<lambda>t. rbind (aget ts t) (\<lambda>T.
       let found = (found \<or> pid = task_id T) in
       if found \<and> of_nat j \<noteq> n - 1
       then rbind (aget q (j + 1)) (\<lambda>x. rbind (aset q j x) (\<lambda>q. Inr (found, q)))
       else Inr (found, q)))))"

text \<open>The outer loop: it returns the index \<open>i\<close> the loop ends with, one past the processor whose
  queue held the task.\<close>

fun kill_cpus :: "int \<Rightarrow> nat \<Rightarrow> nat \<Rightarrow> 'a task_state_scheme \<Rightarrow> (nat \<times> 'a task_state_scheme) result" where
  "kill_cpus pid 0 i s = Inr (i, s)"
| "kill_cpus pid (Suc n) i s =
     rbind (aget (cpus s) i) (\<lambda>c.
     rbind (kfor 0 (unat (cnt (cpu_rq c))) (kill_shift pid (tasks s) (cnt (cpu_rq c))) (False, rq (cpu_rq c))) (\<lambda>(found, q).
     rbind (set_cpu i (cpu_rq_update (rq_update (\<lambda>_. q))) s) (\<lambda>s.
     if found then Inr (i + 1, s) else kill_cpus pid n (i + 1) s)))"

definition kill_dequeue :: "nat \<Rightarrow> 'a task_state_scheme \<Rightarrow> 'a task_state_scheme result" where
  "kill_dequeue i s =
     rbind (aget (cpus s) i) (\<lambda>c.
     rbind (aset (rq (cpu_rq c)) (unat (cnt (cpu_rq c) - 1)) None) (\<lambda>q.
     set_cpu i (cpu_rq_update (\<lambda>_. \<lparr>cnt = cnt (cpu_rq c) - 1, rq = q\<rparr>)) s))"

definition sys_kill :: "int \<Rightarrow> 'a task_state_scheme \<Rightarrow> (unit, 'a task_state_scheme) flow result" where
  "sys_kill pid s =
     (if 0 < pid \<and> pid < int NR_TASKS then
        rbind (lock_tasks s) (\<lambda>s.
        rbind (set_task (nat pid) (state_update (\<lambda>_. TASK_FREE)) s) (\<lambda>s.
        rbind (task_free (nat pid) s) (\<lambda>s.
        rbind (unlock_tasks s) (\<lambda>s.
        rbind (kill_cpus pid (ncpu s) 0 s) (\<lambda>(i, s).
        rbind (kill_dequeue i s) sched_yield)))))
      else Inr (Return () s))"

text \<open>One iteration of the copy loop of \<open>sys_fork\<close>: \<open>memcpy\<close> of one stack page.\<close>

definition copy_stack_page :: "nat \<Rightarrow> nat \<Rightarrow> u32 \<Rightarrow> 'a mem_state_scheme \<Rightarrow> 'a mem_state_scheme result" where
  "copy_stack_page src dst va s =
     rbind (page_lookup src va s) (\<lambda>r. rbind (nonnull r) (\<lambda>(p, _).
     rbind (page2kva p s) (\<lambda>parent_stack.
     rbind (page_lookup dst va s) (\<lambda>r. rbind (nonnull r) (\<lambda>(q, _).
     rbind (page2kva q s) (\<lambda>child_stack.
     Inr (s\<lparr>phys := (phys s)(child_stack := phys s parent_stack)\<rparr>)))))))"

definition setup_user :: "user_image \<Rightarrow> nat \<Rightarrow> 'a task_state_scheme \<Rightarrow> 'a task_state_scheme result" where
  "setup_user uimg d s =
     rbind (setupvm d (UTEXT_start uimg) (UTEXT_SZ s) s) (\<lambda>s.
     rbind (setupvm d (UDATA_start uimg) (UDATA_SZ s) s) (\<lambda>s.
     rbind (setupvm d (UBSS_start uimg) (UBSS_SZ s) s) (\<lambda>s.
     setupvm d (URODATA_start uimg) (URODATA_SZ s) s)))"

definition enqueue_task :: "nat \<Rightarrow> nat \<Rightarrow> 'a task_state_scheme \<Rightarrow> 'a task_state_scheme result" where
  "enqueue_task i pid s =
     rbind (aget (cpus s) i) (\<lambda>c.
     rbind (aset (rq (cpu_rq c)) (unat (cnt (cpu_rq c))) (Some pid)) (\<lambda>q.
     set_cpu i (cpu_rq_update (\<lambda>_. \<lparr>cnt = cnt (cpu_rq c) + 1, rq = q\<rparr>)) s))"

text \<open>\<open>ncpu = 0\<close> would divide by zero.\<close>

definition sys_fork :: "kernel_image \<Rightarrow> user_image \<Rightarrow> 'a task_state_scheme \<Rightarrow> (int \<times> 'a task_state_scheme) result" where
  "sys_fork img uimg s =
     rbind (task_create img s) (\<lambda>(pid, s).
     if pid = -1 then Inr (-1, s)
     else rbind (thiscpu s) (\<lambda>c.
       case cpu_task c of None \<Rightarrow> Inr (pid, s)
       | Some me \<Rightarrow>
         rbind (aget (tasks s) me) (\<lambda>P.
         rbind (set_task (nat pid) (tf_update (\<lambda>_. tf P)) s) (\<lambda>s.
         rbind (aget (tasks s) (nat pid)) (\<lambda>C.
         rbind (nonnull (pgdir P)) (\<lambda>src.
         rbind (nonnull (pgdir C)) (\<lambda>dst.
         rbind (remove_seq (copy_stack_page src dst) ustack_vas s) (\<lambda>s.
         rbind (setup_user uimg dst s) (\<lambda>s.
         rbind (set_task (nat pid) (tf_update (tf_regs_update (reg_eax_update (\<lambda>_. 0)))) s) (\<lambda>s.
         rbind (enqueue_task (nextCPU s) (nat pid) s) (\<lambda>s.
         if ncpu s = 0 then Inl Fault
         else Inr (pid, s\<lparr>nextCPU := (nextCPU s + 1) mod ncpu s\<rparr>))))))))))))"

section \<open>Initialisation (kernel/task.c)\<close>

definition gdt0 :: "Segdesc list" where
  "gdt0 = [SEG_NULL, SEG (STA_X OR STA_R) 0 0xffffffff 0, SEG STA_W 0 0xffffffff 0,
     SEG (STA_X OR STA_R) 0 0xffffffff 3, SEG STA_W 0 0xffffffff 3] @ replicate NCPU SEG_NULL"

definition tss_sel :: "CpuInfo \<Rightarrow> u16" where
  "tss_sel c = GD_TSS0 + ucast (cpu_id c) * 8"

definition setup_tss :: "user_image \<Rightarrow> 'a task_state_scheme \<Rightarrow> 'a task_state_scheme result" where
  "setup_tss uimg s =
     rbind (thiscpu s) (\<lambda>c.
     rbind (set_cpu (hw_cpu s) (cpu_tss_update (\<lambda>_. zero_tss\<lparr>
         ts_esp0 := KSTACKTOP - ucast (cpu_id c) * (KSTKSIZE + KSTKGAP), ts_ss0 := GD_KD,
         ts_fs := GD_UD OR 3, ts_gs := GD_UD OR 3\<rparr>)) s) (\<lambda>s.
     rbind (aset (gdt s) (unat (drop_bit 3 (tss_sel c)))
         ((SEG16 STS_T32A (tss_addr uimg (hw_cpu s)) 104 0)\<lparr>sd_s := 0\<rparr>)) (\<lambda>g.
     Inr (s\<lparr>gdt := g\<rparr>))))"

definition task_init_percpu :: "kernel_image \<Rightarrow> user_image \<Rightarrow> 'a task_state_scheme \<Rightarrow> 'a task_state_scheme result" where
  "task_init_percpu img uimg s =
     rbind (setup_tss uimg s) (\<lambda>s.
     rbind (task_create img s) (\<lambda>(i, s).
     if i < 0 then Inl Fault
     else
       rbind (set_cpu (hw_cpu s) (cpu_task_update (\<lambda>_. Some (nat i))) s) (\<lambda>s.
       rbind (aget (tasks s) (nat i)) (\<lambda>T. rbind (nonnull (pgdir T)) (\<lambda>d.
       rbind (setup_user uimg d s) (\<lambda>s.
       rbind (set_task (nat i) (tf_update (tf_eip_update (\<lambda>_.
          if hw_cpu s = bootcpu s then user_entry uimg else idle_entry uimg))) s) (\<lambda>s.
       rbind (thiscpu s) (\<lambda>c.
       let s = s\<lparr>gdtr := (gdtr s)(hw_cpu s := True), ldtr := (ldtr s)(hw_cpu s := 0),
                 tr := (tr s)(hw_cpu s := tss_sel c)\<rparr> in
       rbind (set_task (nat i) (state_update (\<lambda>_. TASK_RUNNING)) s) (\<lambda>s.
       set_cpu (hw_cpu s) (cpu_rq_update (\<lambda>_.
          \<lparr>cnt = 1, rq = (replicate NR_TASKS None)[0 := Some (nat i)]\<rparr>)) s)))))))))"

definition zero_task :: Task where
  "zero_task = \<lparr>task_id = 0, parent_id = 0, tf = zero_frame, remind_ticks = 0, state = TASK_FREE, pgdir = None\<rparr>"

definition task_init :: "kernel_image \<Rightarrow> user_image \<Rightarrow> 'a task_state_scheme \<Rightarrow> 'a task_state_scheme result" where
  "task_init img uimg s =
     task_init_percpu img uimg (s\<lparr>
       UTEXT_SZ := UTEXT_end uimg - UTEXT_start uimg, UDATA_SZ := UDATA_end uimg - UDATA_start uimg,
       UBSS_SZ := UBSS_end uimg - UBSS_start uimg, URODATA_SZ := URODATA_end uimg - URODATA_start uimg,
       tasks := replicate NR_TASKS zero_task\<rparr>)"

section \<open>The timer (kernel/timer.c)\<close>

text \<open>One iteration over the run queue: a sleeping task counts down and wakes at zero.\<close>

definition tick_entry :: "nat \<Rightarrow> 'a task_state_scheme \<Rightarrow> 'a task_state_scheme result" where
  "tick_entry i s =
     rbind (thiscpu s) (\<lambda>c. rbind (aget (rq (cpu_rq c)) i) (\<lambda>p. rbind (nonnull p) (\<lambda>t.
     rbind (aget (tasks s) t) (\<lambda>T.
       if state T = TASK_SLEEP
       then set_task t (\<lambda>T. let T = T\<lparr>remind_ticks := remind_ticks T - 1\<rparr> in
              if remind_ticks T = 0 then T\<lparr>state := TASK_RUNNABLE\<rparr> else T) s
       else Inr s))))"

definition timer_handler :: "kernel_image \<Rightarrow> 'a task_state_scheme \<Rightarrow> (unit, 'a task_state_scheme) flow result" where
  "timer_handler img s =
     (let s = s\<lparr>jiffies := jiffies s + 1, io := lapic_eoi (lapic img) (io s)\<rparr> in
      rbind (thiscpu s) (\<lambda>c.
      case cpu_task c of None \<Rightarrow> Inr (Return () s)
      | Some t \<Rightarrow>
        rbind (kfor 0 (unat (cnt (cpu_rq c))) tick_entry s) (\<lambda>s.
        rbind (set_task t (\<lambda>T. T\<lparr>remind_ticks := remind_ticks T - 1\<rparr>) s) (\<lambda>s.
        rbind (aget (tasks s) t) (\<lambda>T.
        if remind_ticks T = 0
        then rbind (set_task t (state_update (\<lambda>_. TASK_RUNNABLE)) s) sched_yield
        else Inr (Return () s))))))"

definition sys_get_ticks :: "'a task_state_scheme \<Rightarrow> u32" where
  "sys_get_ticks s = jiffies s"

section \<open>Specification of the scheduler\<close>

lemma find_only_last: "List.find P (xs @ [x]) = Some x \<Longrightarrow> x \<notin> set xs \<Longrightarrow> \<forall>y\<in>set xs. \<not> P y"
  by (induction xs) (auto split: if_splits)

text \<open>
  A scheduler that picks the last ready element of its queue. It is work-conserving, and it
  starves: as long as the last element is ready, nothing else is ever picked.
\<close>

locale last_ready_scheduler =
  fixes queue :: "'s \<Rightarrow> 't list"
    and ready :: "'s \<Rightarrow> 't \<Rightarrow> bool"
    and pick :: "'s \<Rightarrow> 't option"
    and ok :: "'s \<Rightarrow> bool"
  assumes pick_law: "ok s \<Longrightarrow> pick s = List.find (ready s) (rev (queue s))"
begin

lemma picked_ready: "ok s \<Longrightarrow> pick s = Some t \<Longrightarrow> ready s t \<and> t \<in> set (queue s)"
  by (auto simp: pick_law find_Some_iff) (metis nth_mem set_rev length_rev)

lemma work_conserving: "ok s \<Longrightarrow> pick s = None \<longleftrightarrow> (\<forall>t\<in>set (queue s). \<not> ready s t)"
  by (auto simp: pick_law find_None_iff)

lemma last_wins: "ok s \<Longrightarrow> queue s = ts @ [t] \<Longrightarrow> ready s t \<Longrightarrow> pick s = Some t"
  by (simp add: pick_law)

lemma first_last: "ok s \<Longrightarrow> queue s = i # ts \<Longrightarrow> pick s = Some i \<Longrightarrow> i \<notin> set ts \<Longrightarrow> \<forall>t\<in>set ts. \<not> ready s t"
  using find_only_last[of "ready s" "rev ts" i] by (simp add: pick_law)

end

definition runq :: "CpuInfo \<Rightarrow> nat list" where
  "runq c = map the (take (unat (cnt (cpu_rq c))) (rq (cpu_rq c)))"

abbreviation mycpu :: "'a task_state_scheme \<Rightarrow> CpuInfo" where
  "mycpu s \<equiv> cpus s ! hw_cpu s"

definition runnable :: "'a task_state_scheme \<Rightarrow> nat \<Rightarrow> bool" where
  "runnable s t \<longleftrightarrow> state (tasks s ! t) = TASK_RUNNABLE"

definition sched_ok :: "'a task_state_scheme \<Rightarrow> bool" where
  "sched_ok s \<longleftrightarrow> hw_cpu s < length (cpus s) \<and> length (rq (cpu_rq (mycpu s))) = NR_TASKS \<and>
     unat (cnt (cpu_rq (mycpu s))) \<le> NR_TASKS \<and>
     (\<forall>i<unat (cnt (cpu_rq (mycpu s))). rq (cpu_rq (mycpu s)) ! i \<noteq> None) \<and>
     (\<forall>t\<in>set (runq (mycpu s)). t < length (tasks s) \<and> pgdir (tasks s ! t) \<noteq> None)"

definition dispatched :: "nat \<Rightarrow> 'a task_state_scheme \<Rightarrow> 'a task_state_scheme" where
  "dispatched t s = lcr3 (page2pa (the (pgdir (tasks s ! t))))
     (s\<lparr>cpus := (cpus s)[hw_cpu s := (mycpu s)\<lparr>cpu_task := Some t\<rparr>],
        tasks := (tasks s)[t := (tasks s ! t)\<lparr>state := TASK_RUNNING, remind_ticks := TIME_QUANT\<rparr>]\<rparr>)"

lemma sched_okD:
  assumes "sched_ok s"
  shows "hw_cpu s < length (cpus s)" "unat (cnt (cpu_rq (mycpu s))) \<le> length (rq (cpu_rq (mycpu s)))"
    "length (runq (mycpu s)) = unat (cnt (cpu_rq (mycpu s)))"
    "unat (cnt (cpu_rq (mycpu s))) \<le> 32"
    "\<And>i. i < unat (cnt (cpu_rq (mycpu s))) \<Longrightarrow> rq (cpu_rq (mycpu s)) ! i = Some (runq (mycpu s) ! i)"
    "\<And>t. t \<in> set (runq (mycpu s)) \<Longrightarrow> t < length (tasks s)"
    "\<And>t. t \<in> set (runq (mycpu s)) \<Longrightarrow> \<exists>d. pgdir (tasks s ! t) = Some d"
  using assms by (auto simp: sched_ok_def runq_def NR_TASKS_def)

lemma sched_scan_find:
  assumes "n \<le> length q" "\<And>i. i < n \<Longrightarrow> q ! i = Some (ts ! i)" "n \<le> length ts" "\<And>i. i < n \<Longrightarrow> ts ! i < length T"
  shows "\<exists>r. sched_scan T q n = Inr r \<and>
    (case r of None \<Rightarrow> List.find (\<lambda>t. state (T ! t) = TASK_RUNNABLE) (rev (take n ts)) = None
     | Some i \<Rightarrow> i < n \<and> List.find (\<lambda>t. state (T ! t) = TASK_RUNNABLE) (rev (take n ts)) = Some (ts ! i))"
  using assms
proof (induction n)
  case (Suc n)
  have tk: "rev (take (Suc n) ts) = ts ! n # rev (take n ts)"
    using Suc.prems(3) by (simp add: take_Suc_conv_app_nth)
  have IH: "\<exists>r. sched_scan T q n = Inr r \<and>
    (case r of None \<Rightarrow> List.find (\<lambda>t. state (T ! t) = TASK_RUNNABLE) (rev (take n ts)) = None
     | Some i \<Rightarrow> i < n \<and> List.find (\<lambda>t. state (T ! t) = TASK_RUNNABLE) (rev (take n ts)) = Some (ts ! i))"
    by (rule Suc.IH) (use Suc.prems in auto)
  show ?case
    using Suc.prems(1) Suc.prems(2)[of n] Suc.prems(4)[of n] IH
    by (auto simp: tk nonnull_def split: option.splits)
qed simp

lemma sched_yield_spec:
  assumes "sched_ok s"
  shows "sched_yield s = (case List.find (runnable s) (rev (runq (mycpu s))) of
      None \<Rightarrow> Inl Fault
    | Some t \<Rightarrow> Inr (Resume (tf (tasks s ! t)) (dispatched t s)))"
proof -
  note ok = sched_okD[OF assms]
  let ?c = "mycpu s"
  let ?n = "unat (cnt (cpu_rq ?c))"
  have "sched_scan (tasks s) (rq (cpu_rq ?c)) (if sint (cnt (cpu_rq ?c) - 1) < 0 then 0 else ?n) =
      sched_scan (tasks s) (rq (cpu_rq ?c)) ?n"
  proof (cases "?n = 0")
    case False
    then have "unat (cnt (cpu_rq ?c) - 1) < 2147483648"
      using ok(4) by (simp add: unat_sub_if')
    then show ?thesis by (simp add: sint_eq_int_unat)
  qed simp
  moreover obtain r where r: "sched_scan (tasks s) (rq (cpu_rq ?c)) ?n = Inr r"
    "case r of None \<Rightarrow> List.find (runnable s) (rev (runq ?c)) = None
     | Some i \<Rightarrow> i < ?n \<and> List.find (runnable s) (rev (runq ?c)) = Some (runq ?c ! i)"
  proof -
    have e: "runnable s = (\<lambda>t. state (tasks s ! t) = TASK_RUNNABLE)" "take ?n (runq ?c) = runq ?c"
      using ok(3) by (auto simp: runnable_def)
    have "runq ?c ! i < length (tasks s)" if "i < ?n" for i
      using ok(6)[OF nth_mem, of i] that ok(3) by simp
    from sched_scan_find[OF ok(2) ok(5) _ this] show thesis
      using ok(3) that unfolding e by auto
  qed
  ultimately have scan: "sched_scan (tasks s) (rq (cpu_rq ?c)) (if sint (cnt (cpu_rq ?c) - 1) < 0 then 0 else ?n) = Inr r"
    by simp
  show ?thesis
  proof (cases r)
    case None
    with r scan ok(1) show ?thesis
      by (simp add: sched_yield_def thiscpu_def nonnull_def)
  next
    case (Some i)
    then have i: "i < ?n" "List.find (runnable s) (rev (runq ?c)) = Some (runq ?c ! i)"
      using r(2) by auto
    have t: "runq ?c ! i < length (tasks s)"
      using i(1) ok(3,6) by (metis nth_mem)
    obtain d where d: "pgdir (tasks s ! (runq ?c ! i)) = Some d"
      using i(1) ok(3,7) by (metis nth_mem)
    show ?thesis
      using i ok(1,2) ok(5)[OF i(1)] scan Some t d
      by (simp add: sched_yield_def thiscpu_def nonnull_def set_cpu_def set_task_def dispatched_def)
  qed
qed

definition picked :: "'a task_state_scheme \<Rightarrow> nat option" where
  "picked s = (case (sched_yield s :: (unit, 'a task_state_scheme) flow result) of Inr (Resume f s') \<Rightarrow> cpu_task (mycpu s') | _ \<Rightarrow> None)"

lemma dispatched_fields [simp]:
  "hw_cpu (dispatched t s) = hw_cpu s" "jiffies (dispatched t s) = jiffies s" "length (tasks (dispatched t s)) = length (tasks s)"
  "tasks (dispatched t s) = (tasks s)[t := (tasks s ! t)\<lparr>state := TASK_RUNNING, remind_ticks := TIME_QUANT\<rparr>]"
  "cpus (dispatched t s) = (cpus s)[hw_cpu s := (mycpu s)\<lparr>cpu_task := Some t\<rparr>]"
  by (simp_all add: dispatched_def lcr3_def)

interpretation sched: last_ready_scheduler "\<lambda>s. runq (mycpu s)" runnable picked sched_ok
  by unfold_locales
    (auto simp: picked_def sched_yield_spec sched_okD(1) split: option.split)

end
