(* ===== verification/Sched.thy ===== *)
theory Sched
  imports Task
begin

text \<open>
  What the scheduler and the timer interrupt do over time: which task runs next, when a
  sleeping task wakes, and that the downward search of \<open>sched_yield\<close> starves the tasks in front
  of the queue.
\<close>

section \<open>One timer interrupt\<close>

definition tick_task :: "Task \<Rightarrow> Task" where
  "tick_task T = (if state T = TASK_SLEEP then
     (if remind_ticks T = 1 then T\<lparr>remind_ticks := 0, state := TASK_RUNNABLE\<rparr>
      else T\<lparr>remind_ticks := remind_ticks T - 1\<rparr>) else T)"

definition tick_tasks :: "nat list \<Rightarrow> Task list \<Rightarrow> Task list" where
  "tick_tasks q ts = map (\<lambda>t. if t \<in> set q then tick_task (ts ! t) else ts ! t) [0..<length ts]"

lemma tick_tasks_nth [simp]:
  "t < length ts \<Longrightarrow> tick_tasks q ts ! t = (if t \<in> set q then tick_task (ts ! t) else ts ! t)"
  "length (tick_tasks q ts) = length ts"
  by (simp_all add: tick_tasks_def)

lemma tick_tasks_snoc:
  assumes "t \<notin> set q" "t < length ts"
  shows "tick_tasks (q @ [t]) ts = (tick_tasks q ts)[t := tick_task (ts ! t)]"
  using assms by (intro nth_equalityI) (auto simp: nth_list_update)

text \<open>The processor runs a task of its own queue, whose entries are different tasks.\<close>

definition running :: "'a task_state_scheme \<Rightarrow> nat \<Rightarrow> bool" where
  "running s t \<longleftrightarrow> sched_ok s \<and> distinct (runq (mycpu s)) \<and> cpu_task (mycpu s) = Some t \<and>
     t \<in> set (runq (mycpu s)) \<and> state (tasks s ! t) = TASK_RUNNING"

lemma tick_entry_step:
  assumes "sched_ok s" "i < unat (cnt (cpu_rq (mycpu s)))" "distinct (runq (mycpu s))"
  shows "tick_entry i (s\<lparr>tasks := tick_tasks (take i (runq (mycpu s))) (tasks s)\<rparr>) =
    Inr (s\<lparr>tasks := tick_tasks (take (Suc i) (runq (mycpu s))) (tasks s)\<rparr>)"
proof -
  note ok = sched_okD[OF assms(1)]
  let ?q = "runq (mycpu s)"
  let ?t = "?q ! i"
  have i: "i < length ?q" using assms(2) ok(3) by simp
  have t: "?t < length (tasks s)" using ok(6) i by simp
  have new: "?t \<notin> set (take i ?q)"
    using assms(3) i by (auto simp: in_set_conv_nth nth_eq_iff_index_eq)
  have tk: "take (Suc i) ?q = take i ?q @ [?t]" using i by (simp add: take_Suc_conv_app_nth)
  have rw: "remind_ticks T - 1 = 0 \<longleftrightarrow> remind_ticks T = 1" for T :: Task
    by (metis diff_0_right diff_eq_diff_eq diff_self)
  have same: "(tick_tasks (take i ?q) (tasks s))[?t := tasks s ! ?t] = tick_tasks (take i ?q) (tasks s)"
    using t new by (intro list_update_same_conv[THEN iffD2]) simp_all
  show ?thesis
    unfolding tk tick_tasks_snoc[OF new t]
    using ok(1,2) ok(5)[OF assms(2)] assms(2) t new same
    by (auto simp: tick_entry_def thiscpu_def nonnull_def set_task_def tick_task_def Let_def rw)
qed

lemma tick_loop:
  assumes "sched_ok s" "distinct (runq (mycpu s))"
  shows "kfor 0 (unat (cnt (cpu_rq (mycpu s)))) tick_entry s = Inr (s\<lparr>tasks := tick_tasks (runq (mycpu s)) (tasks s)\<rparr>)"
proof -
  let ?n = "unat (cnt (cpu_rq (mycpu s)))" and ?P = "\<lambda>i s'. s' = s\<lparr>tasks := tick_tasks (take i (runq (mycpu s))) (tasks s)\<rparr>"
  have "tick_tasks [] (tasks s) = tasks s" by (simp add: tick_tasks_def map_nth)
  then have "\<exists>s'. kfor 0 ?n tick_entry s = Inr s' \<and> ?P (0 + ?n) s'"
    by (intro kfor_inv) (use tick_entry_step[OF assms(1) _ assms(2)] in auto)
  then show ?thesis using sched_okD(3)[OF assms(1)] by simp
qed

text \<open>The state after the bookkeeping of \<open>timer_handler\<close>, before a possible \<open>sched_yield\<close>.\<close>

definition ticked :: "kernel_image \<Rightarrow> nat \<Rightarrow> 'a task_state_scheme \<Rightarrow> 'a task_state_scheme" where
  "ticked img t s =
     (let ts = tick_tasks (runq (mycpu s)) (tasks s); T = (ts ! t)\<lparr>remind_ticks := remind_ticks (ts ! t) - 1\<rparr> in
      s\<lparr>jiffies := jiffies s + 1, io := lapic_eoi (lapic img) (io s),
        tasks := ts[t := if remind_ticks T = 0 then T\<lparr>state := TASK_RUNNABLE\<rparr> else T]\<rparr>)"

lemma timer_handler_running:
  assumes "running s t"
  shows "timer_handler img s = (if remind_ticks (tasks s ! t) = 1 then sched_yield (ticked img t s)
     else Inr (Return () (ticked img t s)))"
proof -
  note R = assms[unfolded running_def]
  have t: "t < length (tasks s)" "hw_cpu s < length (cpus s)"
    using R sched_okD(1,6) by blast+
  let ?s = "s\<lparr>jiffies := jiffies s + 1, io := lapic_eoi (lapic img) (io s)\<rparr>"
  have ok: "sched_ok ?s" "distinct (runq (mycpu ?s))"
    using R by (simp_all add: sched_ok_def)
  have rw: "w - 1 = 0 \<longleftrightarrow> w = 1" for w :: u32
    by (metis diff_0_right diff_eq_diff_eq diff_self)
  show ?thesis
    using R t tick_loop[OF ok]
    by (simp add: timer_handler_def thiscpu_def Let_def set_task_def ticked_def tick_task_def rw)
qed

lemma ticked_nth:
  assumes "running s t" "u < length (tasks s)"
  shows "tasks (ticked img t s) ! u = (if u = t
     then (tasks s ! t)\<lparr>remind_ticks := remind_ticks (tasks s ! t) - 1,
       state := if remind_ticks (tasks s ! t) = 1 then TASK_RUNNABLE else TASK_RUNNING\<rparr>
     else if u \<in> set (runq (mycpu s)) then tick_task (tasks s ! u) else tasks s ! u)"
proof -
  have rw: "w - 1 = 0 \<longleftrightarrow> w = 1" for w :: u32
    by (metis diff_0_right diff_eq_diff_eq diff_self)
  show ?thesis
    using assms by (simp add: ticked_def Let_def running_def tick_task_def nth_list_update rw)
qed

lemma ticked_fields [simp]:
  "cpus (ticked img t s) = cpus s" "length (tasks (ticked img t s)) = length (tasks s)" "hw_cpu (ticked img t s) = hw_cpu s"
  "jiffies (ticked img t s) = jiffies s + 1"
  by (simp_all add: ticked_def Let_def)

lemma ticked_sched:
  assumes "running s t"
  shows "sched_ok (ticked img t s)"
proof -
  have "pgdir (tasks (ticked img t s) ! u) = pgdir (tasks s ! u)" if "u < length (tasks s)" for u
    using ticked_nth[OF assms that] by (simp add: tick_task_def)
  moreover have "sched_ok s" using assms by (simp add: running_def)
  ultimately show ?thesis
    by (auto simp: sched_ok_def)
qed

text \<open>One interrupt leads from a running task to a running task, and returns.\<close>

definition flow_state :: "('v, 's) flow \<Rightarrow> 's" where
  "flow_state f = (case f of Return v s \<Rightarrow> s | Resume r s \<Rightarrow> s)"

lemma timer_step:
  assumes "running s t"
  obtains f u where "timer_handler img s = Inr f" "running (flow_state f) u"
    "runq (mycpu (flow_state f)) = runq (mycpu s)" "hw_cpu (flow_state f) = hw_cpu s"
    "length (tasks (flow_state f)) = length (tasks s)"
    "\<forall>v<length (tasks s). v \<noteq> u \<longrightarrow> tasks (flow_state f) ! v = tasks (ticked img t s) ! v"
    "u = t \<or> runnable (ticked img t s) u"
    "(\<exists>ts. runq (mycpu s) = ts @ [t]) \<longrightarrow> u = t"
proof (cases "remind_ticks (tasks s ! t) = 1")
  case False
  have len: "t < length (tasks s)" using assms sched_okD(6) by (auto simp: running_def)
  have "running (ticked img t s) t"
    using assms ticked_sched[OF assms, of img] ticked_nth[OF assms len, of img] False by (simp add: running_def)
  with False show thesis
    by (intro that[of "Return () (ticked img t s)" t])
      (simp_all add: timer_handler_running[OF assms] flow_state_def)
next
  case True
  let ?s = "ticked img t s"
  note S = ticked_sched[OF assms, of img]
  have len: "t < length (tasks s)" "t \<in> set (runq (mycpu s))" "distinct (runq (mycpu s))"
    using assms sched_okD(6) by (auto simp: running_def)
  have rt: "runnable ?s t"
    using ticked_nth[OF assms len(1), of img] True by (simp add: runnable_def)
  obtain u where u: "picked ?s = Some u"
    using sched.work_conserving[OF S] rt len(2) by (cases "picked ?s") auto
  then have f: "List.find (runnable ?s) (rev (runq (mycpu ?s))) = Some u"
    using sched.pick_law[OF S] by simp
  have ur: "runnable ?s u" "u \<in> set (runq (mycpu s))"
    using sched.picked_ready[OF S u] by auto
  then have ul: "u < length (tasks s)" using assms sched_okD(6) by (auto simp: running_def)
  have y: "timer_handler img s = Inr (Resume (tf (tasks ?s ! u)) (dispatched u ?s))"
    using timer_handler_running[OF assms, of img] True sched_yield_spec[OF S] f by simp
  have h: "hw_cpu s < length (cpus ?s)" using sched_okD(1)[OF S] by simp
  have c: "mycpu (dispatched u ?s) = (mycpu s)\<lparr>cpu_task := Some u\<rparr>"
    using h by simp
  then have q: "runq (mycpu (dispatched u ?s)) = runq (mycpu s)" by (simp add: runq_def)
  have "sched_ok (dispatched u ?s)"
    using S c h ul unfolding sched_ok_def q by (auto simp: nth_list_update)
  then have "running (dispatched u ?s) u"
    using len ur ul c q by (simp add: running_def)
  moreover have "u = t" if "\<exists>ts. runq (mycpu s) = ts @ [t]"
    using sched.last_wins[OF S] rt that u by auto
  ultimately show thesis
    using ur(1) h by (intro that[OF y]) (auto simp: flow_state_def runq_def)
qed

fun timer_run :: "kernel_image \<Rightarrow> nat \<Rightarrow> 'a task_state_scheme \<Rightarrow> 'a task_state_scheme result" where
  "timer_run img 0 s = Inr s"
| "timer_run img (Suc n) s = rbind (timer_handler img s) (\<lambda>f. timer_run img n (flow_state f))"

section \<open>Properties\<close>


definition one_cpu :: "TaskState \<Rightarrow> u32 \<Rightarrow> task_state" where
  "one_cpu st tk = (let T = zero_task\<lparr>pgdir := Some 1\<rparr> in
     mem_state.extend boot_mem (task_state.fields
       [T\<lparr>state := TASK_RUNNABLE\<rparr>, T\<lparr>state := st, remind_ticks := tk, task_id := 1\<rparr>,
        T\<lparr>state := TASK_RUNNING, remind_ticks := TIME_QUANT, task_id := 2\<rparr>] zero_lock
       [\<lparr>cpu_id = 0, cpu_status = 0, cpu_task = Some 2,
         cpu_rq = \<lparr>cnt = 3, rq = [Some 0, Some 1, Some 2] @ replicate 29 None\<rparr>, cpu_tss = zero_tss\<rparr>]
       1 0 0 gdt0 0 0 0 0 0 (\<lambda>_. 0) (\<lambda>_. 0) (\<lambda>_. 0) (\<lambda>_. False) pic0 []))"

lemma all_less_3: "(\<forall>i<3. P i) \<longleftrightarrow> P 0 \<and> P 1 \<and> P (2::nat)"
  by (auto simp: less_Suc_eq numeral_3_eq_3 numeral_2_eq_2)

lemma one_cpu_fields [simp]:
  "hw_cpu (one_cpu st tk) = 0" "length (tasks (one_cpu st tk)) = 3"
  "cpus (one_cpu st tk) = [\<lparr>cpu_id = 0, cpu_status = 0, cpu_task = Some 2,
     cpu_rq = \<lparr>cnt = 3, rq = [Some 0, Some 1, Some 2] @ replicate 29 None\<rparr>, cpu_tss = zero_tss\<rparr>]"
  "tasks (one_cpu st tk) ! 0 = zero_task\<lparr>pgdir := Some 1, state := TASK_RUNNABLE\<rparr>"
  "tasks (one_cpu st tk) ! Suc 0 = zero_task\<lparr>pgdir := Some 1, state := st, remind_ticks := tk, task_id := 1\<rparr>"
  "tasks (one_cpu st tk) ! 2 = zero_task\<lparr>pgdir := Some 1, state := TASK_RUNNING, remind_ticks := TIME_QUANT, task_id := 2\<rparr>"
  by (simp_all add: one_cpu_def mem_state.defs task_state.defs boot_mem_def Let_def)

lemma one_cpu_ok:
  "runq (mycpu (one_cpu st tk)) = [0, 1, 2]" "sched_ok (one_cpu st tk)" "running (one_cpu st tk) 2"
proof -
  show q: "runq (mycpu (one_cpu st tk)) = [0, 1, 2]"
    by (simp add: runq_def)
  show ok: "sched_ok (one_cpu st tk)"
    unfolding sched_ok_def q by (simp add: NR_TASKS_def all_less_3)
  show "running (one_cpu st tk) 2"
    unfolding running_def q using ok by simp
qed


text \<open>
  C19. A task sleeps for exactly the requested number of timer interrupts. While its processor
  takes interrupts (each returns, whichever tasks run meanwhile), a task with \<open>w\<close> remaining
  ticks stays asleep, its counter going down by one each time, and at the interrupt number
  \<open>w\<close> it is runnable again (or already running, if the scheduler picked it at once). The
  count is on 32 bits: for \<open>w = 0\<close> the wait takes two to the power of 32 interrupts.
\<close>

theorem sleep_wakes_on_time:
  assumes "running s c" "t \<in> set (runq (mycpu s))" "state (tasks s ! t) = TASK_SLEEP" "remind_ticks (tasks s ! t) = w"
    and "k \<le> unat (w - 1) + 1"
  shows "\<exists>s'. timer_run img k s = Inr s' \<and> (\<exists>c'. running s' c') \<and>
    (if k = unat (w - 1) + 1 then state (tasks s' ! t) \<in> {TASK_RUNNABLE, TASK_RUNNING}
     else state (tasks s' ! t) = TASK_SLEEP \<and> remind_ticks (tasks s' ! t) = w - of_nat k)"
  using assms
proof (induction k arbitrary: s c w)
  case 0
  then show ?case by auto
next
  case (Suc k)
  obtain f u where f: "timer_handler img s = Inr f" "running (flow_state f) u"
    "runq (mycpu (flow_state f)) = runq (mycpu s)"
    "\<forall>v<length (tasks s). v \<noteq> u \<longrightarrow> tasks (flow_state f) ! v = tasks (ticked img c s) ! v"
    "u = c \<or> runnable (ticked img c s) u"
    using timer_step[OF Suc.prems(1)] by metis
  have tc: "t \<noteq> c" "t < length (tasks s)"
    using Suc.prems(1,2,3) sched_okD(6) by (auto simp: running_def)
  have tt: "tasks (ticked img c s) ! t = tick_task (tasks s ! t)"
    using ticked_nth[OF Suc.prems(1) tc(2)] tc(1) Suc.prems(2) by simp
  show ?case
  proof (cases "w = 1")
    case True
    then have "k = 0" using Suc.prems(5) by simp
    moreover have "state (tasks (flow_state f) ! t) \<in> {TASK_RUNNABLE, TASK_RUNNING}"
    proof (cases "t = u")
      case True
      then show ?thesis using f(2) by (simp add: running_def)
    next
      case False
      then show ?thesis
        using f(4) tc(2) tt Suc.prems(3,4) \<open>w = 1\<close> by (simp add: tick_task_def)
    qed
    ultimately show ?thesis
      using f(1,2) True by auto
  next
    case False
    then have st: "state (tick_task (tasks s ! t)) = TASK_SLEEP" "remind_ticks (tick_task (tasks s ! t)) = w - 1"
      using Suc.prems(3,4) by (simp_all add: tick_task_def)
    then have "t \<noteq> u"
      using f(5) tc(1) tt by (auto simp: runnable_def)
    then have t1: "tasks (flow_state f) ! t = tick_task (tasks s ! t)"
      using f(4) tc(2) tt by simp
    have w1: "unat (w - 1) = Suc (unat (w - 1 - 1))"
    proof -
      have "w - 1 \<noteq> 0" using False by (metis diff_0_right diff_eq_diff_eq diff_self)
      then have "0 < unat (w - 1)" by (simp add: unat_gt_0)
      with unat_minus_one[of "w - 1"] show ?thesis using \<open>w - 1 \<noteq> 0\<close> by simp
    qed
    obtain s' where "timer_run img k (flow_state f) = Inr s' \<and> (\<exists>c'. running s' c') \<and>
      (if k = unat (w - 1 - 1) + 1 then state (tasks s' ! t) \<in> {TASK_RUNNABLE, TASK_RUNNING}
       else state (tasks s' ! t) = TASK_SLEEP \<and> remind_ticks (tasks s' ! t) = w - 1 - of_nat k)"
      using Suc.IH[OF f(2), of "w - 1"] f(3) t1 st Suc.prems(2,5) w1 by auto
    then show ?thesis
      using f(1) w1 by (intro exI[of _ s']) (auto simp: algebra_simps split: if_splits)
  qed
qed

theorem sleep_wakes_on_time_witness:
  "\<exists>s'. timer_run image0 5 (one_cpu TASK_SLEEP 5) = Inr s' \<and> state (tasks s' ! 1) \<in> {TASK_RUNNABLE, TASK_RUNNING}"
  using sleep_wakes_on_time[OF one_cpu_ok(3)[of TASK_SLEEP 5], of 1 5 5 image0] one_cpu_ok(1)[of TASK_SLEEP 5] by auto



section \<open>Removing a killed task from the run queues\<close>

text \<open>A run queue whose first \<open>cnt\<close> entries are tasks; \<open>ids\<close> are the process numbers it holds.\<close>

definition queue_wf :: "Task list \<Rightarrow> Runqueue \<Rightarrow> bool" where
  "queue_wf ts r \<longleftrightarrow> length (rq r) = NR_TASKS \<and> unat (cnt r) \<le> NR_TASKS \<and>
     (\<forall>j<unat (cnt r). \<exists>t<length ts. rq r ! j = Some t)"

definition ids :: "Task list \<Rightarrow> Runqueue \<Rightarrow> int list" where
  "ids ts r = map (\<lambda>j. task_id (ts ! the (rq r ! j))) [0..<unat (cnt r)]"

definition shifted :: "nat \<Rightarrow> nat \<Rightarrow> nat \<Rightarrow> 'a list \<Rightarrow> 'a list" where
  "shifted p n j q = map (\<lambda>k. if p \<le> k \<and> k < j \<and> k \<noteq> n - 1 then q ! (k + 1) else q ! k) [0..<length q]"

lemma shifted_step:
  assumes "j < length q"
  shows "shifted p n (Suc j) q = (if p \<le> j \<and> j \<noteq> n - 1 then (shifted p n j q)[j := q ! (j + 1)] else shifted p n j q)"
  using assms by (intro nth_equalityI) (auto simp: shifted_def nth_list_update less_Suc_eq)

lemma shifted_id: "j \<le> p \<Longrightarrow> shifted p n j q = q"
  by (intro nth_equalityI) (auto simp: shifted_def)

lemma kill_scan:
  assumes "queue_wf ts r"
  shows "pid \<notin> set (ids ts r) \<Longrightarrow>
      kfor 0 (unat (cnt r)) (kill_shift pid ts (cnt r)) (False, rq r) = Inr (False, rq r)"
    and "ids ts r = as @ pid # bs \<Longrightarrow> pid \<notin> set as \<Longrightarrow> pid \<notin> set bs \<Longrightarrow>
      kfor 0 (unat (cnt r)) (kill_shift pid ts (cnt r)) (False, rq r) =
        Inr (True, shifted (length as) (unat (cnt r)) (unat (cnt r)) (rq r))"
proof -
  let ?n = "unat (cnt r)"
  have n: "?n \<le> 32" "length (rq r) = 32" using assms by (auto simp: queue_wf_def NR_TASKS_def)
  have ent: "\<exists>t<length ts. rq r ! j = Some t \<and> task_id (ts ! t) = ids ts r ! j" if "j < ?n" for j
    using assms that by (fastforce simp: queue_wf_def ids_def)
  have wd: "(of_nat j :: u32) \<noteq> cnt r - 1 \<longleftrightarrow> j \<noteq> ?n - 1" if "j < ?n" for j
  proof -
    have "unat (of_nat j :: u32) = j" "unat (cnt r - 1) = ?n - 1"
      using that n(1) by (auto simp: unat_of_nat32 unat_sub_if')
    then show ?thesis by (metis word_unat_eq_iff)
  qed
  show "kfor 0 ?n (kill_shift pid ts (cnt r)) (False, rq r) = Inr (False, rq r)" if no: "pid \<notin> set (ids ts r)"
  proof -
    have "kill_shift pid ts (cnt r) j (False, rq r) = Inr (False, rq r)" if "j < ?n" for j
    proof -
      have "ids ts r ! j \<noteq> pid"
        using no nth_mem[of j "ids ts r"] that by (auto simp: ids_def)
      with ent[OF that] that n show ?thesis
        by (auto simp: kill_shift_def nonnull_def Let_def)
    qed
    then have "\<exists>x. kfor 0 ?n (kill_shift pid ts (cnt r)) (False, rq r) = Inr x \<and> x = (False, rq r)"
      by (intro kfor_inv) auto
    then show ?thesis by auto
  qed
  show "kfor 0 ?n (kill_shift pid ts (cnt r)) (False, rq r) = Inr (True, shifted (length as) ?n ?n (rq r))"
    if at: "ids ts r = as @ pid # bs" "pid \<notin> set as" "pid \<notin> set bs"
  proof -
    let ?p = "length as"
    have p: "?p < ?n" using arg_cong[OF at(1), of length] by (simp add: ids_def)
    have eq: "ids ts r ! j = pid \<longleftrightarrow> j = ?p" if "j < ?n" for j
    proof -
      have "?n = length as + Suc (length bs)" using arg_cong[OF at(1), of length] by (simp add: ids_def)
      then have "j > ?p \<Longrightarrow> bs ! (j - Suc ?p) \<in> set bs" using that by (intro nth_mem) simp
      then show ?thesis using at(2,3) nth_mem[of j as] unfolding at(1) by (auto simp: nth_append nth_Cons')
    qed
    let ?P = "\<lambda>j x. x = (?p < j, shifted ?p ?n j (rq r))"
    have "\<exists>x. kfor 0 ?n (kill_shift pid ts (cnt r)) (False, rq r) = Inr x \<and> ?P (0 + ?n) x"
    proof (rule kfor_inv)
      fix j x assume j: "j < 0 + ?n" "?P j x"
      have l: "j < length (rq r)" "length (shifted ?p ?n j (rq r)) = length (rq r)"
        using j(1) n by (auto simp: shifted_def)
      have "shifted ?p ?n j (rq r) ! j = rq r ! j" "j + 1 < 32 \<Longrightarrow> shifted ?p ?n j (rq r) ! (j + 1) = rq r ! (j + 1)"
        using l(1) n(2) by (simp_all add: shifted_def)
      then show "\<exists>y. kill_shift pid ts (cnt r) j x = Inr y \<and> ?P (Suc j) y"
        using j ent[of j] eq[of j] wd[of j] l n
        by (auto simp: kill_shift_def nonnull_def shifted_step Let_def)
    qed (simp add: shifted_id)
    then show ?thesis using p by auto
  qed
qed

lemma shifted_ids:
  assumes "queue_wf ts r" "ids ts r = as @ pid # bs"
  shows "ids ts (r\<lparr>rq := shifted (length as) (unat (cnt r)) (unat (cnt r)) (rq r)\<rparr>) = as @ bs @ [last (pid # bs)]"
    (is "ids ts ?r' = _")
proof (rule nth_equalityI)
  let ?n = "unat (cnt r)"
  have len: "?n = length as + Suc (length bs)" using arg_cong[OF assms(2), of length] by (simp add: ids_def)
  have lq: "?n \<le> length (rq r)" using assms(1) by (auto simp: queue_wf_def)
  show "length (ids ts ?r') = length (as @ bs @ [last (pid # bs)])"
    using len by (simp add: ids_def)
  fix k assume "k < length (ids ts ?r')"
  then have k: "k < ?n" by (simp add: ids_def)
  have id: "task_id (ts ! the (rq r ! j)) = (as @ pid # bs) ! j" if "j < ?n" for j
    using that unfolding assms(2)[symmetric] by (simp add: ids_def)
  have "ids ts ?r' ! k = (as @ pid # bs) ! (if length as \<le> k \<and> k \<noteq> ?n - 1 then k + 1 else k)"
    using k lq id[of k] id[of "k + 1"] by (auto simp: ids_def shifted_def)
  also have "\<dots> = (as @ bs @ [last (pid # bs)]) ! k"
    using k len by (auto simp: nth_append nth_Cons' last_conv_nth Suc_diff_le)
  finally show "ids ts ?r' ! k = (as @ bs @ [last (pid # bs)]) ! k" .
qed

lemma kill_cpus_scan:
  assumes "ncpu s \<le> length (cpus s)" "i < ncpu s" "\<forall>c\<in>set (cpus s). queue_wf (tasks s) (cpu_rq c)"
    and "\<forall>j<i. pid \<notin> set (ids (tasks s) (cpu_rq (cpus s ! j)))"
    and "ids (tasks s) (cpu_rq (cpus s ! i)) = as @ pid # bs" "pid \<notin> set as" "pid \<notin> set bs"
    and "j \<le> i" "m = ncpu s - j"
  shows "kill_cpus pid m j s = Inr (i + 1, s\<lparr>cpus := (cpus s)[i := (cpus s ! i)\<lparr>cpu_rq := (cpu_rq (cpus s ! i))\<lparr>
      rq := shifted (length as) (unat (cnt (cpu_rq (cpus s ! i)))) (unat (cnt (cpu_rq (cpus s ! i)))) (rq (cpu_rq (cpus s ! i)))\<rparr>\<rparr>]\<rparr>)"
  using assms(8,9)
proof (induction m arbitrary: j)
  case 0
  then show ?case using assms(2) by simp
next
  case (Suc m)
  have w: "queue_wf (tasks s) (cpu_rq (cpus s ! j))" "j < length (cpus s)"
    using assms(1-3) Suc.prems by auto
  have upd: "cpu_rq_update (rq_update (\<lambda>_. q)) c = c\<lparr>cpu_rq := (cpu_rq c)\<lparr>rq := q\<rparr>\<rparr>" for q and c :: CpuInfo
    by (cases c) simp
  show ?case
  proof (cases "j = i")
    case True
    then show ?thesis
      using w kill_scan(2)[OF w(1), of as pid bs] assms(5-7) by (simp add: set_cpu_def upd)
  next
    case False
    then have "pid \<notin> set (ids (tasks s) (cpu_rq (cpus s ! j)))"
      using Suc.prems(1) assms(4) by auto
    moreover have "s\<lparr>cpus := (cpus s)[j := cpus s ! j]\<rparr> = s" by simp
    moreover have "Suc j \<le> i" "m = ncpu s - Suc j" using False Suc.prems by auto
    ultimately show ?thesis
      using Suc.IH w kill_scan(1)[OF w(1)] by (simp add: set_cpu_def upd)
  qed
qed

lemma kill_dequeue_at:
  assumes "length (cpus s) = NCPU" "k \<le> NCPU" "\<forall>c\<in>set (cpus s). queue_wf (tasks s) (cpu_rq c)"
  shows "kill_dequeue k s = (if k = NCPU \<or> cnt (cpu_rq (cpus s ! k)) = 0 then Inl Fault
      else let c = cpus s ! k; n = cnt (cpu_rq c) - 1 in
        Inr (s\<lparr>cpus := (cpus s)[k := c\<lparr>cpu_rq := \<lparr>cnt = n, rq = (rq (cpu_rq c))[unat n := None]\<rparr>\<rparr>]\<rparr>))"
proof (cases "k = NCPU")
  case False
  then have l: "k < length (cpus s)" using assms(1,2) by simp
  then have w: "queue_wf (tasks s) (cpu_rq (cpus s ! k))" using assms(3) by simp
  let ?c = "cnt (cpu_rq (cpus s ! k))"
  have "unat (?c - 1) < 32 \<longleftrightarrow> ?c \<noteq> 0"
  proof (cases "?c = 0")
    case False
    then show ?thesis
      using w unat_minus_one[of ?c] by (auto simp: queue_wf_def NR_TASKS_def)
  qed (simp add: unsigned_minus_1_eq_mask mask_eq_exp_minus_1)
  then show ?thesis
    using l w False by (auto simp: kill_dequeue_def set_cpu_def queue_wf_def NR_TASKS_def aset_def Let_def)
qed (use assms(1) in \<open>simp add: kill_dequeue_def\<close>)


definition two_cpus :: task_state where
  "two_cpus = (let s = one_cpu TASK_RUNNABLE 0; c = mycpu s; e = \<lparr>cnt = 1, rq = Some 0 # replicate 31 None\<rparr> in
     s\<lparr>ncpu := 2, cpus := [c, c\<lparr>cpu_rq := e\<rparr>] @ replicate 6 (c\<lparr>cpu_rq := \<lparr>cnt = 0, rq = replicate 32 None\<rparr>\<rparr>)\<rparr>)"


end
