(* ===== verification/Task_Memory.thy ===== *)
theory Task_Memory
  imports Sched
begin

text \<open>
  The memory side of tasks: what \<open>task_create\<close> allocates, that \<open>task_free\<close> gives all of it back,
  and that \<open>sys_fork\<close> gives the child a copy of the parent's stack and registers.
\<close>

section \<open>Memory operations leave the task structures alone\<close>

lemma task_frameD:
  assumes "mem_frame s (s' :: 'a task_state_scheme)"
  shows "tasks s' = tasks s" "task_lock s' = task_lock s" "cpus s' = cpus s" "ncpu s' = ncpu s" "bootcpu s' = bootcpu s"
    "nextCPU s' = nextCPU s" "gdt s' = gdt s" "jiffies s' = jiffies s" "UTEXT_SZ s' = UTEXT_SZ s"
    "UDATA_SZ s' = UDATA_SZ s" "UBSS_SZ s' = UBSS_SZ s" "URODATA_SZ s' = URODATA_SZ s" "cr3 s' = cr3 s"
    "io s' = io s" "hw_cpu s' = hw_cpu s" "hw_frames s' = hw_frames s"
proof -
  have e: "s' = s\<lparr>pages := pages s', page_free_list := page_free_list s',
     num_free_pages := num_free_pages s', page_lock := page_lock s', phys := phys s', tlb := tlb s'\<rparr>"
    using assms by (simp add: mem_frame_def)
  show "tasks s' = tasks s" "task_lock s' = task_lock s" "cpus s' = cpus s" "ncpu s' = ncpu s" "bootcpu s' = bootcpu s"
    "nextCPU s' = nextCPU s" "gdt s' = gdt s" "jiffies s' = jiffies s" "UTEXT_SZ s' = UTEXT_SZ s"
    "UDATA_SZ s' = UDATA_SZ s" "UBSS_SZ s' = UBSS_SZ s" "URODATA_SZ s' = URODATA_SZ s" "cr3 s' = cr3 s"
    "io s' = io s" "hw_cpu s' = hw_cpu s" "hw_frames s' = hw_frames s"
    by (subst e, simp)+
qed

text \<open>And the other way round: the memory predicates do not read the task structures.\<close>

lemma mem_pred_cong:
  fixes s :: "'a mem_state_scheme" and s' :: "'b mem_state_scheme"
  assumes "pages s' = pages s" "phys s' = phys s" "npages s' = npages s" "page_free_list s' = page_free_list s"
    "num_free_pages s' = num_free_pages s" "page_lock s' = page_lock s"
  shows "alloc_inv s' \<longleftrightarrow> alloc_inv s" "free_pages s' = free_pages s" "table_at s' = table_at s" "pte_at s' = pte_at s"
    "mapped s' = mapped s" "vm_inv s' D R \<longleftrightarrow> vm_inv s D R" "is_table s' = is_table s"
proof -
  show fp: "free_pages s' = free_pages s" using assms by (simp add: free_pages_def)
  show al: "alloc_inv s' \<longleftrightarrow> alloc_inv s" using assms fp by (simp add: alloc_inv_def)
  show t: "table_at s' = table_at s" using assms by (intro ext) (simp add: table_at_def)
  show p: "pte_at s' = pte_at s" using assms t by (intro ext) (simp add: pte_at_def split: option.split)
  show m: "mapped s' = mapped s" using p by (intro ext) (simp add: mapped_def)
  show i: "is_table s' = is_table s" using t by (intro ext) (simp add: is_table_def)
  show "vm_inv s' D R \<longleftrightarrow> vm_inv s D R"
    using assms fp al t m i by (simp add: vm_inv_def tables_wf_def refs_wf_def mappings_def)
qed

section \<open>The user stack\<close>

definition ustack_vpns :: "nat set" where
  "ustack_vpns = {977908..<977918}"

lemma ustack_consts:
  "ustack_pages = 10" "unat (USTACKTOP - USR_STACK_SIZE) = 4005511168"
  by (simp_all add: ustack_pages_def USR_STACK_SIZE_def layout_defs)

lemma ustack_va:
  assumes "i \<le> 10"
  shows "unat (USTACKTOP - USR_STACK_SIZE + of_nat i * PGSIZE) = 4005511168 + i * 4096"
    "vpn (USTACKTOP - USR_STACK_SIZE + of_nat i * PGSIZE) = 977908 + i"
    "i < 10 \<Longrightarrow> unat (PDX (USTACKTOP - USR_STACK_SIZE + of_nat i * PGSIZE)) = 954"
proof -
  have "unat (of_nat i * PGSIZE :: u32) = i * 4096"
    using assms by (simp add: PGSIZE_def unat_word_ariths unat_of_nat take_bit_nat_eq_self)
  then show u: "unat (USTACKTOP - USR_STACK_SIZE + of_nat i * PGSIZE) = 4005511168 + i * 4096"
    using assms ustack_consts(2) by (simp add: unat_word_ariths)
  then show v: "vpn (USTACKTOP - USR_STACK_SIZE + of_nat i * PGSIZE) = 977908 + i"
    by (simp add: unat_PGNUM)
  show "unat (PDX (USTACKTOP - USR_STACK_SIZE + of_nat i * PGSIZE)) = 954" if "i < 10"
    using v that by (simp flip: vpn_parts)
qed

lemma ustack_region: "region ustack_vpns" "m \<in> ustack_vpns \<Longrightarrow> 256 \<le> m \<and> m < 978944"
  by (auto simp: region_def ustack_vpns_def slot_def)

lemma vm_inv_subset:
  assumes "vm_inv s D R" "D' \<subseteq> D"
  shows "vm_inv s D' R"
proof -
  have inv: "tables_wf s D" "refs_wf s D R" "finite D" "region R" "alloc_inv s" using assms(1) by (auto simp: vm_inv_def)
  have it: "is_table s D' u \<Longrightarrow> is_table s D u" for u using assms(2) by (auto simp: is_table_def)
  have "tables_wf s D'"
    using inv(1) assms(2) it unfolding tables_wf_def by (meson subsetD)
  moreover have "card (mappings s D' R q) \<le> unat (pp_ref (pages s ! q))" for q
    using refs_wfD(5)[OF inv(2), of q] card_mono[OF finite_mappings[OF inv(3,4)], of "mappings s D' R q" s q] assms(2)
    by (force simp: mappings_def)
  ultimately show ?thesis
    using inv assms(2) it finite_subset[OF assms(2) inv(3)] refs_wfD(1-4)[OF inv(2)]
    unfolding vm_inv_def refs_wf_def by (meson subsetD)
qed

text \<open>A page taken from the free list can be mapped, and taking it changes no address space.\<close>

lemma page_alloc_vm:
  assumes "vm_inv s D R" "free_pages s = p # ps"
  obtains s1 where "page_alloc ALLOC_ZERO s = Inr (Some p, s1)" "mem_frame s s1" "vm_inv s1 D R" "mappable s1 D p"
    "free_pages s1 = ps" "phys s1 p = (\<lambda>_. 0)" "pp_ref (pages s1 ! p) = 0"
    "\<forall>x. x \<noteq> p \<longrightarrow> pages s1 ! x = pages s ! x \<and> phys s1 x = phys s x"
    "\<forall>e\<in>D. \<forall>j. table_at s1 e j = table_at s e j"
    "\<forall>e\<in>D. \<forall>m. slot (m div 1024) \<longrightarrow> pte_at s1 e m = pte_at s e m"
    "\<forall>u. is_table s1 D u \<longleftrightarrow> is_table s D u"
proof -
  have inv: "alloc_inv s" "tables_wf s D" "refs_wf s D R" "region R" "finite D"
    using assms(1) by (auto simp: vm_inv_def)
  have pin: "p \<in> set (free_pages s)" using assms(2) by simp
  obtain s1 where s1: "page_alloc ALLOC_ZERO s = Inr (Some p, s1)"
    using page_alloc_cons[OF inv(1) assms(2), of ALLOC_ZERO] by metis
  note A = alloc_dir[OF inv(1,2) pin s1] and E = alloc_dir_entries[OF inv(1,2) pin s1]
  have "tables_wf s1 (insert p D)"
    using filling_start[OF inv(1,2) pin s1] by (simp add: filling_def)
  then have "vm_inv s1 (insert p D) R"
    using A(4) E(3)[OF inv(4,3)] inv(4,5) by (simp add: vm_inv_def)
  then have vm: "vm_inv s1 D R" by (rule vm_inv_subset) auto
  have it: "is_table s1 D u \<longleftrightarrow> is_table s D u" for u
    using A(11) by (intro is_table_cong) auto
  have "\<not> is_table s D p" using inv(2) pin unfolding tables_wf_def by blast
  then have "mappable s1 D p"
    using A(5,7,8,9) it by (simp add: mappable_def)
  then show thesis
    using that[OF s1 A(2) vm] A(1,3,5,6,11) E(1) it assms(2) by auto
qed

text \<open>The state after the first pages of the stack of directory \<open>d\<close> were mapped to \<open>qs\<close>.\<close>

definition stack_inv :: "nat set \<Rightarrow> nat \<Rightarrow> 'a mem_state_scheme \<Rightarrow> nat list \<Rightarrow> 'a mem_state_scheme \<Rightarrow> bool" where
  "stack_inv D d s0 qs s \<longleftrightarrow>
     vm_inv s D ustack_vpns \<and> mem_frame s0 s \<and> distinct qs \<and> set qs \<subseteq> set (free_pages s0) \<and>
     (\<forall>k<length qs. pte_at s d (977908 + k) = page2pa (qs ! k) OR PTE_P OR (PTE_W OR PTE_U)) \<and>
     (\<forall>q\<in>set qs. pp_ref (pages s ! q) = 1 \<and> q \<notin> set (free_pages s)) \<and>
     free_pages s = drop (if qs = [] then 0 else length qs + 1) (free_pages s0) \<and>
     (\<forall>e\<in>D. \<forall>m. slot (m div 1024) \<longrightarrow> \<not> (e = d \<and> 977908 \<le> m \<and> m < 977908 + length qs) \<longrightarrow> pte_at s e m = pte_at s0 e m) \<and>
     (\<forall>e\<in>D. \<forall>j. (e, j) \<noteq> (d, 954) \<longrightarrow> table_at s e j = table_at s0 e j) \<and>
     (table_at s d 954 = None \<longleftrightarrow> qs = []) \<and>
     (\<forall>x. x \<notin> set (free_pages s0) \<longrightarrow> pp_ref (pages s ! x) = pp_ref (pages s0 ! x)) \<and>
     (\<forall>f. f \<notin> D \<longrightarrow> f \<notin> set (free_pages s0) \<longrightarrow> \<not> is_table s0 D f \<longrightarrow> phys s f = phys s0 f \<and> \<not> is_table s D f)"

lemma stack_inv_0:
  assumes "vm_inv s D ustack_vpns" "table_at s d 954 = None"
  shows "stack_inv D d s [] s"
  using assms by (simp add: stack_inv_def)

lemma stack_step:
  assumes "stack_inv D d s0 qs s" "d \<in> D" "length qs < 10" "length qs + 2 \<le> length (free_pages s0)"
    and "\<forall>m\<in>ustack_vpns. pte_at s0 d m = 0"
  obtains p s1 s2 where "page_alloc ALLOC_ZERO s = Inr (Some p, s1)"
    "page_insert d p (USTACKTOP - USR_STACK_SIZE + of_nat (length qs) * PGSIZE) (PTE_W OR PTE_U) s1 = Inr (0, s2)"
    "stack_inv D d s0 (qs @ [p]) s2"
proof -
  let ?i = "length qs"
  let ?va = "USTACKTOP - USR_STACK_SIZE + of_nat ?i * PGSIZE"
  note S = assms(1)[unfolded stack_inv_def]
  have S1: "vm_inv s D ustack_vpns" "mem_frame s0 s" "distinct qs" "set qs \<subseteq> set (free_pages s0)"
    and S2: "\<And>k. k < ?i \<Longrightarrow> pte_at s d (977908 + k) = page2pa (qs ! k) OR PTE_P OR (PTE_W OR PTE_U)"
    and S3: "\<And>q. q \<in> set qs \<Longrightarrow> pp_ref (pages s ! q) = 1 \<and> q \<notin> set (free_pages s)"
    and S4: "free_pages s = drop (if qs = [] then 0 else ?i + 1) (free_pages s0)"
    and S5: "\<And>e m. e \<in> D \<Longrightarrow> slot (m div 1024) \<Longrightarrow> \<not> (e = d \<and> 977908 \<le> m \<and> m < 977908 + ?i) \<Longrightarrow> pte_at s e m = pte_at s0 e m"
    and S6: "\<And>e j. e \<in> D \<Longrightarrow> (e, j) \<noteq> (d, 954) \<Longrightarrow> table_at s e j = table_at s0 e j"
    and S7: "table_at s d 954 = None \<longleftrightarrow> qs = []"
    and S8: "\<And>x. x \<notin> set (free_pages s0) \<Longrightarrow> pp_ref (pages s ! x) = pp_ref (pages s0 ! x)"
    and S9: "\<And>f. f \<notin> D \<Longrightarrow> f \<notin> set (free_pages s0) \<Longrightarrow> \<not> is_table s0 D f \<Longrightarrow> phys s f = phys s0 f \<and> \<not> is_table s D f"
    using S by blast+
  note va = ustack_va[of ?i]
  have "free_pages s \<noteq> []" using S4 assms(4) by auto
  then obtain p ps where fp: "free_pages s = p # ps" by (auto simp: neq_Nil_conv)
  obtain s1 where s1: "page_alloc ALLOC_ZERO s = Inr (Some p, s1)" "mem_frame s s1" "vm_inv s1 D ustack_vpns" "mappable s1 D p"
    "free_pages s1 = ps" "pp_ref (pages s1 ! p) = 0" 
    and o1: "\<And>x. x \<noteq> p \<Longrightarrow> pages s1 ! x = pages s ! x \<and> phys s1 x = phys s x"
    and t1: "\<And>e j. e \<in> D \<Longrightarrow> table_at s1 e j = table_at s e j"
    and p1: "\<And>e m. e \<in> D \<Longrightarrow> slot (m div 1024) \<Longrightarrow> pte_at s1 e m = pte_at s e m"
    and i1: "\<And>u. is_table s1 D u \<longleftrightarrow> is_table s D u"
    using page_alloc_vm[OF S1(1) fp] by metis
  have sub: "set (free_pages s) \<subseteq> set (free_pages s0)" using S4 by (auto dest: in_set_dropD)
  have p: "p \<notin> set ps" "p \<in> set (free_pages s0)" "p \<notin> set qs"
    using fp alloc_invD(4)[of s] S1(1) sub S3 by (auto simp: vm_inv_def)
  have st: "977908 + k \<in> ustack_vpns" "slot ((977908 + k) div 1024)" if "k < 10" for k
    using that by (auto simp: ustack_vpns_def slot_def)
  have "pte_at s1 d (977908 + ?i) = 0"
    using p1[OF assms(2) st(2)] S5[OF assms(2) st(2), of ?i] st(1) assms(3,5) by simp
  then have none: "mapped s1 d (vpn ?va) = None" using va(2) assms(3) by (simp add: mapped_def)
  have room: "table_at s1 d (unat (PDX ?va)) \<noteq> None \<or> free_pages s1 \<noteq> []"
  proof (cases "qs = []")
    case True
    then have "free_pages s0 = p # free_pages s1" using S4 fp s1(5) by simp
    then show ?thesis using assms(4) by auto
  qed (use S7 t1[OF assms(2), of 954] va(3) assms(3) in simp)
  have eqs: "vpn ?va = 977908 + ?i" "unat (PDX ?va) = 954" using va assms(3) by simp_all
  have perm: "unat (PTE_W OR PTE_U) < 4096" by (simp add: layout_defs)
  have vin: "vpn ?va \<in> ustack_vpns" using va(2) st(1) assms(3) by simp
  obtain t s2 where s2: "page_insert d p ?va (PTE_W OR PTE_U) s1 = Inr (0, s2)" "mem_frame s1 s2" "vm_inv s2 D ustack_vpns"
    and p2: "\<forall>e\<in>D. \<forall>m. slot (m div 1024) \<longrightarrow>
       pte_at s2 e m = (if e = d \<and> m = 977908 + ?i then page2pa p OR PTE_P OR (PTE_W OR PTE_U) else pte_at s1 e m)"
    and t2: "\<forall>e\<in>D. \<forall>j. table_at s2 e j = (if e = d \<and> j = 954 then Some t else table_at s1 e j)"
    and f2: "table_at s1 d 954 = Some t \<and> free_pages s2 = free_pages s1 \<or> table_at s1 d 954 = None \<and> free_pages s1 = t # free_pages s2"
    and r2: "\<forall>x. x \<notin> set (free_pages s1) \<longrightarrow> pp_ref (pages s2 ! x) = (if x = p then pp_ref (pages s1 ! p) + 1 else pp_ref (pages s1 ! x))"
    and k2: "frames_kept D s1 s2"
    using page_insert_fresh[OF s1(3) assms(2) vin s1(4) perm room none, unfolded eqs] .
  have fs2: "free_pages s2 = drop (?i + 2) (free_pages s0)"
  proof -
    have "free_pages s1 = tl (free_pages s)" using fp s1(5) by simp
    moreover have "free_pages s2 = (if qs = [] then tl (free_pages s1) else free_pages s1)"
      using f2 S7 t1[OF assms(2), of 954] by auto
    ultimately show ?thesis by (simp add: S4 drop_Suc tl_drop)
  qed
  have sub2: "set (free_pages s2) \<subseteq> set ps" using k2 s1(5) by (simp add: frames_kept_def)
  have "stack_inv D d s0 (qs @ [p]) s2"
    unfolding stack_inv_def
  proof (intro conjI allI ballI impI)
    show "mem_frame s0 s2" using mem_frame_trans[OF S1(2) mem_frame_trans[OF s1(2) s2(2)]] .
    show "vm_inv s2 D ustack_vpns" "distinct (qs @ [p])" "set (qs @ [p]) \<subseteq> set (free_pages s0)"
      using s2(3) S1(3,4) p by auto
    show "pte_at s2 d (977908 + k) = page2pa ((qs @ [p]) ! k) OR PTE_P OR (PTE_W OR PTE_U)" if "k < length (qs @ [p])" for k
      using that p2 p1[OF assms(2) st(2)] S2[of k] assms(2,3) st(2)[of k] by (auto simp: nth_append less_Suc_eq)
    show "pp_ref (pages s2 ! q) = 1" "q \<notin> set (free_pages s2)" if "q \<in> set (qs @ [p])" for q
      using that r2 s1(5,6) S3[of q] o1[of q] p(1) sub2 fp by auto
    show "free_pages s2 = drop (if qs @ [p] = [] then 0 else length (qs @ [p]) + 1) (free_pages s0)"
      using fs2 by simp
    show "pte_at s2 e m = pte_at s0 e m"
      if "e \<in> D" "slot (m div 1024)" "\<not> (e = d \<and> 977908 \<le> m \<and> m < 977908 + length (qs @ [p]))" for e m
      using that p2 p1[of e m] S5[of e m] by auto
    show "table_at s2 e j = table_at s0 e j" if "e \<in> D" "(e, j) \<noteq> (d, 954)" for e j
      using that t2 t1[of e j] S6[of e j] by auto
    show "table_at s2 d 954 = None \<longleftrightarrow> qs @ [p] = []"
      using t2 assms(2) by auto
    show "pp_ref (pages s2 ! x) = pp_ref (pages s0 ! x)" if "x \<notin> set (free_pages s0)" for x
      using that sub r2 s1(5) fp o1[of x] S8[OF that] by auto
    show "phys s2 f = phys s0 f" "\<not> is_table s2 D f"
      if "f \<notin> D" "f \<notin> set (free_pages s0)" "\<not> is_table s0 D f" for f
    proof -
      have "f \<noteq> p" "f \<notin> set (free_pages s1)" using that(2) p(2) sub fp s1(5) by auto
      then show "phys s2 f = phys s0 f" "\<not> is_table s2 D f"
        using that k2 S9[OF that] o1[of f] i1[of f] unfolding frames_kept_def by auto
    qed
  qed
  then show thesis using that[OF s1(1) s2(1)] by blast
qed

lemma alloc_ustack_from:
  assumes "stack_inv D d s0 qs s" "d \<in> D" "length qs + n = 10" "11 \<le> length (free_pages s0)"
    and "\<forall>m\<in>ustack_vpns. pte_at s0 d m = 0"
  shows "\<exists>qs' s'. alloc_ustack d n (USTACKTOP - USR_STACK_SIZE + of_nat (length qs) * PGSIZE) s = Inr (True, s') \<and>
    length qs' = 10 \<and> stack_inv D d s0 qs' s'"
  using assms(1,3)
proof (induction n arbitrary: qs s)
  case (Suc n)
  obtain p s1 s2 where s2: "page_alloc ALLOC_ZERO s = Inr (Some p, s1)"
    "page_insert d p (USTACKTOP - USR_STACK_SIZE + of_nat (length qs) * PGSIZE) (PTE_W OR PTE_U) s1 = Inr (0, s2)"
    "stack_inv D d s0 (qs @ [p]) s2"
    using stack_step[OF Suc.prems(1) assms(2) _ _ assms(5)] Suc.prems(2) assms(4) by auto
  with Suc.IH[OF s2(3)] Suc.prems(2) show ?case
    by (auto simp: algebra_simps)
qed auto

lemma alloc_ustack_ok:
  assumes "vm_inv s D ustack_vpns" "d \<in> D" "table_at s d 954 = None" "11 \<le> length (free_pages s)"
    and "\<forall>m\<in>ustack_vpns. pte_at s d m = 0"
  obtains qs s' where "alloc_ustack d ustack_pages (USTACKTOP - USR_STACK_SIZE) s = Inr (True, s')" "length qs = 10"
    "stack_inv D d s qs s'"
  using alloc_ustack_from[OF stack_inv_0[OF assms(1,3)] assms(2) _ assms(4,5), of 10] that by (auto simp: ustack_consts)

section \<open>Creating a task\<close>

definition parent_of :: "'a task_state_scheme \<Rightarrow> nat \<Rightarrow> int" where
  "parent_of s pid = (case cpu_task (mycpu s) of None \<Rightarrow> int pid
     | Some t \<Rightarrow> if t = pid then int pid else task_id (tasks s ! t))"

definition new_task :: "nat \<Rightarrow> int \<Rightarrow> nat \<Rightarrow> Task" where
  "new_task pid parent d = \<lparr>task_id = int pid, parent_id = parent, tf = new_frame, remind_ticks = TIME_QUANT,
     state = TASK_RUNNABLE, pgdir = Some d\<rparr>"

text \<open>The memory of a new task: its directory \<open>d\<close>, 69 page tables and the stack pages \<open>qs\<close> come from
  the free list; no other address space changes.\<close>

definition created :: "nat set \<Rightarrow> nat \<Rightarrow> nat list \<Rightarrow> 'a mem_state_scheme \<Rightarrow> 'a mem_state_scheme \<Rightarrow> bool" where
  "created D d qs s s' \<longleftrightarrow>
     d \<notin> D \<and> d \<in> set (free_pages s) \<and> vm_inv s' (insert d D) ustack_vpns \<and> npages s' = npages s \<and>
     free_pages s' = drop 80 (free_pages s) \<and> pp_ref (pages s' ! d) = 0 \<and>
     length qs = 10 \<and> distinct qs \<and> set qs \<subseteq> set (free_pages s) \<and>
     (\<forall>q\<in>set qs. pp_ref (pages s' ! q) = 1 \<and> q \<notin> set (free_pages s')) \<and>
     (\<forall>k<10. pte_at s' d (977908 + k) = page2pa (qs ! k) OR PTE_P OR (PTE_W OR PTE_U)) \<and>
     (\<forall>j. table_at s' d j \<noteq> None \<longleftrightarrow> j \<in> insert 954 kernel_dirs) \<and>
     (\<forall>e\<in>D. \<forall>m. slot (m div 1024) \<longrightarrow> pte_at s' e m = pte_at s e m) \<and>
     (\<forall>e\<in>D. \<forall>j t. table_at s e j = Some t \<longrightarrow> table_at s' e j = Some t) \<and>
     (\<forall>x. x \<notin> set (free_pages s) \<longrightarrow> pp_ref (pages s' ! x) = pp_ref (pages s ! x)) \<and>
     (\<forall>f. f \<notin> D \<longrightarrow> f \<notin> set (free_pages s) \<longrightarrow> \<not> is_table s D f \<longrightarrow> phys s' f = phys s f \<and> \<not> is_table s' (insert d D) f)"

lemma createdD:
  assumes "created D d qs s s'"
  shows "d \<notin> D" "d \<in> set (free_pages s)" "vm_inv s' (insert d D) ustack_vpns" "free_pages s' = drop 80 (free_pages s)"
    "pp_ref (pages s' ! d) = 0" "length qs = 10" "distinct qs" "set qs \<subseteq> set (free_pages s)"
    "q \<in> set qs \<Longrightarrow> pp_ref (pages s' ! q) = 1" "d \<notin> set qs"
    "k < 10 \<Longrightarrow> pte_at s' d (977908 + k) = page2pa (qs ! k) OR PTE_P OR (PTE_W OR PTE_U)"
    "table_at s' d j \<noteq> None \<longleftrightarrow> j \<in> insert 954 kernel_dirs"
    "e \<in> D \<Longrightarrow> table_at s e j = Some t \<Longrightarrow> table_at s' e j = Some t"
    "f \<notin> D \<Longrightarrow> f \<notin> set (free_pages s) \<Longrightarrow> \<not> is_table s D f \<Longrightarrow> \<not> is_table s' (insert d D) f"
    "e \<in> D \<Longrightarrow> slot (m div 1024) \<Longrightarrow> pte_at s' e m = pte_at s e m"
  using assms by (simp_all add: created_def) auto

lemma created_compose:
  fixes s s1 s2 :: "'a mem_state_scheme"
  assumes "d \<notin> D" "d \<in> set (free_pages s)" "npages s1 = npages s" "free_pages s1 = drop 69 (free_pages s)" "pp_ref (pages s1 ! d) = 0"
    and "\<forall>j. table_at s1 d j \<noteq> None \<longleftrightarrow> j \<in> kernel_dirs"
    and "\<forall>e\<in>D. \<forall>m. slot (m div 1024) \<longrightarrow> pte_at s1 e m = pte_at s e m"
    and "\<forall>f. f \<notin> D \<longrightarrow> f \<notin> set (free_pages s) \<longrightarrow> \<not> is_table s D f \<longrightarrow> phys s1 f = phys s f \<and> \<not> is_table s1 (insert d D) f"
    and "\<forall>e\<in>D. \<forall>j t. table_at s e j = Some t \<longrightarrow> table_at s1 e j = Some t"
    and "\<forall>x. x \<notin> set (free_pages s) \<longrightarrow> pages s1 ! x = pages s ! x" "distinct (free_pages s)"
    and "stack_inv (insert d D) d s1 qs s2" "length qs = 10" "d \<notin> set (free_pages s1)"
  shows "created D d qs s s2"
proof -
  note S = assms(12)[unfolded stack_inv_def]
  have S1: "vm_inv s2 (insert d D) ustack_vpns" "mem_frame s1 s2" "distinct qs" "set qs \<subseteq> set (free_pages s1)"
    and S2: "\<And>k. k < length qs \<Longrightarrow> pte_at s2 d (977908 + k) = page2pa (qs ! k) OR PTE_P OR (PTE_W OR PTE_U)"
    and S3: "\<And>q. q \<in> set qs \<Longrightarrow> pp_ref (pages s2 ! q) = 1 \<and> q \<notin> set (free_pages s2)"
    and S4: "free_pages s2 = drop (if qs = [] then 0 else length qs + 1) (free_pages s1)"
    and S5': "\<And>e m. e \<in> insert d D \<Longrightarrow> slot (m div 1024) \<Longrightarrow> \<not> (e = d \<and> 977908 \<le> m \<and> m < 977908 + length qs) \<Longrightarrow>
        pte_at s2 e m = pte_at s1 e m"
    and S6: "\<And>e j. e \<in> insert d D \<Longrightarrow> (e, j) \<noteq> (d, 954) \<Longrightarrow> table_at s2 e j = table_at s1 e j"
    and S7: "table_at s2 d 954 = None \<longleftrightarrow> qs = []"
    and S8: "\<And>x. x \<notin> set (free_pages s1) \<Longrightarrow> pp_ref (pages s2 ! x) = pp_ref (pages s1 ! x)"
    and S9: "\<And>f. f \<notin> insert d D \<Longrightarrow> f \<notin> set (free_pages s1) \<Longrightarrow> \<not> is_table s1 (insert d D) f \<Longrightarrow>
        phys s2 f = phys s1 f \<and> \<not> is_table s2 (insert d D) f"
    using S by blast+
  have S5: "pte_at s2 e m = pte_at s1 e m" if "e \<in> D" "slot (m div 1024)" for e m
    using S5'[of e m] that assms(1) by auto
  have sub: "set (free_pages s1) \<subseteq> set (free_pages s)" using assms(4) by (auto dest: in_set_dropD)
  have ne: "qs \<noteq> []" using assms(13) by auto
  have tb: "table_at s2 d j \<noteq> None \<longleftrightarrow> j \<in> insert 954 kernel_dirs" for j
    using S6[of d j] S7 ne assms(6) by (cases "j = 954") auto
  have fr: "phys s2 f = phys s f \<and> \<not> is_table s2 (insert d D) f"
    if f: "f \<notin> D" "f \<notin> set (free_pages s)" "\<not> is_table s D f" for f
  proof -
    have "f \<notin> insert d D" "f \<notin> set (free_pages s1)" "\<not> is_table s1 (insert d D) f" "phys s1 f = phys s f"
      using f assms(2,8) sub by auto
    then show ?thesis using S9 by metis
  qed
  have tk: "table_at s2 e j = Some t" if "e \<in> D" "table_at s e j = Some t" for e j t
    using that S6[of e j] assms(1,9) by auto
  have rf: "pp_ref (pages s2 ! x) = pp_ref (pages s ! x)" if "x \<notin> set (free_pages s)" for x
    using that S8[of x] sub assms(10) by auto
  have "free_pages s2 = drop 80 (free_pages s)" "npages s2 = npages s"
    using S4 ne assms(4,13) mem_frameD(1)[OF S1(2)] assms(3) by (simp_all add: add.commute)
  then show ?thesis
    unfolding created_def using S1(1,3,4) sub S2 S3 S5 S8[OF assms(14)] tb fr tk rf assms(1,2,5,7,13) by auto
qed

lemma created_cong:
  fixes s s' t t' :: "'a mem_state_scheme"
  assumes "created D d qs s s'" "pages t = pages s" "phys t = phys s" "npages t = npages s" "page_free_list t = page_free_list s"
    "num_free_pages t = num_free_pages s" "page_lock t = page_lock s" "pages t' = pages s'" "phys t' = phys s'"
    "npages t' = npages s'" "page_free_list t' = page_free_list s'" "num_free_pages t' = num_free_pages s'" "page_lock t' = page_lock s'"
  shows "created D d qs t t'"
  using assms(1)
  unfolding created_def mem_pred_cong[OF assms(2-7)] mem_pred_cong[OF assms(8-13)] assms(2-4,8-10) .

lemma find_free_taskD: "find_free_task ts = Some pid \<Longrightarrow> pid < length ts \<and> state (ts ! pid) = TASK_FREE"
  by (auto simp: find_free_task_def find_Some_iff)

text \<open>What \<open>task_create\<close> leaves unchanged besides \<open>tasks\<close> and the lock.\<close>

definition same_tasks_env :: "'a task_state_scheme \<Rightarrow> 'a task_state_scheme \<Rightarrow> bool" where
  "same_tasks_env s s' \<longleftrightarrow> cpus s' = cpus s \<and> ncpu s' = ncpu s \<and> nextCPU s' = nextCPU s \<and> hw_cpu s' = hw_cpu s \<and>
     UTEXT_SZ s' = UTEXT_SZ s \<and> UDATA_SZ s' = UDATA_SZ s \<and> UBSS_SZ s' = UBSS_SZ s \<and> URODATA_SZ s' = URODATA_SZ s \<and>
     kern_pgdir s' = kern_pgdir s \<and> pages_kva s' = pages_kva s \<and> cr3 s' = cr3 s"

lemma same_tasks_env_frame: "mem_frame s s' \<Longrightarrow> same_tasks_env s s'"
  by (simp add: same_tasks_env_def task_frameD mem_frameD)

lemma lock_tasks_free:
  assumes "lock_free (task_lock s)"
  obtains l where "lock_tasks s = Inr (s\<lparr>task_lock := l\<rparr>)" "holding (hw_cpu s) l"
  using spin.acquire_free[OF assms, of "hw_frames s" "hw_cpu s"] by (auto simp: lock_tasks_def)

lemma unlock_tasks_held:
  assumes "holding (hw_cpu s) (task_lock s)"
  obtains l where "unlock_tasks s = Inr (s\<lparr>task_lock := l\<rparr>)" "lock_free l"
  using spin.release_held[OF assms] by (auto simp: unlock_tasks_def)

lemma task_create_ok:
  assumes "vm_inv s D ustack_vpns" "image_ok img s" "80 \<le> length (free_pages s)"
    and "find_free_task (tasks s) = Some pid" "lock_free (task_lock s)"
    and "hw_cpu s < length (cpus s)" "\<forall>t. cpu_task (mycpu s) = Some t \<longrightarrow> t < length (tasks s)"
  obtains d qs s' where "task_create img s = Inr (int pid, s')" "created D d qs s s'"
    "tasks s' = (tasks s)[pid := new_task pid (parent_of s pid) d]" "lock_free (task_lock s')" "same_tasks_env s s'"
proof -
  obtain l where l: "lock_tasks s = Inr (s\<lparr>task_lock := l\<rparr>)" "holding (hw_cpu s) l"
    using lock_tasks_free[OF assms(5)] .
  let ?sa = "s\<lparr>task_lock := l\<rparr>"
  note ca = mem_pred_cong[of ?sa s, simplified]
  have va: "vm_inv ?sa D ustack_vpns" "image_ok img ?sa" "69 \<le> length (free_pages ?sa)"
    using assms(1-3) by (simp_all add: ca image_ok_def)
  obtain d sb where sb: "setupkvm img ?sa = Inr (Some d, sb)" "d \<notin> D" "mem_frame ?sa sb" "vm_inv sb (insert d D) ustack_vpns"
    "free_pages sb = drop 69 (free_pages ?sa)" "pp_ref (pages sb ! d) = 0"
    "\<forall>j. table_at sb d j \<noteq> None \<longleftrightarrow> j \<in> kernel_dirs"
    "\<forall>m. slot (m div 1024) \<longrightarrow> pte_at sb d m = kernel_entries img (npages ?sa) (pages_kva ?sa) m"
    "\<forall>e\<in>D. \<forall>m. slot (m div 1024) \<longrightarrow> pte_at sb e m = pte_at ?sa e m"
    "\<forall>f. f \<notin> D \<longrightarrow> f \<notin> set (free_pages ?sa) \<longrightarrow> \<not> is_table ?sa D f \<longrightarrow> phys sb f = phys ?sa f \<and> \<not> is_table sb (insert d D) f"
    "\<forall>e\<in>D. \<forall>j t. table_at ?sa e j = Some t \<longrightarrow> table_at sb e j = Some t"
    "\<forall>x. x \<notin> set (free_pages ?sa) \<longrightarrow> pages sb ! x = pages ?sa ! x" "d \<in> set (free_pages ?sa)"
    using setupkvm_vm[OF va(1,2,3) ustack_region(2)] .
  have pid: "pid < length (tasks s)" using find_free_taskD[OF assms(4)] by simp
  note fb = task_frameD[OF sb(3)]
  let ?sc = "sb\<lparr>tasks := (tasks sb)[pid := (tasks sb ! pid)\<lparr>pgdir := Some d\<rparr>]\<rparr>"
  note cc = mem_pred_cong[of ?sc sb, simplified]
  have zero: "\<forall>m\<in>ustack_vpns. pte_at ?sc d m = 0"
    using sb(8) kernel_entries_user ustack_region assms(2) by (auto simp: cc region_def image_ok_def)
  have vc: "vm_inv ?sc (insert d D) ustack_vpns" "table_at ?sc d 954 = None" "11 \<le> length (free_pages ?sc)"
    using sb(4,5) sb(7)[rule_format, of 954] assms(3) by (auto simp: cc ca kernel_dirs_def)
  obtain qs sd where sd: "alloc_ustack d ustack_pages (USTACKTOP - USR_STACK_SIZE) ?sc = Inr (True, sd)" "length qs = 10"
    "stack_inv (insert d D) d ?sc qs sd"
    using alloc_ustack_ok[OF vc(1) insertI1 vc(2,3) zero] .
  have frd: "mem_frame ?sc sd" using sd(3) by (simp add: stack_inv_def)
  note fd = task_frameD[OF frd, simplified] and md = mem_frameD[OF frd, simplified]
  have dn: "d \<notin> set (free_pages ?sc)"
    using tables_wfD(2)[of ?sc "insert d D" d] vc(1) by (simp add: vm_inv_def)
  have cr: "created D d qs ?sa sd"
  proof (rule created_compose[OF sb(2,13) _ _ _ _ _ _ _ _ _ sd(3,2) dn])
    show "npages ?sc = npages ?sa" using mem_frameD(1)[OF sb(3)] by simp
    show "distinct (free_pages ?sa)" using va(1) alloc_invD(4) by (auto simp: vm_inv_def)
  qed (use sb(5-7,9-12) in \<open>simp_all add: cc\<close>)
  let ?t = "new_task pid (parent_of s pid) d"
  let ?se = "sd\<lparr>tasks := (tasks s)[pid := ?t]\<rparr>"
  have h: "holding (hw_cpu ?se) (task_lock ?se)" using l(2) fd fb by simp
  obtain l' where l': "unlock_tasks ?se = Inr (?se\<lparr>task_lock := l'\<rparr>)" "lock_free l'"
    using unlock_tasks_held[OF h] .
  have nt: "(T :: Task)\<lparr>pgdir := Some d, tf := new_frame, task_id := i, parent_id := j, remind_ticks := TIME_QUANT,
      state := TASK_RUNNABLE\<rparr> = \<lparr>task_id = i, parent_id = j, tf = new_frame, remind_ticks = TIME_QUANT,
      state = TASK_RUNNABLE, pgdir = Some d\<rparr>" for T i j by (cases T) simp
  have "task_create img s = rbind (unlock_tasks ?se) (\<lambda>s. Inr (int pid, s))"
    using l(1) assms(4,6,7) pid sb(1) sd(1) fb fd
    by (auto simp: task_create_def set_task_def thiscpu_def parent_of_def new_task_def nth_list_update nt split: option.split)
  then have "task_create img s = Inr (int pid, ?se\<lparr>task_lock := l'\<rparr>)" using l'(1) by simp
  moreover have "created D d qs s (?se\<lparr>task_lock := l'\<rparr>)"
    by (rule created_cong[OF cr]) simp_all
  moreover have "same_tasks_env s (?se\<lparr>task_lock := l'\<rparr>)"
    using fb fd md mem_frameD[OF sb(3)] by (simp add: same_tasks_env_def)
  ultimately show thesis using that l'(2) by simp
qed

section \<open>Freeing a task\<close>

text \<open>After the first \<open>k\<close> stack pages were removed.\<close>

definition unstacked :: "nat set \<Rightarrow> nat \<Rightarrow> nat list \<Rightarrow> 'a mem_state_scheme \<Rightarrow> nat \<Rightarrow> 'a mem_state_scheme \<Rightarrow> bool" where
  "unstacked D d qs s0 k s \<longleftrightarrow>
     vm_inv s D ustack_vpns \<and> mem_frame s0 s \<and> free_pages s = rev (take k qs) @ free_pages s0 \<and>
     (\<forall>i. k \<le> i \<and> i < 10 \<longrightarrow> mapped s d (977908 + i) = Some (qs ! i) \<and> pp_ref (pages s ! (qs ! i)) = 1) \<and>
     (\<forall>e\<in>D. \<forall>j. table_at s e j = table_at s0 e j) \<and>
     (\<forall>x. x \<notin> set qs \<longrightarrow> pp_ref (pages s ! x) = pp_ref (pages s0 ! x))"

lemma unstacked_step:
  assumes "unstacked D d qs s0 k s" "d \<in> D" "k < 10" "length qs = 10" "distinct qs"
  obtains s1 where "page_remove d (USTACKTOP - USR_STACK_SIZE + of_nat k * PGSIZE) s = Inr s1" "unstacked D d qs s0 (Suc k) s1"
proof -
  let ?va = "USTACKTOP - USR_STACK_SIZE + of_nat k * PGSIZE"
  note U = assms(1)[unfolded unstacked_def]
  have v: "vpn ?va = 977908 + k" using ustack_va(2)[of k] assms(3) by simp
  have vin: "vpn ?va \<in> ustack_vpns" "slot ((977908 + i) div 1024)" if "i < 10" for i
    using v assms(3) that by (auto simp: ustack_vpns_def slot_def)
  have inv: "vm_inv s D ustack_vpns" "mapped s d (vpn ?va) = Some (qs ! k)" "pp_ref (pages s ! (qs ! k)) = 1"
    using U assms(3) v by auto
  obtain s1 where s1: "page_remove d ?va s = Inr s1" "remove_post D ustack_vpns d (vpn ?va) (qs ! k) s s1"
    using page_remove_some[OF inv(1) assms(2) vin(1)[OF assms(3)] inv(2)] .
  note R = s1(2)[unfolded remove_post_def v]
  have ne: "qs ! i \<noteq> qs ! k" if "Suc k \<le> i" "i < 10" for i
    using that assms(4,5) by (simp add: nth_eq_iff_index_eq)
  have "unstacked D d qs s0 (Suc k) s1"
    unfolding unstacked_def
  proof (intro conjI allI ballI impI)
    show "vm_inv s1 D ustack_vpns" using R by blast
    show "mem_frame s0 s1" using U R mem_frame_trans by blast
    show "free_pages s1 = rev (take (Suc k) qs) @ free_pages s0"
      using U R inv(3) assms(3,4) by (simp add: take_Suc_conv_app_nth)
    show "mapped s1 d (977908 + i) = Some (qs ! i)" "pp_ref (pages s1 ! (qs ! i)) = 1" if "Suc k \<le> i \<and> i < 10" for i
      using that U R ne[of i] remove_post_mapped[OF s1(2) assms(2) vin(2), of i] v by auto
    show "table_at s1 e j = table_at s0 e j" if "e \<in> D" for e j using U R that by auto
    show "pp_ref (pages s1 ! x) = pp_ref (pages s0 ! x)" if "x \<notin> set qs" for x
      using that U R assms(3,4) by (metis nth_mem)
  qed
  with s1(1) show thesis using that by blast
qed

lemma remove_seq_append: "remove_seq f (xs @ ys) s = rbind (remove_seq f xs s) (remove_seq f ys)"
proof (induction xs arbitrary: s)
  case (Cons x xs)
  then show ?case by (cases "f x s") auto
qed simp

lemma unstack_all:
  assumes "unstacked D d qs s0 0 s" "d \<in> D" "length qs = 10" "distinct qs"
  obtains s1 where "remove_seq (page_remove d) ustack_vas s = Inr s1" "unstacked D d qs s0 10 s1"
proof -
  have "\<exists>s1. remove_seq (page_remove d) (map (\<lambda>i. USTACKTOP - USR_STACK_SIZE + of_nat i * PGSIZE) [0..<k]) s = Inr s1 \<and>
    unstacked D d qs s0 k s1" if "k \<le> 10" for k
    using that
  proof (induction k)
    case (Suc k)
    then obtain s1 where s1: "remove_seq (page_remove d) (map (\<lambda>i. USTACKTOP - USR_STACK_SIZE + of_nat i * PGSIZE) [0..<k]) s = Inr s1"
      "unstacked D d qs s0 k s1" by auto
    obtain s2 where "page_remove d (USTACKTOP - USR_STACK_SIZE + of_nat k * PGSIZE) s1 = Inr s2" "unstacked D d qs s0 (Suc k) s2"
      using unstacked_step[OF s1(2) assms(2) _ assms(3,4)] Suc.prems by auto
    with s1(1) show ?case by (simp add: remove_seq_append)
  qed (use assms(1) in simp)
  from this[of 10] show thesis using that by (auto simp: ustack_vas_def ustack_consts)
qed

lemma created_unstacked:
  assumes "alloc_inv s" "created D d qs s s'"
  shows "unstacked (insert d D) d qs s' 0 s'"
proof -
  note C = createdD(3,6,8,9,11)[OF assms(2)]
  have "mapped s' d (977908 + i) = Some (qs ! i)" if i: "i < 10" for i
  proof -
    have "qs ! i \<in> set (free_pages s)" using C(2,3) i by (simp add: subset_iff)
    then have "qs ! i < 65536" using alloc_invD(2,8)[OF assms(1)] by fastforce
    then have "frame_of (page2pa (qs ! i) OR (PTE_P OR (PTE_W OR PTE_U))) = qs ! i"
      by (rule frame_of_page) (simp add: layout_defs)
    then show ?thesis using C(5)[OF i] by (simp add: mapped_def or.assoc)
  qed
  then show ?thesis using C(1,2,4) by (simp add: unstacked_def)
qed

text \<open>The pages of a task are exactly the ones \<open>task_create\<close> took.\<close>

lemma created_tables:
  assumes "created D d qs s s'"
  shows "set (tables_upto s' d 1024) \<subseteq> set (free_pages s)" "length (tables_upto s' d 1024) = 69" "table_at s' d 957 = None"
proof -
  note tb = createdD(12)[OF assms] and dD = createdD(1)[OF assms] and keep = createdD(13)[OF assms]
    and fr = createdD(14)[OF assms]
  have wf: "tables_wf s' (insert d D)" using createdD(3)[OF assms] by (simp add: vm_inv_def)
  show none: "table_at s' d 957 = None" using tb[of 957] by (auto simp: kernel_dirs_def)
  show "set (tables_upto s' d 1024) \<subseteq> set (free_pages s)"
  proof
    fix t assume "t \<in> set (tables_upto s' d 1024)"
    then obtain i where i: "i < 1024" "table_at s' d i = Some t" by (auto simp: set_tables_upto)
    then have sl: "slot i" using none by (auto simp: slot_def)
    then have it: "is_table s' (insert d D) t" using i by (auto simp: is_table_def)
    have tD: "t \<notin> D" using tables_wfD(5)[OF wf _ sl i(2)] by auto
    show "t \<in> set (free_pages s)"
    proof (rule ccontr)
      assume "t \<notin> set (free_pages s)"
      with fr[OF tD] it obtain e j where e: "e \<in> D" "slot j" "table_at s e j = Some t" by (auto simp: is_table_def)
      from tables_wfD(6)[OF wf _ _ sl e(2) i(2) keep[OF e(1,3)]] e(1) dD show False by auto
    qed
  qed
  have "{j. j < 1024 \<and> table_at s' d j \<noteq> None} = insert 954 kernel_dirs"
    using tb by (auto simp: kernel_dirs_def)
  moreover have "length (tables_upto s' d 1024) = card {j. j < 1024 \<and> table_at s' d j \<noteq> None}"
    using distinct_card[of "filter (\<lambda>i. table_at s' d i \<noteq> None) [0..<1024]"] by (simp add: tables_upto_def)
  moreover have "954 \<notin> kernel_dirs" "finite kernel_dirs" by (auto simp: kernel_dirs_def)
  ultimately show "length (tables_upto s' d 1024) = 69" by (simp add: card_kernel_dirs)
qed

lemma task_free_created:
  assumes "alloc_inv s" "80 \<le> length (free_pages s)" "created D d qs s s'"
    and "pid < length (tasks s')" "pgdir (tasks s' ! pid) = Some d"
  obtains s2 where "task_free pid s' = Inr s2" "vm_inv s2 D ustack_vpns" "set (free_pages s2) = set (free_pages s)"
    "num_free_pages s2 = num_free_pages s" "cr3 s2 = (cr3 s')(hw_cpu s' := page2pa (kern_pgdir s'))" "tasks s2 = tasks s'"
proof -
  let ?sl = "lcr3 (page2pa (kern_pgdir s')) s'"
  note C = createdD(1,2,4-8)[OF assms(3)]
  note cg = mem_pred_cong[of ?sl s', simplified lcr3_def, simplified]
  have cl: "created D d qs s ?sl"
    by (rule created_cong[OF assms(3)]) (simp_all add: lcr3_def)
  obtain s1 where s1: "remove_seq (page_remove d) ustack_vas ?sl = Inr s1" "unstacked (insert d D) d qs ?sl 10 s1"
    using unstack_all[OF created_unstacked[OF assms(1) cl] insertI1 C(5,6)] .
  have U: "vm_inv s1 (insert d D) ustack_vpns" "mem_frame ?sl s1" "free_pages s1 = rev qs @ drop 80 (free_pages s)"
    "\<And>j. table_at s1 d j = table_at ?sl d j" "\<And>x. x \<notin> set qs \<Longrightarrow> pp_ref (pages s1 ! x) = pp_ref (pages s' ! x)"
    using s1(2) C(3,5) unfolding unstacked_def by (simp_all add: lcr3_def cg)
  note tb = created_tables[OF cl]
  have eqt: "tables_upto s1 d 1024 = tables_upto ?sl d 1024" by (simp add: tables_upto_def U(4))
  have dr: "pp_ref (pages s1 ! d) = 0" using U(5) C(4) createdD(10)[OF assms(3)] by simp
  obtain sa s2 where s2: "ptable_remove d s1 = Inr sa" "pgdir_remove d sa = Inr s2" "vm_inv s2 (insert d D - {d}) ustack_vpns"
    "free_pages s2 = d # rev (tables_upto s1 d 1024) @ free_pages s1" "phys s2 = phys s1" "mem_frame s1 s2"
    using teardown_all[OF U(1) insertI1 _ dr] tb(3) U(4) by metis
  have al: "alloc_inv s2" using s2(3) by (simp add: vm_inv_def)
  have sub: "set (free_pages s2) \<subseteq> set (free_pages s)"
    using s2(4) U(3) C(2,7) tb(1) eqt by (auto dest: in_set_dropD)
  have len: "length (free_pages s2) = length (free_pages s)"
    using s2(4) U(3) C(5) tb(2) eqt assms(2) by simp
  have "set (free_pages s2) = set (free_pages s)"
    using card_subset_eq[OF _ sub] len alloc_invD(4)[OF al] alloc_invD(4)[OF assms(1)] by (simp add: distinct_card)
  moreover have "num_free_pages s2 = num_free_pages s"
    using len alloc_invD(5)[OF al] alloc_invD(5)[OF assms(1)] by simp
  moreover have "task_free pid s' = Inr s2"
    using assms(4,5) s1(1) s2(1,2) by (simp add: task_free_def Let_def nonnull_def lcr3_def)
  moreover have "vm_inv s2 D ustack_vpns" using s2(3) C(1) by simp
  moreover have "cr3 s2 = (cr3 s')(hw_cpu s' := page2pa (kern_pgdir s'))" "tasks s2 = tasks s'"
    using task_frameD[OF s2(6)] task_frameD[OF U(2)] by (simp_all add: lcr3_def)
  ultimately show thesis using that by blast
qed

section \<open>Properties\<close>

text \<open>
  C22. Creating a task and freeing it again returns every page. With 80 free pages and a free slot,
  \<open>task_create\<close> succeeds: it fills the slot with a runnable task with its own directory (the
  kernel mapped, ten fresh zeroed stack pages below \<open>USTACKTOP\<close>, no other address space touched)
  and takes exactly 80 pages. A following \<open>task_free\<close> gives back exactly these pages: the same set
  of pages is free as before, the counter agrees, the memory invariant holds for the other
  address spaces, and the processor is on the kernel's directory.
\<close>

theorem task_create_free:
  assumes "vm_inv s D ustack_vpns" "image_ok img s" "80 \<le> length (free_pages s)"
    and "find_free_task (tasks s) = Some pid" "lock_free (task_lock s)"
    and "hw_cpu s < length (cpus s)" "\<forall>t. cpu_task (mycpu s) = Some t \<longrightarrow> t < length (tasks s)"
  shows "\<exists>d qs s1 s2. task_create img s = Inr (int pid, s1) \<and> created D d qs s s1 \<and>
    tasks s1 = (tasks s)[pid := new_task pid (parent_of s pid) d] \<and> lock_free (task_lock s1) \<and>
    task_free pid s1 = Inr s2 \<and> vm_inv s2 D ustack_vpns \<and> set (free_pages s2) = set (free_pages s) \<and>
    num_free_pages s2 = num_free_pages s \<and> cr3 s2 (hw_cpu s) = page2pa (kern_pgdir s)"
proof -
  obtain d qs s1 where s1: "task_create img s = Inr (int pid, s1)" "created D d qs s s1"
    "tasks s1 = (tasks s)[pid := new_task pid (parent_of s pid) d]" "lock_free (task_lock s1)" "same_tasks_env s s1"
    using task_create_ok[OF assms] .
  have "pid < length (tasks s)" using find_free_taskD[OF assms(4)] by simp
  then have t: "pid < length (tasks s1)" "pgdir (tasks s1 ! pid) = Some d" using s1(3) by (simp_all add: new_task_def)
  have "alloc_inv s" using assms(1) by (simp add: vm_inv_def)
  from task_free_created[OF this assms(3) s1(2) t] s1 show ?thesis
    unfolding same_tasks_env_def by (metis fun_upd_same)
qed

text \<open>The machine of the address-space example with four unused tasks and one processor.\<close>

definition with_tasks :: "Task list \<Rightarrow> mem_state \<Rightarrow> task_state" where
  "with_tasks ts s = mem_state.extend s (task_state.fields ts zero_lock
     [\<lparr>cpu_id = 0, cpu_status = 0, cpu_task = None, cpu_rq = \<lparr>cnt = 0, rq = replicate 32 None\<rparr>, cpu_tss = zero_tss\<rparr>]
     1 0 0 gdt0 0 0 0 0 0 (\<lambda>_. 0) (\<lambda>_. 0) (\<lambda>_. 0) (\<lambda>_. False) pic0 [])"

theorem task_create_free_witness:
  "\<exists>s s1 s2. task_create image0 s = Inr (0, s1) \<and> free_pages s1 = drop 80 (free_pages s) \<and>
     task_free 0 (s1 :: task_state) = Inr s2 \<and> set (free_pages s2) = set (free_pages s) \<and> length (free_pages s) = 98"
proof -
  obtain s :: mem_state where s: "alloc_inv s" "image_ok image0 s" "length (free_pages s) = 98" "hw_cpu s = 0"
    by (rule machine100_ready)
  let ?s = "with_tasks (replicate 4 zero_task) s"
  have f: "pages ?s = pages s" "phys ?s = phys s" "npages ?s = npages s" "page_free_list ?s = page_free_list s"
    "num_free_pages ?s = num_free_pages s" "page_lock ?s = page_lock s" "pages_kva ?s = pages_kva s" "hw_cpu ?s = hw_cpu s"
    by (simp_all add: with_tasks_def mem_state.defs)
  note c = mem_pred_cong[OF f(1-6)]
  have "vm_inv ?s {} ustack_vpns"
    using s(1) ustack_region(1) by (simp add: vm_inv_def c tables_wf_def is_table_def refs_wf_def mappings_def)
  moreover have "image_ok image0 ?s" using s(2) by (simp add: image_ok_def f)
  moreover have "find_free_task (tasks ?s) = Some 0" "lock_free (task_lock ?s)" "length (cpus ?s) = 1" "cpu_task (mycpu ?s) = None"
    using s(4) by (simp_all add: f with_tasks_def mem_state.defs task_state.defs find_free_task_def zero_task_def lock_free_def zero_lock_def
        upt_rec numeral_eq_Suc)
  ultimately obtain d qs s1 s2 where r: "task_create image0 ?s = Inr (0, s1)" "created {} d qs ?s s1"
    "task_free 0 s1 = Inr s2" "set (free_pages s2) = set (free_pages ?s)"
    using task_create_free[of ?s "{}" image0 0] s(3,4) c f by auto
  then show ?thesis using createdD(4)[OF r(2)] s(3) c by (intro exI[of _ ?s] exI[of _ s1] exI[of _ s2]) simp
qed

text \<open>
  C23. When no task slot is free \<open>task_create\<close> returns \<open>-1\<close> without releasing \<open>task_lock\<close>: the next
  creation on the same processor panics in \<open>spin_lock\<close>, and on any other processor it spins for ever.
\<close>

theorem task_create_leaves_lock:
  assumes "find_free_task (tasks s) = None" "lock_free (task_lock s)"
  shows "\<exists>s1. task_create img s = Inr (-1, s1) \<and> s1 = s\<lparr>task_lock := task_lock s1\<rparr> \<and> holding (hw_cpu s) (task_lock s1) \<and>
    task_create img s1 = Inl (Panic ''cannot acquire: already holding'') \<and>
    (\<forall>c. c \<noteq> hw_cpu s \<longrightarrow> task_create img (s1\<lparr>hw_cpu := c\<rparr>) = Inl Spin)"
proof -
  obtain l where l: "lock_tasks s = Inr (s\<lparr>task_lock := l\<rparr>)" "holding (hw_cpu s) l"
    using lock_tasks_free[OF assms(2)] .
  then show ?thesis
    using assms(1)
    by (intro exI[of _ "s\<lparr>task_lock := l\<rparr>"])
       (simp add: task_create_def lock_tasks_def spin_lock_def holding_def xchg_locked_def)
qed

theorem task_create_leaves_lock_witness:
  "\<exists>s1. task_create image0 (with_tasks [] small_mem) = Inr (-1, s1) \<and>
     task_create image0 s1 = Inl (Panic ''cannot acquire: already holding'')"
proof -
  have "find_free_task (tasks (with_tasks [] small_mem)) = None" "lock_free (task_lock (with_tasks [] small_mem))"
    by (simp_all add: with_tasks_def mem_state.defs task_state.defs find_free_task_def lock_free_def zero_lock_def)
  from task_create_leaves_lock[OF this, of image0] show ?thesis by blast
qed

end
