(* ===== verification/String_Lib.thy ===== *)
theory String_Lib
  imports Kernel_Prelude
begin

text \<open>
  \<^verbatim>\<open>lib/string.c\<close>. A \<open>char *\<close> argument is the list of bytes from the pointer to the end of the
  object it points into, so that running off the object is a \<open>Fault\<close>; a returned pointer into an
  argument is an offset. The block operations of the \<open>ASM\<close> build (\<open>memset\<close>, \<open>memmove\<close>) act on the
  byte memory \<open>u32 \<Rightarrow> u8\<close>, where source and destination may overlap, through models of the
  \<open>rep movs\<close> and \<open>rep stos\<close> instructions they use.
\<close>

type_synonym bmem = "u32 \<Rightarrow> u8"

section \<open>String functions\<close>

fun strlen_loop :: "u8 list \<Rightarrow> int \<Rightarrow> int result" where
  "strlen_loop [] n = Inl Fault"
| "strlen_loop (c # s) n = (if c \<noteq> 0 then strlen_loop s (n + 1) else Inr n)"

definition strlen :: "u8 list \<Rightarrow> int result" where
  "strlen s = strlen_loop s 0"

fun strnlen_loop :: "u8 list \<Rightarrow> nat \<Rightarrow> int \<Rightarrow> int result" where
  "strnlen_loop s 0 n = Inr n"
| "strnlen_loop [] (Suc sz) n = Inl Fault"
| "strnlen_loop (c # s) (Suc sz) n = (if c \<noteq> 0 then strnlen_loop s sz (n + 1) else Inr n)"

definition strnlen :: "u8 list \<Rightarrow> u32 \<Rightarrow> int result" where
  "strnlen s sz = strnlen_loop s (unat sz) 0"

fun strcpy :: "u8 list \<Rightarrow> u8 list \<Rightarrow> u8 list result" where
  "strcpy (d # dst) (c # src) =
     (if c \<noteq> 0 then rbind (strcpy dst src) (\<lambda>r. Inr (c # r)) else Inr (0 # dst))"
| "strcpy _ _ = Inl Fault"

definition strcat :: "u8 list \<Rightarrow> u8 list \<Rightarrow> u8 list result" where
  "strcat dst src =
     rbind (strlen dst) (\<lambda>len.
     rbind (strcpy (drop (nat len) dst) src) (\<lambda>r. Inr (take (nat len) dst @ r)))"

fun strncpy_loop :: "nat \<Rightarrow> u8 list \<Rightarrow> u8 list \<Rightarrow> u8 list result" where
  "strncpy_loop 0 dst src = Inr dst"
| "strncpy_loop (Suc k) (d # dst) (c # src) =
     rbind (strncpy_loop k dst (if c \<noteq> 0 then src else c # src)) (\<lambda>r. Inr (c # r))"
| "strncpy_loop (Suc k) _ _ = Inl Fault"

definition strncpy :: "u8 list \<Rightarrow> u8 list \<Rightarrow> u32 \<Rightarrow> u8 list result" where
  "strncpy dst src sz = strncpy_loop (unat sz) dst src"

text \<open>\<open>strlcpy\<close> returns the new destination and the number of bytes copied before the terminator.\<close>

fun strlcpy_loop :: "nat \<Rightarrow> u8 list \<Rightarrow> u8 list \<Rightarrow> (u8 list \<times> nat) result" where
  "strlcpy_loop (Suc k) (d # dst) (c # src) =
     (if c \<noteq> 0 then rbind (strlcpy_loop k dst src) (\<lambda>(r, n). Inr (c # r, Suc n))
      else Inr (0 # dst, 0))"
| "strlcpy_loop 0 (d # dst) src = Inr (0 # dst, 0)"
| "strlcpy_loop _ _ _ = Inl Fault"

definition strlcpy :: "u8 list \<Rightarrow> u8 list \<Rightarrow> u32 \<Rightarrow> (u8 list \<times> nat) result" where
  "strlcpy dst src sz =
     (if sz > 0 then strlcpy_loop (unat sz - 1) dst src else Inr (dst, 0))"

fun strcmp :: "u8 list \<Rightarrow> u8 list \<Rightarrow> int result" where
  "strcmp (p # ps) (q # qs) =
     (if p \<noteq> 0 \<and> p = q then strcmp ps qs else Inr (uint p - uint q))"
| "strcmp _ _ = Inl Fault"

fun strncmp_loop :: "u8 list \<Rightarrow> u8 list \<Rightarrow> nat \<Rightarrow> int result" where
  "strncmp_loop ps qs 0 = Inr 0"
| "strncmp_loop (p # ps) (q # qs) (Suc n) =
     (if p \<noteq> 0 \<and> p = q then strncmp_loop ps qs n else Inr (uint p - uint q))"
| "strncmp_loop _ _ (Suc n) = Inl Fault"

definition strncmp :: "u8 list \<Rightarrow> u8 list \<Rightarrow> u32 \<Rightarrow> int result" where
  "strncmp p q n = strncmp_loop p q (unat n)"

fun strchr_from :: "u8 list \<Rightarrow> u8 \<Rightarrow> nat \<Rightarrow> nat option result" where
  "strchr_from [] c k = Inl Fault"
| "strchr_from (x # s) c k =
     (if x \<noteq> 0 then if x = c then Inr (Some k) else strchr_from s c (Suc k) else Inr None)"

definition strchr :: "u8 list \<Rightarrow> u8 \<Rightarrow> nat option result" where
  "strchr s c = strchr_from s c 0"

fun strfind_from :: "u8 list \<Rightarrow> u8 \<Rightarrow> nat \<Rightarrow> nat result" where
  "strfind_from [] c k = Inl Fault"
| "strfind_from (x # s) c k =
     (if x \<noteq> 0 then if x = c then Inr k else strfind_from s c (Suc k) else Inr k)"

definition strfind :: "u8 list \<Rightarrow> u8 \<Rightarrow> nat result" where
  "strfind s c = strfind_from s c 0"

section \<open>Block functions\<close>

text \<open>\<open>rep movsb\<close> and \<open>rep movsl\<close>: the direction flag, the count, and the two index registers.\<close>

fun rep_movsb :: "bool \<Rightarrow> nat \<Rightarrow> u32 \<Rightarrow> u32 \<Rightarrow> bmem \<Rightarrow> bmem" where
  "rep_movsb df 0 edi esi m = m"
| "rep_movsb df (Suc n) edi esi m =
     rep_movsb df n (if df then edi - 1 else edi + 1) (if df then esi - 1 else esi + 1)
       (m(edi := m esi))"

fun rep_movsl :: "bool \<Rightarrow> nat \<Rightarrow> u32 \<Rightarrow> u32 \<Rightarrow> bmem \<Rightarrow> bmem" where
  "rep_movsl df 0 edi esi m = m"
| "rep_movsl df (Suc n) edi esi m =
     rep_movsl df n (if df then edi - 4 else edi + 4) (if df then esi - 4 else esi + 4)
       (m(edi := m esi, edi + 1 := m (esi + 1), edi + 2 := m (esi + 2), edi + 3 := m (esi + 3)))"

definition memmove :: "u32 \<Rightarrow> u32 \<Rightarrow> u32 \<Rightarrow> bmem \<Rightarrow> bmem" where
  "memmove dst src n m =
     (let s = src; d = dst in
      if s < d \<and> s + n > d then
        (let s = s + n; d = d + n in
         if s mod 4 = 0 \<and> d mod 4 = 0 \<and> n mod 4 = 0
         then rep_movsl True (unat (n div 4)) (d - 4) (s - 4) m
         else rep_movsb True (unat n) (d - 1) (s - 1) m)
      else
        (if s mod 4 = 0 \<and> d mod 4 = 0 \<and> n mod 4 = 0
         then rep_movsl False (unat (n div 4)) d s m
         else rep_movsb False (unat n) d s m))"

definition memcpy :: "u32 \<Rightarrow> u32 \<Rightarrow> u32 \<Rightarrow> bmem \<Rightarrow> bmem" where
  "memcpy dst src n m = memmove dst src n m"

fun rep_stosb :: "nat \<Rightarrow> u32 \<Rightarrow> u32 \<Rightarrow> bmem \<Rightarrow> bmem" where
  "rep_stosb 0 edi eax m = m"
| "rep_stosb (Suc n) edi eax m = rep_stosb n (edi + 1) eax (m(edi := ucast eax))"

fun rep_stosl :: "nat \<Rightarrow> u32 \<Rightarrow> u32 \<Rightarrow> bmem \<Rightarrow> bmem" where
  "rep_stosl 0 edi eax m = m"
| "rep_stosl (Suc n) edi eax m =
     rep_stosl n (edi + 4) eax
       (m(edi := ucast eax, edi + 1 := ucast (drop_bit 8 eax),
          edi + 2 := ucast (drop_bit 16 eax), edi + 3 := ucast (drop_bit 24 eax)))"

definition memset :: "u32 \<Rightarrow> u32 \<Rightarrow> u32 \<Rightarrow> bmem \<Rightarrow> bmem" where
  "memset v c n m =
     (if n = 0 then m
      else if v mod 4 = 0 \<and> n mod 4 = 0 then
        (let c = c AND 0xFF;
             c = push_bit 24 c OR push_bit 16 c OR push_bit 8 c OR c
         in rep_stosl (unat (n div 4)) v c m)
      else rep_stosb (unat n) v c m)"

fun memcmp_loop :: "u8 list \<Rightarrow> u8 list \<Rightarrow> nat \<Rightarrow> int result" where
  "memcmp_loop s1 s2 0 = Inr 0"
| "memcmp_loop (a # s1) (b # s2) (Suc n) =
     (if a \<noteq> b then Inr (uint a - uint b) else memcmp_loop s1 s2 n)"
| "memcmp_loop _ _ (Suc n) = Inl Fault"

definition memcmp :: "u8 list \<Rightarrow> u8 list \<Rightarrow> u32 \<Rightarrow> int result" where
  "memcmp v1 v2 n = memcmp_loop v1 v2 (unat n)"

fun memfind_loop :: "u8 list \<Rightarrow> u8 \<Rightarrow> nat \<Rightarrow> nat \<Rightarrow> nat result" where
  "memfind_loop s c 0 k = Inr k"
| "memfind_loop [] c (Suc n) k = Inl Fault"
| "memfind_loop (x # s) c (Suc n) k = (if x = c then Inr k else memfind_loop s c n (Suc k))"

definition memfind :: "u8 list \<Rightarrow> u32 \<Rightarrow> u32 \<Rightarrow> nat result" where
  "memfind s c n = memfind_loop s (ucast c) (unat n) 0"

section \<open>Number parsing\<close>

text \<open>
  \<open>strtol\<close> in the order of the source: white space, sign, base prefix, digits. It returns the
  value and the offset of the first byte not consumed (\<open>*endptr\<close>).
\<close>

fun skip_ws :: "u8 list \<Rightarrow> nat \<Rightarrow> (u8 list \<times> nat) result" where
  "skip_ws [] k = Inl Fault"
| "skip_ws (c # s) k = (if c = 0x20 \<or> c = 0x09 then skip_ws s (Suc k) else Inr (c # s, k))"

definition strtol_digit :: "u8 \<Rightarrow> int option" where
  "strtol_digit c =
     (if 0x30 \<le> c \<and> c \<le> 0x39 then Some (uint c - 0x30)
      else if 0x61 \<le> c \<and> c \<le> 0x7A then Some (uint c - 0x61 + 10)
      else if 0x41 \<le> c \<and> c \<le> 0x5A then Some (uint c - 0x41 + 10)
      else None)"

fun strtol_loop :: "u8 list \<Rightarrow> nat \<Rightarrow> int \<Rightarrow> int \<Rightarrow> (int \<times> nat) result" where
  "strtol_loop [] k base val = Inl Fault"
| "strtol_loop (c # s) k base val =
     (case strtol_digit c of
        None \<Rightarrow> Inr (val, k)
      | Some dig \<Rightarrow>
          if dig \<ge> base then Inr (val, k)
          else strtol_loop s (Suc k) base (to_int32 (val * base + dig)))"

definition strtol_sign :: "u8 list \<Rightarrow> nat \<Rightarrow> (bool \<times> u8 list \<times> nat) result" where
  "strtol_sign s k =
     (case s of [] \<Rightarrow> Inl Fault
      | c # r \<Rightarrow>
          if c = 0x2B then Inr (False, r, Suc k)
          else if c = 0x2D then Inr (True, r, Suc k)
          else Inr (False, s, k))"

text \<open>\<open>s[1]\<close> is read only when \<open>s[0]\<close> is \<open>'0'\<close> and the base allows a prefix.\<close>

definition strtol_base :: "u8 list \<Rightarrow> nat \<Rightarrow> int \<Rightarrow> (int \<times> u8 list \<times> nat) result" where
  "strtol_base s k base =
     rbind (if base = 0 \<or> base = 16
            then rbind (aget s 0) (\<lambda>c0. if c0 = 0x30 then rbind (aget s 1) (\<lambda>c1. Inr (c1 = 0x78))
                                          else Inr False)
            else Inr False) (\<lambda>hex.
     if hex then Inr (16, drop 2 s, k + 2)
     else if base = 0
     then rbind (aget s 0) (\<lambda>c0. if c0 = 0x30 then Inr (8, drop 1 s, k + 1) else Inr (10, s, k))
     else Inr (base, s, k))"

definition strtol :: "u8 list \<Rightarrow> int \<Rightarrow> (int \<times> nat) result" where
  "strtol s base =
     rbind (skip_ws s 0) (\<lambda>(s, k).
     rbind (strtol_sign s k) (\<lambda>(neg, s, k).
     rbind (strtol_base s k base) (\<lambda>(base, s, k).
     rbind (strtol_loop s k base 0) (\<lambda>(val, k).
     Inr (if neg then to_int32 (- val) else val, k)))))"

section \<open>Specification vocabulary\<close>

text \<open>The text of a C string, and that the object holds a terminator at all.\<close>

definition cstr :: "u8 list \<Rightarrow> u8 list" where
  "cstr s = takeWhile (\<lambda>c. c \<noteq> 0) s"

definition terminated :: "u8 list \<Rightarrow> bool" where
  "terminated s \<longleftrightarrow> 0 \<in> set s"

lemma terminated_simps [simp]:
  "\<not> terminated []" "terminated (c # s) \<longleftrightarrow> c = 0 \<or> terminated s"
  by (auto simp: terminated_def)

lemma cstr_simps [simp]:
  "cstr [] = []" "cstr (c # s) = (if c = 0 then [] else c # cstr s)"
  by (simp_all add: cstr_def)

lemma cstr_nonzero: "0 \<notin> set (cstr s)"
  by (auto simp: cstr_def dest: set_takeWhileD)

lemma cstr_append_zero: "0 \<notin> set xs \<Longrightarrow> cstr (xs @ 0 # ys) = xs"
  by (induction xs) auto

lemma terminated_append_zero [simp]: "terminated (xs @ 0 # ys)"
  by (simp add: terminated_def)

lemma terminated_decomp: "terminated s \<Longrightarrow> \<exists>r. s = cstr s @ 0 # r"
  by (induction s) auto

lemma length_cstr_less: "terminated s \<Longrightarrow> length (cstr s) < length s"
  by (induction s) auto

lemma strlen_loop_eq: "strlen_loop s n = (if terminated s then Inr (n + int (length (cstr s))) else Inl Fault)"
  by (induction s arbitrary: n) auto

lemma strlen_eq: "strlen s = (if terminated s then Inr (int (length (cstr s))) else Inl Fault)"
  by (simp add: strlen_def strlen_loop_eq)

lemma strnlen_loop_eq:
  "strnlen_loop s k n =
     (if terminated s \<or> k \<le> length (cstr s) then Inr (n + int (min k (length (cstr s)))) else Inl Fault)"
  by (induction s k n rule: strnlen_loop.induct) auto

lemma strcpy_eq:
  "strcpy dst src =
     (if terminated src \<and> length (cstr src) < length dst
      then Inr (cstr src @ 0 # drop (Suc (length (cstr src))) dst) else Inl Fault)"
  by (induction dst src rule: strcpy.induct) auto

lemma strcat_eq:
  "strcat dst src =
     (if terminated dst \<and> terminated src \<and> length (cstr dst) + length (cstr src) < length dst
      then Inr (cstr dst @ cstr src @ 0 # drop (Suc (length (cstr dst) + length (cstr src))) dst)
      else Inl Fault)"
proof (cases "terminated dst")
  case True
  then obtain r where r: "dst = cstr dst @ 0 # r"
    using terminated_decomp by blast
  then have "take (length (cstr dst)) dst = cstr dst"
    by (metis append_eq_conv_conj)
  with True length_cstr_less[OF True] show ?thesis
    by (auto simp: strcat_def strlen_eq strcpy_eq add.commute)
qed (simp add: strcat_def strlen_eq)

text \<open>\<open>strncpy\<close> fills exactly the first \<open>k\<close> bytes: the text, cut to \<open>k\<close>, then zero bytes.\<close>

lemma strncpy_loop_eq:
  assumes "k \<le> length dst" and "terminated src"
  shows "strncpy_loop k dst src =
    Inr (take k (cstr src) @ replicate (k - length (cstr src)) 0 @ drop k dst)"
  using assms
proof (induction k dst src rule: strncpy_loop.induct)
  case (2 k d dst c src)
  then show ?case by (cases "c = 0") auto
qed auto

text \<open>\<open>strlcpy\<close> copies at most \<open>k\<close> bytes and always terminates the destination.\<close>

lemma strlcpy_loop_eq:
  assumes "k < length dst" and "terminated src"
  shows "strlcpy_loop k dst src =
    Inr (take k (cstr src) @ 0 # drop (Suc (min k (length (cstr src)))) dst, min k (length (cstr src)))"
  using assms
  by (induction k dst src rule: strlcpy_loop.induct) (auto split: if_splits)

section \<open>Comparison\<close>

text \<open>The order C programmers expect of \<open>strcmp\<close>: lexicographic on unsigned bytes.\<close>

fun byte_less :: "u8 list \<Rightarrow> u8 list \<Rightarrow> bool" where
  "byte_less [] [] = False"
| "byte_less [] (q # qs) = True"
| "byte_less (p # ps) [] = False"
| "byte_less (p # ps) (q # qs) = (p < q \<or> p = q \<and> byte_less ps qs)"

lemma byte_uint:
  "uint (p :: u8) = uint q \<longleftrightarrow> p = q" "uint p < uint q \<longleftrightarrow> p < q"
  "uint p = 0 \<longleftrightarrow> p = 0" "0 < uint p \<longleftrightarrow> p \<noteq> 0"
  by (auto simp: word_less_def word_uint_eq_iff) (metis uint_lt_0 linorder_cases)

lemma strcmp_sign:
  assumes "terminated p" and "terminated q"
  shows "\<exists>r. strcmp p q = Inr r \<and> (r = 0 \<longleftrightarrow> cstr p = cstr q) \<and> (r < 0 \<longleftrightarrow> byte_less (cstr p) (cstr q))"
  using assms
proof (induction p q rule: strcmp.induct)
  case (1 p ps q qs)
  show ?case
  proof (cases "p \<noteq> 0 \<and> p = q")
    case True
    with 1 show ?thesis by auto
  next
    case False
    then show ?thesis by (auto simp: byte_uint word_neq_0_conv)
  qed
qed auto

lemma strncmp_loop_sign:
  assumes "terminated p" and "terminated q"
  shows "\<exists>r. strncmp_loop p q n = Inr r \<and>
    (r = 0 \<longleftrightarrow> take n (cstr p) = take n (cstr q)) \<and>
    (r < 0 \<longleftrightarrow> byte_less (take n (cstr p)) (take n (cstr q)))"
  using assms
proof (induction p q n rule: strncmp_loop.induct)
  case (2 p ps q qs n)
  show ?case
  proof (cases "p \<noteq> 0 \<and> p = q")
    case True
    with 2 show ?thesis by auto
  next
    case False
    then show ?thesis by (auto simp: byte_uint word_neq_0_conv)
  qed
qed auto

lemma memcmp_loop_eq_0:
  assumes "n \<le> length s1" and "n \<le> length s2"
  shows "memcmp_loop s1 s2 n = Inr 0 \<longleftrightarrow> take n s1 = take n s2"
  using assms
  by (induction s1 s2 n rule: memcmp_loop.induct) (auto simp: byte_uint)

section \<open>Block copy and fill\<close>

text \<open>
  The reference behaviours: \<open>block_copy\<close> reads every source byte of the old memory before
  anything is written, \<open>block_fill\<close> writes one byte value. Both leave all other bytes alone.
\<close>

definition block_copy :: "u32 \<Rightarrow> u32 \<Rightarrow> nat \<Rightarrow> bmem \<Rightarrow> bmem" where
  "block_copy dst src n m = (\<lambda>x. if unat (x - dst) < n then m (src + (x - dst)) else m x)"

definition block_fill :: "u32 \<Rightarrow> nat \<Rightarrow> u8 \<Rightarrow> bmem \<Rightarrow> bmem" where
  "block_fill dst n c m = (\<lambda>x. if unat (x - dst) < n then c else m x)"

lemma unat_diff_Suc:
  assumes "x \<noteq> (d :: u32)"
  shows "unat (x - d) = Suc (unat (x - (d + 1)))"
proof -
  have nz: "x - d \<noteq> 0"
    using assms by simp
  then have "unat (x - d - 1) = unat (x - d) - 1"
    by (simp add: unat_minus_one)
  moreover have "0 < unat (x - d)"
    using nz by (simp add: unat_gt_0)
  ultimately show ?thesis by (simp add: diff_diff_eq)
qed

lemma block_fill_0 [simp]: "block_fill d 0 c m = m"
  by (simp add: block_fill_def)

lemma block_fill_Suc:
  assumes "n < 2 ^ 32"
  shows "block_fill (d + 1) n c (m(d := c)) = block_fill d (Suc n) c m"
proof
  fix x
  show "block_fill (d + 1) n c (m(d := c)) x = block_fill d (Suc n) c m x"
    by (cases "x = d") (auto simp: block_fill_def unat_diff_Suc)
qed

lemma rep_stosb_eq: "n \<le> 2 ^ 32 \<Longrightarrow> rep_stosb n d eax m = block_fill d n (ucast eax) m"
  by (induction n arbitrary: d m) (simp_all add: block_fill_Suc)

lemma rep_stosl_eq_stosb:
  assumes "ucast (drop_bit 8 eax) = (ucast eax :: u8)" "ucast (drop_bit 16 eax) = (ucast eax :: u8)"
    "ucast (drop_bit 24 eax) = (ucast eax :: u8)"
  shows "rep_stosl n d eax m = rep_stosb (4 * n) d eax m"
proof (induction n arbitrary: d m)
  case (Suc n)
  have four: "4 * Suc n = Suc (Suc (Suc (Suc (4 * n))))"
    by simp
  show ?case
    unfolding four rep_stosl.simps rep_stosb.simps Suc assms
    by (simp add: add.assoc)
qed simp

lemma unat_mod4: "(n :: u32) mod 4 = 0 \<Longrightarrow> 4 * unat (n div 4) = unat n"
proof -
  assume "n mod 4 = 0"
  then have "unat (n mod 4) = 0" by simp
  then have "unat n mod 4 = 0" by (simp add: unat_mod)
  then show ?thesis
    using mult_div_mod_eq[of 4 "unat n"] by (simp add: unat_div)
qed

lemma replicate_byte_word:
  fixes c :: u32
  defines "w \<equiv> push_bit 24 (c AND 0xFF) OR push_bit 16 (c AND 0xFF) OR push_bit 8 (c AND 0xFF) OR (c AND 0xFF)"
  shows "ucast w = (ucast c :: u8)" "ucast (drop_bit 8 w) = (ucast c :: u8)"
    "ucast (drop_bit 16 w) = (ucast c :: u8)" "ucast (drop_bit 24 w) = (ucast c :: u8)"
proof -
  have m: "c AND 0xFF = take_bit 8 c"
    by (simp add: take_bit_eq_mask mask_numeral)
  show "ucast w = (ucast c :: u8)" "ucast (drop_bit 8 w) = (ucast c :: u8)"
    "ucast (drop_bit 16 w) = (ucast c :: u8)" "ucast (drop_bit 24 w) = (ucast c :: u8)"
    unfolding w_def m by (rule bit_word_eqI; auto simp: bit_simps)+
qed

lemma unat_le_2p32: "unat (x :: u32) \<le> 4294967296"
  by (rule order_less_imp_le) simp

lemma memset_eq: "memset v c n m = block_fill v (unat n) (ucast c) m"
proof (cases "v mod 4 = 0 \<and> n mod 4 = 0 \<and> n \<noteq> 0")
  case True
  define w where "w = push_bit 24 (c AND 0xFF) OR push_bit 16 (c AND 0xFF) OR push_bit 8 (c AND 0xFF) OR (c AND 0xFF)"
  have "memset v c n m = rep_stosl (unat (n div 4)) v w m"
    using True by (simp only: memset_def Let_def w_def) simp
  also have "\<dots> = rep_stosb (4 * unat (n div 4)) v w m"
    by (rule rep_stosl_eq_stosb) (simp_all only: w_def replicate_byte_word)
  also have "\<dots> = block_fill v (unat n) (ucast w) m"
    using True by (simp add: unat_mod4 rep_stosb_eq unat_le_2p32)
  also have "ucast w = (ucast c :: u8)"
    by (simp only: w_def replicate_byte_word)
  finally show ?thesis .
next
  case False
  then show ?thesis
    by (auto simp: memset_def rep_stosb_eq unat_le_2p32)
qed

text \<open>
  A forward copy is right when no byte is written before it is read; a backward copy when the
  destination is the higher block.
\<close>

lemma rep_movsb_forward:
  assumes "n \<le> 2 ^ 32" and "\<And>i. i < n \<Longrightarrow> i \<le> unat (s + of_nat i - d)"
  shows "rep_movsb False n d s m = block_copy d s n m"
  using assms
proof (induction n arbitrary: d s m)
  case (Suc n)
  have "rep_movsb False n (d + 1) (s + 1) (m(d := m s)) = block_copy (d + 1) (s + 1) n (m(d := m s))"
  proof (rule Suc.IH)
    fix i assume "i < n"
    then show "i \<le> unat (s + 1 + of_nat i - (d + 1))"
      using Suc.prems(2)[of i] by (simp add: add_diff_eq)
  qed (use Suc.prems in simp)
  also have "\<dots> = block_copy d s (Suc n) m"
  proof
    fix x
    show "block_copy (d + 1) (s + 1) n (m(d := m s)) x = block_copy d s (Suc n) m x"
    proof (cases "x = d")
      case True
      with Suc.prems(1) show ?thesis by (simp add: block_copy_def)
    next
      case False
      have "s + (x - d) \<noteq> d" if "unat (x - d) \<le> n"
      proof
        assume eq: "s + (x - d) = d"
        have "unat (x - d) \<le> unat (s + of_nat (unat (x - d)) - d)"
          using that by (intro Suc.prems(2)) simp
        with eq have "unat (x - d) = 0" by simp
        with False show False by (simp add: unat_eq_0)
      qed
      with False show ?thesis
        by (auto simp: block_copy_def unat_diff_Suc algebra_simps)
    qed
  qed
  finally show ?case by simp
qed (simp add: block_copy_def)

lemma rep_movsb_backward:
  assumes "n \<le> 2 ^ 32" and "\<And>i j. i < j \<Longrightarrow> j < n \<Longrightarrow> s + of_nat i \<noteq> d + of_nat j"
  shows "rep_movsb True n (d + of_nat n - 1) (s + of_nat n - 1) m = block_copy d s n m"
  using assms
proof (induction n arbitrary: m)
  case (Suc n)
  let ?m = "m(d + of_nat n := m (s + of_nat n))"
  have "rep_movsb True (Suc n) (d + of_nat (Suc n) - 1) (s + of_nat (Suc n) - 1) m
      = rep_movsb True n (d + of_nat n - 1) (s + of_nat n - 1) ?m"
    by simp
  also have "\<dots> = block_copy d s n ?m"
    using Suc.prems by (intro Suc.IH) auto
  also have "\<dots> = block_copy d s (Suc n) m"
  proof
    fix x
    show "block_copy d s n ?m x = block_copy d s (Suc n) m x"
    proof (cases "unat (x - d) < n")
      case True
      then have "s + of_nat (unat (x - d)) \<noteq> d + of_nat n"
        by (intro Suc.prems(2)) auto
      with True show ?thesis by (simp add: block_copy_def)
    next
      case False
      show ?thesis
      proof (cases "unat (x - d) = n")
        case True
        then have "x = d + of_nat n" by (simp flip: True)
        with True show ?thesis by (simp add: block_copy_def)
      next
        case far: False
        with False have "x \<noteq> d + of_nat n"
          using Suc.prems(1) by (auto simp: unat_of_nat32)
        with far False show ?thesis by (simp add: block_copy_def)
      qed
    qed
  qed
  finally show ?case .
qed (simp add: block_copy_def)

lemma movs4:
  fixes m :: bmem
  assumes "(edi - esi) mod 4 = 0"
  shows "rep_movsb False (Suc (Suc (Suc (Suc n)))) edi esi m = rep_movsb False n (edi + 4) (esi + 4)
      (m(edi := m esi, edi + 1 := m (esi + 1), edi + 2 := m (esi + 2), edi + 3 := m (esi + 3)))"
    and "rep_movsb True (Suc (Suc (Suc (Suc n)))) (edi + 3) (esi + 3) m = rep_movsb True n (edi - 1) (esi - 1)
      (m(edi := m esi, edi + 1 := m (esi + 1), edi + 2 := m (esi + 2), edi + 3 := m (esi + 3)))"
proof -
  let ?m = "m(edi := m esi, edi + 1 := m (esi + 1), edi + 2 := m (esi + 2), edi + 3 := m (esi + 3))"
  define k where "k = edi - esi"
  have edi: "edi = esi + k"
    by (simp add: k_def)
  have "unat (k mod 4) = 0"
    using assms(1) by (simp add: k_def)
  then have k: "unat k mod 4 = 0"
    by (simp add: unat_mod)
  have ne: "k \<noteq> 1" "k \<noteq> 2" "k \<noteq> 3" "k \<noteq> -1" "k \<noteq> -2" "k \<noteq> -3"
    using k by (auto simp: unsigned_minus_1_eq_mask mask_eq_exp_minus_1)
  show "rep_movsb False (Suc (Suc (Suc (Suc n)))) edi esi m = rep_movsb False n (edi + 4) (esi + 4) ?m"
    unfolding edi using ne by (simp add: add.assoc) 
  show "rep_movsb True (Suc (Suc (Suc (Suc n)))) (edi + 3) (esi + 3) m = rep_movsb True n (edi - 1) (esi - 1) ?m"
  proof -
    have "k + 3 \<noteq> 0" "k + 2 \<noteq> 0" "k + 1 \<noteq> 0"
      using ne by (simp_all flip: eq_neg_iff_add_eq_0)
    then have ne': "k + 3 \<noteq> 0" "2 + k \<noteq> 0" "1 + k \<noteq> 0"
      by (simp_all add: add.commute)
    have twist: "m(edi + 3 := a, 2 + edi := b, 1 + edi := c, edi := d)
        = m(edi := d, edi + 1 := c, edi + 2 := b, edi + 3 := a)" for a b c d
      by (rule ext) (auto simp: add.commute[of 1] add.commute[of 2])
    show ?thesis
      unfolding twist[symmetric] unfolding edi
      using ne ne' by (simp add: add.commute[of esi])
  qed
qed

lemma rep_movsl_eq:
  assumes "(edi - esi) mod 4 = 0"
  shows "rep_movsl False n edi esi m = rep_movsb False (4 * n) edi esi m"
    and "rep_movsl True n edi esi m = rep_movsb True (4 * n) (edi + 3) (esi + 3) m"
proof -
  have four: "4 * Suc n = Suc (Suc (Suc (Suc (4 * n))))" for n
    by simp
  show "rep_movsl False n edi esi m = rep_movsb False (4 * n) edi esi m"
    using assms
  proof (induction n arbitrary: edi esi m)
    case (Suc n)
    have "(edi + 4 - (esi + 4)) mod 4 = 0"
      using Suc.prems by simp
    from Suc.IH[OF this] show ?case
      by (simp only: four rep_movsl.simps movs4(1)[OF Suc.prems] if_False)
  qed simp
  show "rep_movsl True n edi esi m = rep_movsb True (4 * n) (edi + 3) (esi + 3) m"
    using assms
  proof (induction n arbitrary: edi esi m)
    case (Suc n)
    have "(edi - 4 - (esi - 4)) mod 4 = 0"
      using Suc.prems by simp
    from Suc.IH[OF this] show ?case
      by (simp only: four rep_movsl.simps movs4(2)[OF Suc.prems] if_True) (simp add: fun_upd_def)
  qed simp
qed

lemma aligned_diff: "(s :: u32) mod 4 = 0 \<Longrightarrow> d mod 4 = 0 \<Longrightarrow> (d - s) mod 4 = 0"
proof -
  assume "s mod 4 = 0" and "d mod 4 = 0"
  then have "unat (s mod 4) = 0" and "unat (d mod 4) = 0" by simp_all
  then have "4 dvd unat s" and "4 dvd unat d" by (simp_all add: unat_mod mod_eq_0_iff_dvd)
  then have "4 dvd unat (d - s)"
    unfolding unat_sub_if' by simp
  then have "unat ((d - s) mod 4) = 0" by (simp add: unat_mod)
  then show ?thesis by (simp only: unat_eq_0)
qed

lemma memmove_forward:
  assumes "\<not> (s < d \<and> s + n > d)" and "unat s + unat n < 2 ^ 32" and "unat d + unat n \<le> 2 ^ 32"
  shows "rep_movsb False (unat n) d s m = block_copy d s (unat n) m"
proof (rule rep_movsb_forward)
  fix i assume i: "i < unat n"
  have sn: "unat (s + n) = unat s + unat n"
    using assms(2) by (simp add: unat_word_ariths)
  have si: "unat (s + of_nat i) = unat s + i"
    using assms(2) i by (simp add: unat_word_ariths unat_of_nat32)
  have "unat d \<le> unat s \<or> unat s + unat n \<le> unat d"
    using assms(1) sn by (auto simp: word_less_nat_alt not_less)
  then show "i \<le> unat (s + of_nat i - d)"
    using assms(3) i si by (auto simp: unat_sub_if')
qed (simp add: unat_le_2p32)

lemma memmove_backward:
  assumes "s < d" and "unat s + unat n < 2 ^ 32" and "unat d + unat n \<le> 2 ^ 32"
  shows "rep_movsb True (unat n) (d + n - 1) (s + n - 1) m = block_copy d s (unat n) m"
proof -
  have "s + of_nat i \<noteq> d + of_nat j" if "i < j" "j < unat n" for i j
  proof
    assume "s + of_nat i = d + of_nat j"
    then have "unat (s + of_nat i) = unat (d + of_nat j)" by simp
    then show False
      using that assms by (simp add: unat_word_ariths unat_of_nat32 word_less_nat_alt)
  qed
  then show ?thesis
    using rep_movsb_backward[of "unat n" s d m] by (simp add: unat_le_2p32)
qed

lemma memmove_eq:
  assumes "unat src + unat n < 2 ^ 32" and "unat dst + unat n \<le> 2 ^ 32"
  shows "memmove dst src n m = block_copy dst src (unat n) m"
proof (cases "src < dst \<and> src + n > dst")
  case True
  have "rep_movsl True (unat (n div 4)) (dst + n - 4) (src + n - 4) m
      = rep_movsb True (unat n) (dst + n - 1) (src + n - 1) m"
    if "(src + n) mod 4 = 0" "(dst + n) mod 4 = 0" "n mod 4 = 0"
    using rep_movsl_eq(2)[of "dst + n - 4" "src + n - 4" "unat (n div 4)" m]
      aligned_diff[OF that(1,2)] unat_mod4[OF that(3)] by simp
  with True show ?thesis
    unfolding memmove_def Let_def
    using memmove_backward[OF _ assms, of m] by auto
next
  case False
  have "rep_movsl False (unat (n div 4)) dst src m = rep_movsb False (unat n) dst src m"
    if "src mod 4 = 0" "dst mod 4 = 0" "n mod 4 = 0"
    using rep_movsl_eq(1)[OF aligned_diff[OF that(1,2)]] unat_mod4[OF that(3)] by simp
  with False show ?thesis
    unfolding memmove_def Let_def
    using memmove_forward[OF False assms, of m] by auto
qed

section \<open>Number parsing\<close>

text \<open>The value of a digit string, most significant digit first.\<close>

definition digits_val :: "int \<Rightarrow> int \<Rightarrow> u8 list \<Rightarrow> int" where
  "digits_val base v cs = foldl (\<lambda>v c. v * base + the (strtol_digit c)) v cs"

definition digit_of_base :: "int \<Rightarrow> u8 \<Rightarrow> bool" where
  "digit_of_base base c \<longleftrightarrow> (case strtol_digit c of None \<Rightarrow> False | Some d \<Rightarrow> d < base)"

lemma digits_val_simps [simp]:
  "digits_val base v [] = v"
  "digits_val base v (c # cs) = digits_val base (v * base + the (strtol_digit c)) cs"
  by (simp_all add: digits_val_def)

lemma strtol_digit_nonneg: "strtol_digit c = Some d \<Longrightarrow> 0 \<le> d"
  by (auto simp: strtol_digit_def word_le_def split: if_splits)

lemma digits_val_mono:
  assumes "1 \<le> base" and "0 \<le> v" and "list_all (digit_of_base base) cs"
  shows "v \<le> digits_val base v cs"
  using assms(2,3)
proof (induction cs arbitrary: v)
  case (Cons c cs)
  then obtain d where d: "strtol_digit c = Some d" "0 \<le> d"
    by (auto simp: digit_of_base_def split: option.splits dest: strtol_digit_nonneg)
  have "v * 1 \<le> v * base"
    using assms(1) Cons.prems(1) by (intro mult_left_mono) auto
  then have "v \<le> v * base + d"
    using d by simp
  also have "\<dots> \<le> digits_val base (v * base + d) cs"
    using Cons d assms(1) by simp
  finally show ?case by (simp add: d)
qed simp

lemma strtol_loop_digits:
  assumes "1 \<le> base" and "0 \<le> v" and "list_all (digit_of_base base) cs"
    and "\<not> digit_of_base base z" and "digits_val base v cs < 2 ^ 31"
  shows "strtol_loop (cs @ z # rest) k base v = Inr (digits_val base v cs, k + length cs)"
  using assms(2,3,5)
proof (induction cs arbitrary: v k)
  case Nil
  with assms(4) show ?case
    by (auto simp: digit_of_base_def split: option.splits)
next
  case (Cons c cs)
  then obtain d where d: "strtol_digit c = Some d" "0 \<le> d" "d < base"
    by (auto simp: digit_of_base_def split: option.splits dest: strtol_digit_nonneg)
  let ?v = "v * base + d"
  have nonneg: "0 \<le> ?v"
    using Cons.prems(1) assms(1) d by simp
  have "?v \<le> digits_val base ?v cs"
    using assms(1) nonneg Cons.prems(2) by (intro digits_val_mono) auto
  with Cons.prems(3) d have "to_int32 ?v = ?v"
    using nonneg by (intro to_int32_id) auto
  with Cons nonneg d show ?case by simp
qed

lemma skip_ws_stop: "c \<noteq> 0x20 \<Longrightarrow> c \<noteq> 0x09 \<Longrightarrow> skip_ws (c # s) k = Inr (c # s, k)"
  by simp

lemma digit_of_base_facts:
  assumes "digit_of_base base c"
  shows "c \<noteq> 0x20" "c \<noteq> 0x09" "c \<noteq> 0x2B" "c \<noteq> 0x2D" "c \<noteq> 0"
  using assms by (auto simp: digit_of_base_def strtol_digit_def)

lemma strtol_reads:
  assumes "2 \<le> base" and "cs \<noteq> []" and "list_all (digit_of_base base) cs" and "\<not> digit_of_base base z"
    and "digits_val base 0 cs < 2 ^ 31" and "base = 16 \<Longrightarrow> \<not> (hd cs = 0x30 \<and> hd (tl cs @ [z]) = 0x78)"
  shows "strtol (cs @ z # rest) base = Inr (digits_val base 0 cs, length cs) \<and>
    strtol (0x2D # cs @ z # rest) base = Inr (- digits_val base 0 cs, Suc (length cs))"
proof -
  obtain c cs' where cs: "cs = c # cs'"
    using assms(2) by (cases cs) auto
  have c: "digit_of_base base c"
    using assms(3) cs by simp
  note f = digit_of_base_facts[OF c]
  have nohex: "strtol_base (cs @ z # rest) k base = Inr (base, cs @ z # rest, k)" for k
    using assms(1,6) cs by (cases cs') (auto simp: strtol_base_def)
  have "0 \<le> digits_val base 0 cs"
    using assms(1,3) by (intro digits_val_mono) auto
  then have neg: "to_int32 (- digits_val base 0 cs) = - digits_val base 0 cs"
    using assms(5) by (intro to_int32_id) auto
  have loop: "strtol_loop (cs @ z # rest) k base 0 = Inr (digits_val base 0 cs, k + length cs)" for k
    using assms(1,3,4,5) by (intro strtol_loop_digits) auto
  have "strtol_sign (cs @ z # rest) 0 = Inr (False, cs @ z # rest, 0)"
    and "skip_ws (cs @ z # rest) 0 = Inr (cs @ z # rest, 0)"
    using f cs by (simp_all add: strtol_sign_def)
  moreover have "strtol_sign (0x2D # cs @ z # rest) 0 = Inr (True, cs @ z # rest, 1)"
    by (simp add: strtol_sign_def)
  ultimately show ?thesis
    by (simp add: strtol_def nohex loop neg)
qed

section \<open>Properties\<close>

text \<open>
  C1. \<open>strcat\<close> on a terminated destination with room for both texts leaves the destination text
  followed by the source text and one terminator, changes no byte behind that terminator, and
  faults exactly when a terminator is missing or the result does not fit.
\<close>

theorem strcat_appends:
  "strcat dst src =
     (if terminated dst \<and> terminated src \<and> length (cstr dst) + length (cstr src) < length dst
      then Inr (cstr dst @ cstr src @ 0 # drop (Suc (length (cstr dst) + length (cstr src))) dst)
      else Inl Fault)"
  by (rule strcat_eq)

text \<open>
  C2. On terminated strings \<open>strcmp\<close> always returns; it returns zero exactly on equal texts, a
  negative number exactly when the first text is lexicographically smaller as unsigned bytes,
  and \<open>strncmp\<close> does the same for the first \<open>n\<close> characters.
\<close>

theorem strcmp_lexicographic:
  assumes "terminated p" and "terminated q"
  shows "(\<exists>r. strcmp p q = Inr r \<and> (r = 0 \<longleftrightarrow> cstr p = cstr q) \<and> (r < 0 \<longleftrightarrow> byte_less (cstr p) (cstr q))) \<and>
    (\<exists>r. strncmp p q n = Inr r \<and> (r = 0 \<longleftrightarrow> take (unat n) (cstr p) = take (unat n) (cstr q)) \<and>
      (r < 0 \<longleftrightarrow> byte_less (take (unat n) (cstr p)) (take (unat n) (cstr q))))"
  using strcmp_sign[OF assms] strncmp_loop_sign[OF assms, of "unat n"] by (simp add: strncmp_def)

theorem strcmp_lexicographic_witness:
  "terminated [0x61, 0x62, 0] \<and> terminated [0x61, 0xE9, 0] \<and>
   (\<exists>r. strcmp [0x61, 0x62, 0] [0x61, 0xE9, 0] = Inr r \<and> r < 0)"
  using strcmp_lexicographic[of "[0x61, 0x62, 0]" "[0x61, 0xE9, 0]" 0] by auto

text \<open>
  C3. \<open>memmove\<close> (and \<open>memcpy\<close>, which is defined by it) copies as if the whole source were read
  before anything is written, for any overlap of the two blocks and whichever of the four
  \<open>rep movs\<close> forms the alignment and direction tests select, and changes nothing else. The
  blocks must not reach the end of the 32-bit address space, where the overlap test wraps.
\<close>

theorem memmove_overlap_safe:
  assumes "unat src + unat n < 2 ^ 32" and "unat dst + unat n \<le> 2 ^ 32"
  shows "memmove dst src n m = block_copy dst src (unat n) m \<and>
    memcpy dst src n m = block_copy dst src (unat n) m"
  using memmove_eq[OF assms] by (simp add: memcpy_def)

theorem memmove_overlap_safe_witness:
  "memmove 0x1002 0x1000 5 ucast 0x1006 = 0x04 \<and> memmove 0x1002 0x1000 5 ucast 0x1007 = 0x07"
  using memmove_overlap_safe[where src = "0x1000" and n = 5 and dst = "0x1002" and m = ucast] by (simp add: block_copy_def)

text \<open>
  The word-at-a-time path of \<open>memset\<close> (aligned block, length a multiple of four) and its
  byte-at-a-time path have the same effect: the block holds the low byte of \<open>c\<close> everywhere and
  no other byte changes.
\<close>

lemma memset_fills: "memset v c n m = block_fill v (unat n) (ucast c) m"
  by (rule memset_eq)



end
