(* ===== verification/Print_Fmt.thy ===== *)
theory Print_Fmt
  imports String_Lib
begin

text \<open>
  Formatted output: \<^verbatim>\<open>lib/printfmt.c\<close> and the buffered printing of \<^verbatim>\<open>lib/printf.c\<close>.

  \<open>putch\<close> is a function on the state behind \<open>putdat\<close>. The variable arguments are the 32-bit
  words on the stack; the word of a \<open>char *\<close> argument comes with the bytes from the address to
  the end of the object it points into. Taking an argument that is not there, or following a
  pointer to no object, is a \<open>Fault\<close>.
\<close>

datatype vararg = VWord u32 | VStr u32 "u8 list"

type_synonym 's putter = "int \<Rightarrow> 's \<Rightarrow> 's result"

section \<open>Numbers (printnum, getuint, getint)\<close>

fun put_times :: "'s putter \<Rightarrow> int \<Rightarrow> nat \<Rightarrow> 's \<Rightarrow> 's result" where
  "put_times putch c 0 s = Inr s"
| "put_times putch c (Suc n) s = rbind (putch c s) (put_times putch c n)"

definition hexdigits :: "u8 list" where
  "hexdigits = [0x30, 0x31, 0x32, 0x33, 0x34, 0x35, 0x36, 0x37, 0x38, 0x39, 0x61, 0x62, 0x63, 0x64, 0x65, 0x66, 0]"

lemma ucast_base: "unat (ucast (base :: u32) :: u64) = unat base"
  by (simp add: unsigned_ucast_eq take_bit_nat_eq_self order_less_trans[OF unat_lt_2p32])

text \<open>A base below 2 would divide by zero or recurse without end.\<close>

function printnum :: "'s putter \<Rightarrow> u64 \<Rightarrow> u32 \<Rightarrow> int \<Rightarrow> int \<Rightarrow> 's \<Rightarrow> 's result" where
  "printnum putch num base width padc s =
     (if base < 2 then Inl Fault
      else rbind (if ucast base \<le> num then printnum putch (num div ucast base) base (width - 1) padc s
                  else put_times putch padc (nat (width - 1)) s) (\<lambda>s.
        rbind (aget hexdigits (unat (num mod ucast base))) (\<lambda>d. putch (sint d) s)))"
  by pat_completeness auto

termination
proof (relation "measure (\<lambda>(_, num, _). unat num)")
  fix num :: u64 and base :: u32
  assume "\<not> base < 2" "ucast base \<le> num"
  then have "2 \<le> unat base" "unat base \<le> unat num"
    by (auto simp: word_less_nat_alt word_le_nat_alt ucast_base)
  then show "((p, num div ucast base, base, w - 1, c, s), p, num, base, w, c, s) \<in> measure (\<lambda>(_, num, _). unat num)" for p w c s
    by (simp add: unat_div ucast_base)
qed auto

declare printnum.simps [simp del]

fun va_word :: "vararg list \<Rightarrow> (u32 \<times> vararg list) result" where
  "va_word [] = Inl Fault"
| "va_word (VWord w # ap) = Inr (w, ap)"
| "va_word (VStr w _ # ap) = Inr (w, ap)"

definition va_long_long :: "vararg list \<Rightarrow> (u64 \<times> vararg list) result" where
  "va_long_long ap = rbind (va_word ap) (\<lambda>(lo, ap). rbind (va_word ap) (\<lambda>(hi, ap).
     Inr (push_bit 32 (ucast hi) OR ucast lo, ap)))"

fun va_string :: "vararg list \<Rightarrow> (u8 list option \<times> vararg list) result" where
  "va_string [] = Inl Fault"
| "va_string (VWord w # ap) = (if w = 0 then Inr (None, ap) else Inl Fault)"
| "va_string (VStr w bs # ap) = Inr (if w = 0 then None else Some bs, ap)"

definition getuint :: "vararg list \<Rightarrow> nat \<Rightarrow> (u64 \<times> vararg list) result" where
  "getuint ap lflag = (if lflag \<ge> 2 then va_long_long ap else rbind (va_word ap) (\<lambda>(w, ap). Inr (ucast w, ap)))"

definition getint :: "vararg list \<Rightarrow> nat \<Rightarrow> (u64 \<times> vararg list) result" where
  "getint ap lflag = (if lflag \<ge> 2 then va_long_long ap else rbind (va_word ap) (\<lambda>(w, ap). Inr (scast w, ap)))"

section \<open>The format loop (vprintfmt)\<close>

text \<open>The local variables of one conversion.\<close>

record fspec =
  padc :: int
  width :: int
  precision :: int
  lflag :: nat
  altflag :: bool

definition fspec0 :: fspec where
  "fspec0 = \<lparr>padc = 0x20, width = -1, precision = -1, lflag = 0, altflag = False\<rparr>"

definition process_precision :: "fspec \<Rightarrow> fspec" where
  "process_precision sp = (if width sp < 0 then sp\<lparr>width := precision sp, precision := -1\<rparr> else sp)"

definition is_digit :: "u8 \<Rightarrow> bool" where
  "is_digit c \<longleftrightarrow> 0x30 \<le> c \<and> c \<le> 0x39"

text \<open>The digit loop: the number read so far, and the format from the first byte that is no digit.\<close>

fun read_width :: "int \<Rightarrow> u8 list \<Rightarrow> (int \<times> u8 list) result" where
  "read_width p [] = Inl Fault"
| "read_width p (c # fmt) =
     (if is_digit c then read_width (to_int32 (p * 10 + uint c - 0x30)) fmt else Inr (p, c # fmt))"

lemma read_width_length: "read_width p fmt = Inr (q, fmt') \<Longrightarrow> length fmt' \<le> length fmt"
  by (induction p fmt rule: read_width.induct) (auto split: if_splits)

text \<open>The \<open>reswitch\<close> loop over flags, width, precision and length up to the conversion byte.\<close>

function fmt_flags :: "fspec \<Rightarrow> u8 list \<Rightarrow> vararg list \<Rightarrow> (u8 \<times> fspec \<times> u8 list \<times> vararg list) result" where
  "fmt_flags sp [] ap = Inl Fault"
| "fmt_flags sp (c # fmt) ap =
     (if c = 0x2D then fmt_flags (sp\<lparr>padc := 0x2D\<rparr>) fmt ap
      else if c = 0x30 then fmt_flags (sp\<lparr>padc := 0x30\<rparr>) fmt ap
      else if is_digit c then
        rbind (read_width (uint c - 0x30) fmt) (\<lambda>(p, fmt).
          fmt_flags (process_precision (sp\<lparr>precision := p\<rparr>)) fmt ap)
      else if c = 0x2A then
        rbind (va_word ap) (\<lambda>(w, ap). fmt_flags (process_precision (sp\<lparr>precision := sint w\<rparr>)) fmt ap)
      else if c = 0x2E then fmt_flags (if width sp < 0 then sp\<lparr>width := 0\<rparr> else sp) fmt ap
      else if c = 0x23 then fmt_flags (sp\<lparr>altflag := True\<rparr>) fmt ap
      else if c = 0x6C then fmt_flags (sp\<lparr>lflag := lflag sp + 1\<rparr>) fmt ap
      else Inr (c, sp, fmt, ap))"
  by pat_completeness auto
termination
  by (relation "measure (\<lambda>(_, fmt, _). length fmt)") (auto dest: read_width_length)

lemma fmt_flags_length:
  "fmt_flags sp fmt ap = Inr (d, sp', fmt', ap') \<Longrightarrow> length fmt' < length fmt"
proof (induction sp fmt ap rule: fmt_flags.induct)
  case (2 sp c fmt ap)
  note IH = "2.IH"
  show ?case
  proof (cases "is_digit c \<and> c \<noteq> 0x30")
    case True
    then have ne: "c \<noteq> 0x2D" "c \<noteq> 0x30" "is_digit c" by (auto simp: is_digit_def)
    with "2.prems" obtain p f where f: "read_width (uint c - 48) fmt = Inr (p, f)"
      "fmt_flags (process_precision (sp\<lparr>precision := p\<rparr>)) f ap = Inr (d, sp', fmt', ap')"
      by (auto simp: rbind_Inr_iff)
    then show ?thesis using IH(3)[OF ne f(1) refl f(2)] read_width_length[OF f(1)] by simp
  next
    case False
    then have nd: "c = 0x30 \<or> \<not> is_digit c" by blast
    have "length fmt' < length fmt" if c: "c \<in> {0x2D, 0x30, 0x2A, 0x2E, 0x23, 0x6C}"
    proof -
      have nz: "\<not> is_digit 0x2D" "is_digit 0x30" "\<not> is_digit 0x2A" "\<not> is_digit 0x2E" "\<not> is_digit 0x23" "\<not> is_digit 0x6C"
        by (simp_all add: is_digit_def)
      consider (1) "c = 0x2D" | (2) "c = 0x30" | (3) "c = 0x2A" | (4) "c = 0x2E" | (5) "c = 0x23" | (6) "c = 0x6C"
        using c by blast
      then show ?thesis
      proof cases
        case 3
        with "2.prems" obtain w ap1 where "va_word ap = Inr (w, ap1)"
          "fmt_flags (process_precision (sp\<lparr>precision := sint w\<rparr>)) fmt ap1 = Inr (d, sp', fmt', ap')"
          by (auto simp: rbind_Inr_iff nz(3))
        then show ?thesis using IH(4) nz(3) 3 by simp
      next
        case 1
        with "2.prems" IH(1) show ?thesis by simp
      next
        case 2
        with "2.prems" IH(2) show ?thesis by simp
      next
        case 4
        with "2.prems" IH(5) nz(4) show ?thesis by simp
      next
        case 5
        with "2.prems" IH(6) nz(5) show ?thesis by simp
      next
        case 6
        with "2.prems" IH(7) nz(6) show ?thesis by simp
      qed
    qed
    with nd "2.prems" show ?thesis by (auto split: if_splits)
  qed
qed simp

text \<open>\<open>%s\<close>: the text up to the precision, and the width that is left.\<close>

fun put_string :: "'s putter \<Rightarrow> bool \<Rightarrow> u8 list \<Rightarrow> int \<Rightarrow> int \<Rightarrow> 's \<Rightarrow> (int \<times> 's) result" where
  "put_string putch alt [] prec w s = Inl Fault"
| "put_string putch alt (c # p) prec w s =
     (if c \<noteq> 0 \<and> (prec < 0 \<or> prec - 1 \<ge> 0) then
        rbind (putch (if alt \<and> (sint c < 0x20 \<or> sint c > 0x7E) then 0x3F else sint c) s) (\<lambda>s.
          put_string putch alt p (if prec < 0 then prec else prec - 1) (w - 1) s)
      else Inr (w, s))"

definition conv_string :: "'s putter \<Rightarrow> fspec \<Rightarrow> u8 list \<Rightarrow> 's \<Rightarrow> 's result" where
  "conv_string putch sp p s =
     rbind (if width sp > 0 \<and> padc sp \<noteq> 0x2D
            then rbind (strnlen p (word_of_int (precision sp))) (\<lambda>n.
                 rbind (put_times putch (padc sp) (nat (width sp - n)) s) (\<lambda>s. Inr (min (width sp - n) 0, s)))
            else Inr (width sp, s)) (\<lambda>(w, s).
     rbind (put_string putch (altflag sp) p (precision sp) w s) (\<lambda>(w, s). put_times putch 0x20 (nat w) s))"

text \<open>\<open>error_string\<close> (\<^verbatim>\<open>(null)\<close> entries are \<open>None\<close>); \<open>ascii\<close> is the text of a string literal.\<close>

definition ascii :: "string \<Rightarrow> u8 list" where
  "ascii t = map of_char t @ [0]"

definition MAXERROR :: int where "MAXERROR = 9"

definition error_string :: "u8 list option list" where
  "error_string = None # map (Some \<circ> ascii) [''unspecified error'', ''bad environment'', ''invalid parameter'',
     ''out of memory'', ''out of environments'', ''segmentation fault'', ''env is not recving'',
     ''unexpected end of file'']"

definition conv_error :: "(u8 list \<Rightarrow> vararg list \<Rightarrow> 's \<Rightarrow> 's result) \<Rightarrow> int \<Rightarrow> 's \<Rightarrow> 's result" where
  "conv_error printfmt err s =
     (let err = (if err < 0 then to_int32 (- err) else err) in
      if err \<ge> MAXERROR then printfmt (ascii ''error %d'') [VWord (word_of_int err)] s
      else if err < 0 then Inl Fault
      else rbind (aget error_string (nat err)) (\<lambda>p. case p of
          None \<Rightarrow> printfmt (ascii ''error %d'') [VWord (word_of_int err)] s
        | Some t \<Rightarrow> printfmt (ascii ''%s'') [VStr 1 t] s))"

text \<open>
  The conversions. The result is the remaining arguments, or \<open>None\<close> for an unrecognised byte:
  then \<open>'%'\<close> was printed and the format restarts behind it.
\<close>

definition convert ::
    "(u8 list \<Rightarrow> vararg list \<Rightarrow> 's \<Rightarrow> 's result) \<Rightarrow> 's putter \<Rightarrow> u8 \<Rightarrow> fspec \<Rightarrow> vararg list \<Rightarrow> 's \<Rightarrow>
       (vararg list option \<times> 's) result" where
  "convert printfmt putch c sp ap s =
     (let number = (\<lambda>num base ap s. rbind (printnum putch num base (width sp) (padc sp) s) (\<lambda>s. Inr (Some ap, s))) in
      if c = 0x63 then rbind (va_word ap) (\<lambda>(w, ap). rbind (putch (sint w) s) (\<lambda>s. Inr (Some ap, s)))
      else if c = 0x65 then rbind (va_word ap) (\<lambda>(w, ap). rbind (conv_error printfmt (sint w) s) (\<lambda>s. Inr (Some ap, s)))
      else if c = 0x73 then rbind (va_string ap) (\<lambda>(p, ap).
        rbind (conv_string putch sp (case p of None \<Rightarrow> ascii ''(null)'' | Some t \<Rightarrow> t) s) (\<lambda>s. Inr (Some ap, s)))
      else if c = 0x64 then rbind (getint ap (lflag sp)) (\<lambda>(num, ap).
        if sint num < 0 then rbind (putch 0x2D s) (number (- num) 10 ap) else number num 10 ap s)
      else if c = 0x75 then rbind (getuint ap (lflag sp)) (\<lambda>(num, ap). number num 10 ap s)
      else if c = 0x6F then rbind (put_times putch 0x58 3 s) (\<lambda>s. Inr (Some ap, s))
      else if c = 0x70 then rbind (putch 0x30 s) (\<lambda>s. rbind (putch 0x78 s) (\<lambda>s.
        rbind (va_word ap) (\<lambda>(w, ap). number (ucast w) 16 ap s)))
      else if c = 0x78 then rbind (getuint ap (lflag sp)) (\<lambda>(num, ap). number num 16 ap s)
      else if c = 0x25 then rbind (putch (uint c) s) (\<lambda>s. Inr (Some ap, s))
      else rbind (putch 0x25 s) (\<lambda>s. Inr (None, s)))"

text \<open>
  The outer loop. \<open>%e\<close> calls \<open>printfmt\<close>, so the loop is defined over that call first; the two
  formats it passes contain no \<open>%e\<close>, one level of the call is enough (\<open>vprintfmt_unfold\<close> below).
\<close>

function vprintfmt_with ::
    "(u8 list \<Rightarrow> vararg list \<Rightarrow> 's \<Rightarrow> 's result) \<Rightarrow> 's putter \<Rightarrow> u8 list \<Rightarrow> vararg list \<Rightarrow> 's \<Rightarrow> 's result" where
  "vprintfmt_with printfmt putch [] ap s = Inl Fault"
| "vprintfmt_with printfmt putch (c # fmt) ap s =
     (if c = 0 then Inr s
      else if c \<noteq> 0x25 then rbind (putch (uint c) s) (vprintfmt_with printfmt putch fmt ap)
      else rbind (fmt_flags fspec0 fmt ap) (\<lambda>(d, sp, fmt', ap').
           rbind (convert printfmt putch d sp ap' s) (\<lambda>(r, s).
             case r of None \<Rightarrow> vprintfmt_with printfmt putch fmt ap' s
             | Some ap'' \<Rightarrow> vprintfmt_with printfmt putch fmt' ap'' s)))"
  by pat_completeness auto
termination
  by (relation "measure (\<lambda>(_, _, fmt, _). length fmt)") (auto dest: fmt_flags_length)

definition vprintfmt :: "'s putter \<Rightarrow> u8 list \<Rightarrow> vararg list \<Rightarrow> 's \<Rightarrow> 's result" where
  "vprintfmt putch = vprintfmt_with (vprintfmt_with (\<lambda>_ _ _. Inl Fault) putch) putch"

definition printfmt :: "'s putter \<Rightarrow> u8 list \<Rightarrow> vararg list \<Rightarrow> 's \<Rightarrow> 's result" where
  "printfmt putch fmt ap = vprintfmt putch fmt ap"

section \<open>Printing to a buffer (sprintputch, vsnprintf, snprintf)\<close>

text \<open>\<open>sb_mem\<close> is the object \<open>buf\<close> points into, the two pointers are offsets into it.\<close>

record sprintbuf =
  sb_mem :: "u8 list"
  sb_buf :: int
  sb_ebuf :: int
  sb_cnt :: int

definition sprintputch :: "sprintbuf putter" where
  "sprintputch ch b =
     (let b = b\<lparr>sb_cnt := sb_cnt b + 1\<rparr> in
      if sb_buf b < sb_ebuf b
      then rbind (aset (sb_mem b) (nat (sb_buf b)) (word_of_int ch)) (\<lambda>m. Inr (b\<lparr>sb_mem := m, sb_buf := sb_buf b + 1\<rparr>))
      else Inr b)"

definition E_INVAL :: int where "E_INVAL = 3"

definition vsnprintf :: "u8 list option \<Rightarrow> int \<Rightarrow> u8 list \<Rightarrow> vararg list \<Rightarrow> (int \<times> u8 list option) result" where
  "vsnprintf buf n fmt ap =
     (case buf of None \<Rightarrow> Inr (- E_INVAL, None)
      | Some m \<Rightarrow>
        if n < 1 then Inr (- E_INVAL, Some m)
        else rbind (vprintfmt sprintputch fmt ap \<lparr>sb_mem = m, sb_buf = 0, sb_ebuf = n - 1, sb_cnt = 0\<rparr>) (\<lambda>b.
             rbind (aset (sb_mem b) (nat (sb_buf b)) 0) (\<lambda>m. Inr (sb_cnt b, Some m))))"

definition snprintf :: "u8 list option \<Rightarrow> int \<Rightarrow> u8 list \<Rightarrow> vararg list \<Rightarrow> (int \<times> u8 list option) result" where
  "snprintf buf n fmt ap = vsnprintf buf n fmt ap"

section \<open>Printing through the puts system call (lib/printf.c)\<close>

text \<open>\<open>pb_calls\<close> records the buffers handed to \<open>puts\<close>, one system call each.\<close>

record printbuf =
  pb_idx :: nat
  pb_cnt :: int
  pb_buf :: "u8 list"
  pb_calls :: "u8 list list"

definition sys_puts :: "printbuf \<Rightarrow> printbuf" where
  "sys_puts b = b\<lparr>pb_calls := pb_calls b @ [take (pb_idx b) (pb_buf b)]\<rparr>"

definition putch_buffered :: "printbuf putter" where
  "putch_buffered ch b =
     rbind (aset (pb_buf b) (pb_idx b) (word_of_int ch)) (\<lambda>m.
     let b = b\<lparr>pb_buf := m, pb_idx := pb_idx b + 1\<rparr>;
         b = (if pb_idx b = 256 - 1 then (sys_puts b)\<lparr>pb_idx := 0\<rparr> else b) in
     Inr (b\<lparr>pb_cnt := pb_cnt b + 1\<rparr>))"

text \<open>\<open>mem0\<close>: what the uninitialised local buffer holds.\<close>

definition vcprintf :: "u8 list \<Rightarrow> u8 list \<Rightarrow> vararg list \<Rightarrow> (int \<times> u8 list list) result" where
  "vcprintf mem0 fmt ap =
     rbind (vprintfmt putch_buffered fmt ap \<lparr>pb_idx = 0, pb_cnt = 0, pb_buf = mem0, pb_calls = []\<rparr>) (\<lambda>b.
     Inr (pb_cnt b, pb_calls (sys_puts b)))"

definition cprintf :: "u8 list \<Rightarrow> u8 list \<Rightarrow> vararg list \<Rightarrow> (int \<times> u8 list list) result" where
  "cprintf mem0 fmt ap = vcprintf mem0 fmt ap"

section \<open>The contract of a character sink\<close>

text \<open>The reference sink: it keeps what it is given.\<close>

definition emit :: "int list putter" where
  "emit c l = Inr (l @ [c])"

text \<open>
  \<open>follows R e q\<close>: on related states, whenever \<open>e\<close> succeeds so does \<open>q\<close>, with related results;
  \<open>follows_val\<close> is the same for operations that also return a value.
\<close>

definition follows :: "('a \<Rightarrow> 'b \<Rightarrow> bool) \<Rightarrow> ('a \<Rightarrow> 'a result) \<Rightarrow> ('b \<Rightarrow> 'b result) \<Rightarrow> bool" where
  "follows R e q \<longleftrightarrow> (\<forall>a b a'. R a b \<longrightarrow> e a = Inr a' \<longrightarrow> (\<exists>b'. q b = Inr b' \<and> R a' b'))"

definition follows_val :: "('a \<Rightarrow> 'b \<Rightarrow> bool) \<Rightarrow> ('a \<Rightarrow> ('v \<times> 'a) result) \<Rightarrow> ('b \<Rightarrow> ('v \<times> 'b) result) \<Rightarrow> bool" where
  "follows_val R e q \<longleftrightarrow> (\<forall>a b v a'. R a b \<longrightarrow> e a = Inr (v, a') \<longrightarrow> (\<exists>b'. q b = Inr (v, b') \<and> R a' b'))"

lemma follows_skip [intro]: "follows R Inr Inr" "follows_val R (\<lambda>a. Inr (v, a)) (\<lambda>b. Inr (v, b))"
  by (auto simp: follows_def follows_val_def)

lemma follows_stop [intro]: "follows R (\<lambda>_. Inl x) q" "follows_val R (\<lambda>_. Inl x) q'"
  by (auto simp: follows_def follows_val_def)

lemma follows_bind:
  assumes "follows R e q"
  shows "follows R e' q' \<Longrightarrow> follows R (\<lambda>a. rbind (e a) e') (\<lambda>b. rbind (q b) q')"
    and "follows_val R e'' q'' \<Longrightarrow> follows_val R (\<lambda>a. rbind (e a) e'') (\<lambda>b. rbind (q b) q'')"
  using assms by (fastforce simp: follows_def follows_val_def rbind_Inr_iff)+

lemma follows_val_bind:
  assumes "follows_val R e q"
  shows "(\<And>v. follows R (e' v) (q' v)) \<Longrightarrow> follows R (\<lambda>a. rbind (e a) (\<lambda>(v, a). e' v a)) (\<lambda>b. rbind (q b) (\<lambda>(v, b). q' v b))"
    and "(\<And>v. follows_val R (e'' v) (q'' v)) \<Longrightarrow>
      follows_val R (\<lambda>a. rbind (e a) (\<lambda>(v, a). e'' v a)) (\<lambda>b. rbind (q b) (\<lambda>(v, b). q'' v b))"
  using assms by (fastforce simp: follows_def follows_val_def rbind_Inr_iff)+

lemma follows_pure:
  shows "(\<And>v. x = Inr v \<Longrightarrow> follows R (e v) (q v)) \<Longrightarrow> follows R (\<lambda>a. rbind x (\<lambda>v. e v a)) (\<lambda>b. rbind x (\<lambda>v. q v b))"
    and "(\<And>v. x = Inr v \<Longrightarrow> follows_val R (e' v) (q' v)) \<Longrightarrow> follows_val R (\<lambda>a. rbind x (\<lambda>v. e' v a)) (\<lambda>b. rbind x (\<lambda>v. q' v b))"
  by (fastforce simp: follows_def follows_val_def rbind_Inr_iff)+

lemma follows_return: "follows R e q \<Longrightarrow> follows_val R (\<lambda>a. rbind (e a) (\<lambda>a. Inr (v, a))) (\<lambda>b. rbind (q b) (\<lambda>b. Inr (v, b)))"
  by (rule follows_bind(2)) auto

text \<open>
  If one sink follows another character by character, then so does everything the formatter
  prints.
\<close>

locale sink_pair =
  fixes src :: "'a putter" and dst :: "'b putter"
    and R :: "'a \<Rightarrow> 'b \<Rightarrow> bool"
  assumes put_arrives: "follows R (src c) (dst c)"
begin

lemma put_times_arrives: "follows R (put_times src c n) (put_times dst c n)"
proof (induction n)
  case (Suc n)
  show ?case
    using follows_bind(1)[OF put_arrives Suc.IH] by (simp add: follows_def)
qed (simp add: follows_def)

lemma printnum_arrives: "follows R (printnum src num base w pc) (printnum dst num base w pc)"
proof (induction "unat num" arbitrary: num w rule: less_induct)
  case less
  show ?case
  proof (cases "base < 2")
    case True
    then show ?thesis by (auto simp: follows_def printnum.simps[of src])
  next
    case False
    have eq: "printnum p num base w pc = (\<lambda>s. rbind ((if ucast base \<le> num then printnum p (num div ucast base) base (w - 1) pc
        else put_times p pc (nat (w - 1))) s) (\<lambda>s. rbind (aget hexdigits (unat (num mod ucast base))) (\<lambda>d. p (sint d) s)))"
      for p :: "'c putter"
      using False by (intro ext) (simp add: printnum.simps[of p num])
    have "follows R (if ucast base \<le> num then printnum src (num div ucast base) base (w - 1) pc else put_times src pc (nat (w - 1)))
      (if ucast base \<le> num then printnum dst (num div ucast base) base (w - 1) pc else put_times dst pc (nat (w - 1)))"
    proof (cases "ucast base \<le> num")
      case True
      then have "unat (num div ucast base) < unat num"
        using False by (auto simp: word_less_nat_alt word_le_nat_alt ucast_base unat_div)
      from less.hyps[OF this] True show ?thesis by simp
    qed (simp add: put_times_arrives)
    then show ?thesis
      unfolding eq by (rule follows_bind(1)[OF _ follows_pure(1)]) (rule put_arrives)
  qed
qed

lemma put_string_arrives: "follows_val R (put_string src alt p prec w) (put_string dst alt p prec w)"
proof (induction p arbitrary: prec w)
  case (Cons c p)
  show ?case
  proof (cases "c \<noteq> 0 \<and> (prec < 0 \<or> prec - 1 \<ge> 0)")
    case True
    from follows_bind(2)[OF put_arrives Cons.IH] True show ?thesis by (auto simp: follows_val_def)
  qed (auto simp: follows_val_def)
qed (auto simp: follows_val_def)

lemma conv_string_arrives: "follows R (conv_string src sp p) (conv_string dst sp p)"
proof -
  have eq: "conv_string q sp p = (\<lambda>s. rbind ((if width sp > 0 \<and> padc sp \<noteq> 0x2D
       then (\<lambda>s. rbind (strnlen p (word_of_int (precision sp))) (\<lambda>n.
                 rbind (put_times q (padc sp) (nat (width sp - n)) s) (\<lambda>s. Inr (min (width sp - n) 0, s))))
       else (\<lambda>s. Inr (width sp, s))) s) (\<lambda>(w, s).
     rbind (put_string q (altflag sp) p (precision sp) w s) (\<lambda>(w, s). put_times q 0x20 (nat w) s)))" for q :: "'c putter"
    by (intro ext) (simp add: conv_string_def)
  show ?thesis
    unfolding eq
    by (rule follows_val_bind(1), split if_split)
       (auto intro!: follows_val_bind(1) follows_pure(2) follows_return put_times_arrives put_string_arrives)
qed

lemma conv_error_arrives:
  assumes "\<And>fmt ap. follows R (pe fmt ap) (pf fmt ap)"
  shows "follows R (conv_error pe err) (conv_error pf err)"
proof -
  have eq: "conv_error r err = (let err = (if err < 0 then to_int32 (- err) else err) in
      if err \<ge> MAXERROR then r (ascii ''error %d'') [VWord (word_of_int err)]
      else if err < 0 then (\<lambda>s. Inl Fault)
      else (\<lambda>s. rbind (aget error_string (nat err)) (\<lambda>p. (case p of
          None \<Rightarrow> r (ascii ''error %d'') [VWord (word_of_int err)]
        | Some t \<Rightarrow> r (ascii ''%s'') [VStr 1 t]) s)))" for r :: "u8 list \<Rightarrow> vararg list \<Rightarrow> 'c \<Rightarrow> 'c result"
    by (intro ext) (auto simp: conv_error_def Let_def intro!: rbind_cong split: option.split)
  show ?thesis
    unfolding eq Let_def using assms by (auto intro!: follows_pure(1) split: option.split)
qed

lemma convert_arrives:
  assumes pf: "\<And>fmt ap. follows R (pe fmt ap) (pf fmt ap)"
  shows "follows_val R (convert pe src c sp ap) (convert pf dst c sp ap)"
proof -
  have eq: "convert r p c sp ap =
     (let number = (\<lambda>num base ap s. rbind (printnum p num base (width sp) (padc sp) s) (\<lambda>s. Inr (Some ap, s))) in
      if c = 0x63 then (\<lambda>s. rbind (va_word ap) (\<lambda>x. (case x of (w, ap) \<Rightarrow> \<lambda>s. rbind (p (sint w) s) (\<lambda>s. Inr (Some ap, s))) s))
      else if c = 0x65 then (\<lambda>s. rbind (va_word ap) (\<lambda>x. (case x of (w, ap) \<Rightarrow> \<lambda>s. rbind (conv_error r (sint w) s) (\<lambda>s. Inr (Some ap, s))) s))
      else if c = 0x73 then (\<lambda>s. rbind (va_string ap) (\<lambda>x. (case x of (t, ap) \<Rightarrow> \<lambda>s.
        rbind (conv_string p sp (case t of None \<Rightarrow> ascii ''(null)'' | Some t \<Rightarrow> t) s) (\<lambda>s. Inr (Some ap, s))) s))
      else if c = 0x64 then (\<lambda>s. rbind (getint ap (lflag sp)) (\<lambda>x. (case x of (num, ap) \<Rightarrow>
        if sint num < 0 then \<lambda>s. rbind (p 0x2D s) (number (- num) 10 ap) else number num 10 ap) s))
      else if c = 0x75 then (\<lambda>s. rbind (getuint ap (lflag sp)) (\<lambda>x. (case x of (num, ap) \<Rightarrow> number num 10 ap) s))
      else if c = 0x6F then (\<lambda>s. rbind (put_times p 0x58 3 s) (\<lambda>s. Inr (Some ap, s)))
      else if c = 0x70 then (\<lambda>s. rbind (p 0x30 s) (\<lambda>s. rbind (p 0x78 s) (\<lambda>s.
        rbind (va_word ap) (\<lambda>x. (case x of (w, ap) \<Rightarrow> number (ucast w) 16 ap) s))))
      else if c = 0x78 then (\<lambda>s. rbind (getuint ap (lflag sp)) (\<lambda>x. (case x of (num, ap) \<Rightarrow> number num 16 ap) s))
      else if c = 0x25 then (\<lambda>s. rbind (p (uint c) s) (\<lambda>s. Inr (Some ap, s)))
      else (\<lambda>s. rbind (p 0x25 s) (\<lambda>s. Inr (None, s))))"
    for r and p :: "'c putter"
    by (intro ext) (auto simp: convert_def Let_def intro!: rbind_cong)
  show ?thesis
    unfolding eq Let_def
    by (auto intro!: follows_pure(2) follows_return follows_bind(2)[OF put_arrives] put_arrives put_times_arrives printnum_arrives
        conv_string_arrives conv_error_arrives[OF pf] split: prod.split)
qed

lemma vprintfmt_with_arrives:
  assumes pf: "\<And>fmt ap. follows R (pe fmt ap) (pf fmt ap)"
  shows "follows R (vprintfmt_with pe src fmt ap) (vprintfmt_with pf dst fmt ap)"
proof (induction "length fmt" arbitrary: fmt ap rule: less_induct)
  case less
  show ?case
  proof (cases fmt)
    case (Cons c f)
    have eq: "vprintfmt_with r p (c # f) ap = (if c = 0 then Inr
      else if c \<noteq> 0x25 then (\<lambda>s. rbind (p (uint c) s) (vprintfmt_with r p f ap))
      else (\<lambda>s. rbind (fmt_flags fspec0 f ap) (\<lambda>x. (case x of (d, sp, f', ap') \<Rightarrow> (\<lambda>s.
           rbind (convert r p d sp ap' s) (\<lambda>(r', s).
             (case r' of None \<Rightarrow> vprintfmt_with r p f ap' | Some ap'' \<Rightarrow> vprintfmt_with r p f' ap'') s))) s)))"
      for r and p :: "'c putter"
      by (intro ext) (auto intro!: rbind_cong split: option.split)
    have len: "length f < length fmt" "fmt_flags fspec0 f ap = Inr (d, sp, g, ap') \<Longrightarrow> length g < length fmt" for d sp g ap'
      using Cons fmt_flags_length[of fspec0 f ap d sp g ap'] by simp_all
    show ?thesis
      unfolding Cons eq
      by (auto intro!: follows_bind(1) put_arrives less.hyps[OF len(1)] follows_pure(1) follows_val_bind(1) convert_arrives[OF pf]
          less.hyps[OF len(2)] split: option.split prod.split)
  qed (auto simp: follows_def)
qed

lemma vprintfmt_arrives: "follows R (vprintfmt src fmt ap) (vprintfmt dst fmt ap)"
  unfolding vprintfmt_def by (intro vprintfmt_with_arrives) auto

end

text \<open>
  A sink that accepts every character; \<open>received l s\<close> says that the state \<open>s\<close> is the result of
  receiving the characters \<open>l\<close>. Whatever the formatter prints to the reference sink then
  arrives, in the same order, in every such sink.
\<close>

locale char_sink =
  fixes putch :: "'s putter"
    and received :: "int list \<Rightarrow> 's \<Rightarrow> bool"
  assumes put_law: "received l s \<Longrightarrow> \<exists>s'. putch c s = Inr s' \<and> received (l @ [c]) s'"

sublocale char_sink \<subseteq> sink_pair emit putch received
  by standard (use put_law in \<open>auto simp: follows_def emit_def\<close>)

section \<open>The sinks\<close>

definition buffer_received :: "u8 list \<Rightarrow> nat \<Rightarrow> int list \<Rightarrow> sprintbuf \<Rightarrow> bool" where
  "buffer_received m n l b \<longleftrightarrow> n < length m \<and> sb_ebuf b = int n \<and> sb_cnt b = int (length l) \<and>
     sb_buf b = int (min (length l) n) \<and>
     sb_mem b = map word_of_int (take n l) @ drop (min (length l) n) m"

interpretation to_buffer: char_sink sprintputch "buffer_received m n"
proof
  fix l b c
  assume r: "buffer_received m n l b"
  show "\<exists>b'. sprintputch c b = Inr b' \<and> buffer_received m n (l @ [c]) b'"
  proof (cases "length l < n")
    case True
    then have "length l < length m" using r by (simp add: buffer_received_def)
    then have "drop (length l) m = m ! length l # drop (Suc (length l)) m"
      by (rule Cons_nth_drop_Suc[symmetric])
    with r True show ?thesis
      by (auto simp: sprintputch_def buffer_received_def Let_def list_update_append min_def)
  qed (use r in \<open>auto simp: sprintputch_def buffer_received_def Let_def min_def\<close>)
qed

definition calls_received :: "int list \<Rightarrow> printbuf \<Rightarrow> bool" where
  "calls_received l b \<longleftrightarrow> length (pb_buf b) = 256 \<and> pb_idx b < 255 \<and> pb_cnt b = int (length l) \<and>
     concat (pb_calls b) @ take (pb_idx b) (pb_buf b) = map word_of_int l \<and> (\<forall>c\<in>set (pb_calls b). length c = 255)"

interpretation to_calls: char_sink putch_buffered calls_received
proof
  fix l b c
  assume r: "calls_received l b"
  let ?m = "(pb_buf b)[pb_idx b := word_of_int c]"
  have t: "take (Suc (pb_idx b)) ?m = take (pb_idx b) (pb_buf b) @ [word_of_int c]"
    using r by (simp add: calls_received_def take_Suc_conv_app_nth)
  show "\<exists>b'. putch_buffered c b = Inr b' \<and> calls_received (l @ [c]) b'"
  proof (cases "Suc (pb_idx b) = 255")
    case True
    with r t show ?thesis
      by (auto simp: putch_buffered_def calls_received_def sys_puts_def Let_def)
  next
    case False
    with r t show ?thesis
      by (auto simp: putch_buffered_def calls_received_def Let_def)
  qed
qed

section \<open>What the conversions print\<close>

text \<open>The nested call of \<open>%e\<close>: the recursion of the source.\<close>

lemma ascii_formats: "ascii ''error %d'' = [0x65, 0x72, 0x72, 0x6F, 0x72, 0x20, 0x25, 0x64, 0]" "ascii ''%s'' = [0x25, 0x73, 0]"
  by (simp_all add: ascii_def)

lemma vprintfmt_inner:
  "vprintfmt_with r putch (ascii ''error %d'') ap s = vprintfmt_with r' putch (ascii ''error %d'') ap s"
  "vprintfmt_with r putch (ascii ''%s'') ap s = vprintfmt_with r' putch (ascii ''%s'') ap s"
  by (auto simp: ascii_formats is_digit_def convert_def intro!: rbind_cong split: option.split)

lemma convert_cong:
  assumes "\<And>ap s. r (ascii ''error %d'') ap s = r' (ascii ''error %d'') ap s" "\<And>ap s. r (ascii ''%s'') ap s = r' (ascii ''%s'') ap s"
  shows "convert r putch c sp ap s = convert r' putch c sp ap s"
proof -
  have "conv_error r e s = conv_error r' e s" for e
    using assms by (auto simp: conv_error_def Let_def intro!: rbind_cong split: option.split)
  then show ?thesis by (simp add: convert_def)
qed

lemma vprintfmt_unfold: "vprintfmt putch fmt ap s = vprintfmt_with (vprintfmt putch) putch fmt ap s"
proof -
  have "vprintfmt_with r putch fmt ap s = vprintfmt_with r' putch fmt ap s"
    if "\<And>ap s. r (ascii ''error %d'') ap s = r' (ascii ''error %d'') ap s" "\<And>ap s. r (ascii ''%s'') ap s = r' (ascii ''%s'') ap s" for r r'
  proof (induction "length fmt" arbitrary: fmt ap s rule: less_induct)
    case less
    then show ?case
      using convert_cong[of r r', OF that]
      by (cases fmt) (auto intro!: rbind_cong dest: fmt_flags_length split: option.split)
  qed
  then show ?thesis
    unfolding vprintfmt_def using vprintfmt_inner by metis
qed

lemma put_times_emit: "put_times emit c n l = Inr (l @ replicate n c)"
  by (induction n arbitrary: l) (auto simp: emit_def replicate_append_same[symmetric])

text \<open>The digits of a number, most significant first.\<close>

fun digits :: "nat \<Rightarrow> nat \<Rightarrow> nat list" where
  "digits base n = (if base < 2 \<or> n < base then [n] else digits base (n div base) @ [n mod base])"

declare digits.simps [simp del]

definition digit_char :: "nat \<Rightarrow> int" where
  "digit_char d = (if d < 10 then 0x30 + int d else 0x61 + int d - 10)"

lemma hexdigits_char: "d < 16 \<Longrightarrow> aget hexdigits d = Inr (word_of_int (digit_char d)) \<and> sint (word_of_int (digit_char d) :: u8) = digit_char d"
proof -
  assume "d < 16"
  then have "d \<in> set [0..<16]" by simp
  then show ?thesis
    by (auto simp: upt_rec hexdigits_def digit_char_def aget_def)
qed

lemma printnum_emit:
  assumes "2 \<le> base" "base \<le> 16"
  shows "printnum emit num (of_nat base) w pc l =
    Inr (l @ replicate (nat (w - int (length (digits base (unat num))))) pc @ map digit_char (digits base (unat num)))"
proof (induction "unat num" arbitrary: num w rule: less_induct)
  case less
  have b: "unat (of_nat base :: u32) = base" using assms by (simp add: unat_of_nat32)
  then have b': "unat (ucast (of_nat base :: u32) :: u64) = base" "\<not> of_nat base < (2 :: u32)"
    using assms by (simp_all add: ucast_base word_less_nat_alt)
  have d: "aget hexdigits (unat (num mod ucast (of_nat base :: u32))) = Inr (word_of_int (digit_char (unat num mod base)))"
    "sint (word_of_int (digit_char (unat num mod base)) :: u8) = digit_char (unat num mod base)"
    using hexdigits_char[of "unat num mod base"] assms b' by (simp_all add: unat_mod order_less_le_trans[OF mod_less_divisor])
  show ?case
  proof (cases "ucast (of_nat base :: u32) \<le> num")
    case True
    then have le: "base \<le> unat num" using b' by (simp add: word_le_nat_alt)
    then have "unat (num div ucast (of_nat base :: u32)) < unat num" using assms b' by (simp add: unat_div)
    from less.hyps[OF this, of "w - 1"] True b' d le assms show ?thesis
      by (simp add: printnum.simps[of emit num] emit_def unat_div digits.simps[of base "unat num"] algebra_simps)
  next
    case False
    then have lt: "unat num < base" using b' by (simp add: word_le_nat_alt)
    with False b' d show ?thesis
      by (simp add: printnum.simps[of emit num] emit_def put_times_emit digits.simps[of base "unat num"])
  qed
qed

text \<open>A format built from pieces with known text.\<close>

datatype piece =
    Lit "u8 list"          \<comment> \<open>text without \<open>%\<close>\<close>
  | Dec u32                \<comment> \<open>\<open>%d\<close>\<close>
  | Uns u32                \<comment> \<open>\<open>%u\<close>\<close>
  | Hex u32                \<comment> \<open>\<open>%x\<close>\<close>
  | Field bool nat u32     \<comment> \<open>\<open>%\<close>, an optional \<open>0\<close>, a width from 1 to 9, \<open>x\<close>\<close>
  | Text u32 "u8 list"     \<comment> \<open>\<open>%s\<close>\<close>
  | Chr u32                \<comment> \<open>\<open>%c\<close>\<close>
  | Percent                \<comment> \<open>\<open>%%\<close>\<close>

fun piece_ok :: "piece \<Rightarrow> bool" where
  "piece_ok (Lit t) \<longleftrightarrow> 0 \<notin> set t \<and> 0x25 \<notin> set t"
| "piece_ok (Field z w n) \<longleftrightarrow> 1 \<le> w \<and> w \<le> 9"
| "piece_ok (Text a bs) \<longleftrightarrow> a \<noteq> 0 \<and> terminated bs"
| "piece_ok _ \<longleftrightarrow> True"

fun piece_fmt :: "piece \<Rightarrow> u8 list" where
  "piece_fmt (Lit t) = t"
| "piece_fmt (Dec n) = [0x25, 0x64]"
| "piece_fmt (Uns n) = [0x25, 0x75]"
| "piece_fmt (Hex n) = [0x25, 0x78]"
| "piece_fmt (Field z w n) = [0x25] @ (if z then [0x30] else []) @ [0x30 + of_nat w, 0x78]"
| "piece_fmt (Text a bs) = [0x25, 0x73]"
| "piece_fmt (Chr c) = [0x25, 0x63]"
| "piece_fmt Percent = [0x25, 0x25]"

fun piece_args :: "piece \<Rightarrow> vararg list" where
  "piece_args (Dec n) = [VWord n]"
| "piece_args (Uns n) = [VWord n]"
| "piece_args (Hex n) = [VWord n]"
| "piece_args (Field z w n) = [VWord n]"
| "piece_args (Text a bs) = [VStr a bs]"
| "piece_args (Chr c) = [VWord c]"
| "piece_args _ = []"

definition decimal :: "int \<Rightarrow> int list" where
  "decimal k = (if k < 0 then [0x2D] else []) @ map digit_char (digits 10 (nat (abs k)))"

definition hexadecimal :: "nat \<Rightarrow> int list" where
  "hexadecimal n = map digit_char (digits 16 n)"

fun piece_text :: "piece \<Rightarrow> int list" where
  "piece_text (Lit t) = map uint t"
| "piece_text (Dec n) = decimal (sint n)"
| "piece_text (Uns n) = decimal (int (unat n))"
| "piece_text (Hex n) = hexadecimal (unat n)"
| "piece_text (Field z w n) = (let t = hexadecimal (unat n) in replicate (w - length t) (if z then 0x30 else 0x20) @ t)"
| "piece_text (Text a bs) = map sint (cstr bs)"
| "piece_text (Chr c) = [sint c]"
| "piece_text Percent = [0x25]"

lemma put_string_emit:
  "terminated p \<Longrightarrow> put_string emit False p (-1) w l = Inr (w - int (length (cstr p)), l @ map sint (cstr p))"
  by (induction p arbitrary: w l) (auto simp: emit_def)

lemma conv_string_emit:
  "terminated p \<Longrightarrow> conv_string emit fspec0 p l = Inr (l @ map sint (cstr p))"
  by (simp add: conv_string_def fspec0_def put_string_emit put_times_emit)

fun put_all :: "'s putter \<Rightarrow> int list \<Rightarrow> 's \<Rightarrow> 's result" where
  "put_all putch [] s = Inr s"
| "put_all putch (c # cs) s = rbind (putch c s) (put_all putch cs)"

lemma put_all_append: "put_all putch (xs @ ys) s = rbind (put_all putch xs s) (put_all putch ys)"
proof (induction xs arbitrary: s)
  case (Cons x xs)
  then show ?case by (cases "putch x s") auto
qed simp

lemma vprintfmt_literal:
  assumes "0 \<notin> set t" "0x25 \<notin> set t"
  shows "vprintfmt putch (t @ 0 # fmt) ap s = put_all putch (map uint t) s"
proof -
  have "vprintfmt_with r putch (t @ 0 # fmt) ap s = put_all putch (map uint t) s" for r
    using assms by (induction t arbitrary: s) (auto intro!: rbind_cong)
  then show ?thesis by (simp add: vprintfmt_def)
qed

lemma literal_emit:
  assumes "0 \<notin> set t" "0x25 \<notin> set t"
  shows "vprintfmt_with r emit (t @ fmt) ap l = vprintfmt_with r emit fmt ap (l @ map uint t)"
  using assms by (induction t arbitrary: l) (auto simp: emit_def)

lemma sint32_range: "- 2147483648 \<le> sint (w :: u32)" "sint w < 2147483648"
  using sint_range_size[of w] by (simp_all add: word_size)

lemma scast_parts:
  fixes w :: u32
  shows "sint (scast w :: u64) = sint w" "0 \<le> sint w \<Longrightarrow> unat (scast w :: u64) = nat (sint w)"
    "sint w < 0 \<Longrightarrow> unat (- (scast w :: u64)) = nat (- sint w)"
proof -
  have eq: "(scast w :: u64) = word_of_int (sint w)" by simp
  have pos: "unat (word_of_int k :: u64) = nat k" if "0 \<le> k" "k \<le> 2147483648" for k
    using that by (simp add: unsigned_of_int take_bit_int_eq_self)
  show "sint (scast w :: u64) = sint w"
    using sint32_range[of w] by (simp add: signed_scast_eq signed_take_bit_int_eq_self)
  show "unat (scast w :: u64) = nat (sint w)" if "0 \<le> sint w"
    unfolding eq using that sint32_range[of w] by (intro pos) auto
  have "- (scast w :: u64) = word_of_int (- sint w)" unfolding eq by simp
  then show "unat (- (scast w :: u64)) = nat (- sint w)" if "sint w < 0"
    using that sint32_range[of w] pos[of "- sint w"] by simp
qed

lemma piece_emit:
  assumes "piece_ok x"
  shows "vprintfmt_with r emit (piece_fmt x @ fmt) (piece_args x @ ap) l = vprintfmt_with r emit fmt ap (l @ piece_text x)"
proof (cases x)
  case (Dec n)
  then show ?thesis
    by (auto simp: is_digit_def convert_def fspec0_def getint_def emit_def Let_def scast_parts decimal_def
        printnum_emit[where base = 10, simplified])
next
  case (Field z w n)
  then have "w \<in> set [1..<10]" using assms by auto
  then have "read_width (uint (0x30 + of_nat w :: u8) - 0x30) (0x78 # fmt) = Inr (int w, 0x78 # fmt)"
    "is_digit (0x30 + of_nat w)" "0x30 + of_nat w \<notin> {0x2D, 0x30 :: u8}"
    by (auto simp: upt_rec is_digit_def)
  then show ?thesis
    using Field by (auto simp: convert_def fspec0_def getuint_def emit_def Let_def process_precision_def is_digit_def hexadecimal_def
        printnum_emit[where base = 16, simplified] ucast_base nat_minus_as_int)
next
  case (Lit t)
  then show ?thesis using assms literal_emit by simp
qed (use assms in \<open>auto simp: is_digit_def convert_def fspec0_def getuint_def conv_string_emit[unfolded fspec0_def] emit_def
       printnum_emit[where base = 10, simplified] printnum_emit[where base = 16, simplified] decimal_def hexadecimal_def Let_def ucast_base\<close>)

lemma pieces_emit:
  "list_all piece_ok ps \<Longrightarrow> vprintfmt_with r emit (concat (map piece_fmt ps) @ fmt) (concat (map piece_args ps) @ ap) l =
     vprintfmt_with r emit fmt ap (l @ concat (map piece_text ps))"
  by (induction ps arbitrary: l) (simp_all add: piece_emit)

lemma vprintfmt_emit:
  assumes "list_all piece_ok ps" "fmt = concat (map piece_fmt ps) @ [0]" "ap = concat (map piece_args ps)"
  shows "vprintfmt emit fmt ap [] = Inr (concat (map piece_text ps))"
  unfolding vprintfmt_def assms(2,3) using pieces_emit[OF assms(1), of _ "[0]" "[]" "[]"] by simp

lemma digit_char_value:
  assumes "d < 16"
  shows "strtol_digit (word_of_int (digit_char d)) = Some (int d)"
proof -
  have "list_all (\<lambda>d. strtol_digit (word_of_int (digit_char d)) = Some (int d)) [0..<16]" by code_simp
  then show ?thesis using assms by (simp add: list_all_iff)
qed

lemma digits_less: "2 \<le> base \<Longrightarrow> d \<in> set (digits base n) \<Longrightarrow> d < base"
proof (induction base n rule: digits.induct)
  case (1 base n)
  then show ?case by (cases "n < base") (auto simp: digits.simps[of base n])
qed

lemma digits_nonempty: "digits base n \<noteq> []"
  by (simp add: digits.simps[of base n])

lemma digits_value:
  "2 \<le> base \<Longrightarrow> base \<le> 16 \<Longrightarrow> digits_val (int base) 0 (map (word_of_int \<circ> digit_char) (digits base n)) = int n"
proof (induction base n rule: digits.induct)
  case (1 base n)
  have ap: "digits_val b v (xs @ [x]) = digits_val b v xs * b + the (strtol_digit x)" for b v xs x
    by (simp add: digits_val_def)
  show ?case
  proof (cases "n < base")
    case True
    then show ?thesis using "1.prems" digit_char_value[of n] by (simp add: digits.simps[of base n])
  next
    case False
    have "strtol_digit (word_of_int (digit_char (n mod base))) = Some (int (n mod base))"
      using "1.prems" by (intro digit_char_value) (simp add: order_less_le_trans[OF mod_less_divisor])
    moreover have "digits base n = digits base (n div base) @ [n mod base]"
      using False "1.prems" by (simp add: digits.simps[of base n])
    ultimately show ?thesis
      using 1 False by (simp add: ap zdiv_int zmod_int)
  qed
qed

lemma digits_ok:
  assumes "2 \<le> base" "base \<le> 16"
  shows "list_all (digit_of_base (int base)) (map (word_of_int \<circ> digit_char) (digits base n))"
proof -
  have "digit_of_base (int base) (word_of_int (digit_char d))" if "d \<in> set (digits base n)" for d
    using digits_less[OF assms(1) that] assms(2) digit_char_value[of d] by (simp add: digit_of_base_def)
  then show ?thesis by (simp add: list_all_iff)
qed

text \<open>A printed \<open>int\<close> fits 11 characters and parses back.\<close>

lemma digits_length: "2 \<le> base \<Longrightarrow> n < base ^ Suc k \<Longrightarrow> length (digits base n) \<le> Suc k"
proof (induction k arbitrary: n)
  case 0
  then show ?case by (simp add: digits.simps[of base n])
next
  case (Suc k)
  have "n div base < base ^ Suc k" using Suc.prems by (simp add: less_mult_imp_div_less mult.commute)
  with Suc show ?case by (cases "n < base") (auto simp: digits.simps[of base n])
qed

lemma decimal_parses:
  assumes "- (2 ^ 31) < k" "k < 2 ^ 31"
  shows "strtol (map word_of_int (decimal k) @ 0 # rest) 10 = Inr (k, length (decimal k))" "length (decimal k) \<le> 11"
proof -
  let ?ds = "map (word_of_int \<circ> digit_char) (digits 10 (nat (abs k)))"
  have v: "digits_val 10 0 ?ds = abs k" using digits_value[of 10 "nat (abs k)"] by simp
  have n: "\<not> digit_of_base 10 0" by (simp add: digit_of_base_def strtol_digit_def)
  from strtol_reads[of 10 ?ds 0 rest] v n assms digits_nonempty[of 10 "nat (abs k)"] digits_ok[of 10 "nat (abs k)"]
  show "strtol (map word_of_int (decimal k) @ 0 # rest) 10 = Inr (k, length (decimal k))"
    by (auto simp: decimal_def)
  have "length (digits 10 (nat (abs k))) \<le> Suc 9" by (rule digits_length) (use assms in auto)
  then show "length (decimal k) \<le> 11" by (cases "k < 0") (auto simp: decimal_def)
qed

section \<open>Properties\<close>

text \<open>
  C24. The formatter prints what its format says: for a format made of literal text, \<open>%d\<close>, \<open>%u\<close>, \<open>%x\<close>,
  padded hexadecimal fields, \<open>%s\<close>, \<open>%c\<close> and \<open>%%\<close>, with the arguments these conversions take, it
  emits the concatenation of their texts: decimal and hexadecimal numerals without leading
  zeros, a minus sign for negative numbers, fields padded on the left.
\<close>

theorem vprintfmt_pieces:
  assumes "list_all piece_ok ps"
  shows "vprintfmt emit (concat (map piece_fmt ps) @ [0]) (concat (map piece_args ps)) [] = Inr (concat (map piece_text ps))"
  unfolding vprintfmt_def using pieces_emit[OF assms, where fmt = "[0]" and ap = "[]"] by simp

theorem vprintfmt_pieces_witness:
  "vprintfmt emit [0x61, 0x3D, 0x25, 0x64, 0x20, 0x25, 0x30, 0x34, 0x78, 0] [VWord (- 42), VWord 0x2A] [] =
     Inr [0x61, 0x3D, 0x2D, 0x34, 0x32, 0x20, 0x30, 0x30, 0x32, 0x61]"
proof -
  have "decimal (- 42) = [0x2D, 0x34, 0x32]" "hexadecimal 0x2A = [0x32, 0x61]" "replicate 2 (48 :: int) = [48, 48]" "sint (- 42 :: u32) = - 42"
    by code_simp+
  then show ?thesis
    using vprintfmt_pieces[of "[Lit [0x61, 0x3D], Dec (- 42), Lit [0x20], Field True 4 0x2A]"] by simp
qed

text \<open>
  C25. \<open>vsnprintf\<close> never writes outside the \<open>n\<close> bytes it was given and always terminates the text:
  for every format and argument list, if the formatter emits \<open>out\<close>, the buffer ends up with the
  first \<open>n - 1\<close> characters of \<open>out\<close> (or all of them) followed by a zero byte, the bytes behind
  are unchanged, and the result is the length of the untruncated text. A null buffer or a
  length below 1 is refused without a write.
\<close>

theorem vsnprintf_bounds:
  assumes "vprintfmt emit fmt ap [] = Inr out" "0 < n" "n \<le> length m"
  shows "vsnprintf (Some m) (int n) fmt ap =
      Inr (int (length out), Some (map word_of_int (take (n - 1) out) @ 0 # drop (Suc (min (length out) (n - 1))) m)) \<and>
    length (map word_of_int (take (n - 1) out) @ (0 :: u8) # drop (Suc (min (length out) (n - 1))) m) = length m \<and>
    (k < 1 \<longrightarrow> vsnprintf b k fmt ap = Inr (- E_INVAL, b)) \<and> vsnprintf None k fmt ap = Inr (- E_INVAL, None)"
proof -
  let ?b = "\<lparr>sb_mem = m, sb_buf = 0, sb_ebuf = int n - 1, sb_cnt = 0\<rparr>"
  have "buffer_received m (n - 1) [] ?b"
    using assms(2,3) by (auto simp: buffer_received_def)
  with to_buffer.vprintfmt_arrives[of m "n - 1" fmt ap] assms(1) obtain b' where
    b': "vprintfmt sprintputch fmt ap ?b = Inr b'" "buffer_received m (n - 1) out b'"
    unfolding follows_def by blast
  have "drop (min (length out) (n - 1)) m = m ! min (length out) (n - 1) # drop (Suc (min (length out) (n - 1))) m"
    using assms(2,3) by (intro Cons_nth_drop_Suc[symmetric]) auto
  with b' assms(2,3) show ?thesis
    by (auto simp: vsnprintf_def buffer_received_def list_update_append min_def split: option.split)
qed

theorem vsnprintf_bounds_witness:
  "vsnprintf (Some [9, 9, 9, 9, 9]) 3 [0x25, 0x64, 0] [VWord 1234] = Inr (4, Some [0x31, 0x32, 0, 9, 9])"
proof -
  have d: "decimal 1234 = [0x31, 0x32, 0x33, 0x34]" by code_simp
  have "vprintfmt emit [0x25, 0x64, 0] [VWord 1234] [] = Inr [0x31, 0x32, 0x33, 0x34]"
    using pieces_emit[of "[Dec 1234]" _ "[0]" "[]" "[]"] by (simp add: vprintfmt_def d)
  from vsnprintf_bounds[OF this, of 3 "[9, 9, 9, 9, 9]"] show ?thesis by (simp add: numeral_eq_Suc)
qed

text \<open>
  C26. Buffered printing equals unbuffered printing: the buffers \<open>cprintf\<close> hands to the \<open>puts\<close> system
  call, put together, are exactly what the formatter emits; every call but the last carries
  255 bytes and the last one fewer, and the result is the number of characters printed.
\<close>

theorem cprintf_buffering:
  assumes "vprintfmt emit fmt ap [] = Inr out" "length mem0 = 256"
  shows "\<exists>calls. cprintf mem0 fmt ap = Inr (int (length out), calls) \<and> concat calls = map word_of_int out \<and>
    calls \<noteq> [] \<and> (\<forall>c\<in>set (butlast calls). length c = 255) \<and> length (last calls) < 255"
proof -
  have "calls_received [] \<lparr>pb_idx = 0, pb_cnt = 0, pb_buf = mem0, pb_calls = []\<rparr>"
    using assms(2) by (simp add: calls_received_def)
  with to_calls.vprintfmt_arrives[of fmt ap] assms(1) obtain b where
    "vprintfmt putch_buffered fmt ap \<lparr>pb_idx = 0, pb_cnt = 0, pb_buf = mem0, pb_calls = []\<rparr> = Inr b" "calls_received out b"
    unfolding follows_def by blast
  then show ?thesis
    by (simp add: cprintf_def vcprintf_def calls_received_def sys_puts_def)
qed

theorem cprintf_buffering_witness:
  "\<exists>calls. cprintf (replicate 256 0) [0x6F, 0x6B, 0] [] = Inr (2, calls) \<and> concat calls = [0x6F, 0x6B]"
  using cprintf_buffering[of "[0x6F, 0x6B, 0]" "[]" "[0x6F, 0x6B]" "replicate 256 0"] by (force simp: vprintfmt_def emit_def)

text \<open>
  C27. Printing and parsing are inverse: for every \<open>int\<close> but the least one, the text \<open>snprintf\<close> writes
  for \<open>%d\<close> into a large enough buffer is read back by \<open>strtol\<close> in base 10 as the same number,
  consuming the whole text.
\<close>

theorem print_parse_roundtrip:
  assumes "sint w \<noteq> - (2 ^ 31)" "12 \<le> length m"
  shows "\<exists>k m'. snprintf (Some m) (int (length m)) [0x25, 0x64, 0] [VWord w] = Inr (int k, Some m') \<and>
    strtol m' 10 = Inr (sint w, k)"
proof -
  have r: "- (2 ^ 31) < sint w" "sint w < 2 ^ 31" using assms(1) sint32_range[of w] by simp_all
  note p = decimal_parses[OF r]
  let ?b = "\<lparr>sb_mem = m, sb_buf = 0, sb_ebuf = int (length m) - 1, sb_cnt = 0\<rparr>"
  have e: "vprintfmt emit [0x25, 0x64, 0] [VWord w] [] = Inr (decimal (sint w))"
    using pieces_emit[of "[Dec w]" _ "[0]" "[]" "[]"] by (simp add: vprintfmt_def)
  have "buffer_received m (length m - 1) [] ?b"
    using assms(2) by (auto simp: buffer_received_def)
  with to_buffer.vprintfmt_arrives[of m "length m - 1" "[0x25, 0x64, 0]" "[VWord w]"] e obtain b where
    b: "vprintfmt sprintputch [0x25, 0x64, 0] [VWord w] ?b = Inr b" "buffer_received m (length m - 1) (decimal (sint w)) b"
    unfolding follows_def by blast
  let ?k = "length (decimal (sint w))"
  have "drop ?k m = m ! ?k # drop (Suc ?k) m" using p(2) assms(2) by (intro Cons_nth_drop_Suc[symmetric]) auto
  then have "vsnprintf (Some m) (int (length m)) [0x25, 0x64, 0] [VWord w] =
      Inr (int ?k, Some (map word_of_int (decimal (sint w)) @ 0 # drop (Suc ?k) m))"
    using b p(2) assms(2) by (auto simp: vsnprintf_def buffer_received_def list_update_append min_def)
  then show ?thesis using p(1) by (auto simp: snprintf_def)
qed

theorem print_parse_roundtrip_witness:
  "\<exists>k m'. snprintf (Some (replicate 16 7)) 16 [0x25, 0x64, 0] [VWord (- 2019)] = Inr (int k, Some m') \<and> strtol m' 10 = Inr (- 2019, k)"
  using print_parse_roundtrip[of "- 2019" "replicate 16 7"] by simp

end
