(* ===== verification/Console.thy ===== *)
theory Console
  imports Print_Fmt Devices
begin

text \<open>
  The console: the text screen (\<^verbatim>\<open>kernel/screen.c\<close>), kernel printing (\<^verbatim>\<open>kernel/printf.c\<close>) and the
  keyboard with its input buffer (\<^verbatim>\<open>kernel/kbd.c\<close>).

  \<open>vga\<close> is the 32 KiB text window of the video memory at \<open>0xB8000\<close>, in 16-bit cells; a store
  through \<open>textmemptr\<close> outside of it is a \<open>Fault\<close>. The keyboard controller is the list of bytes it
  has pending; reading its data port when nothing is pending returns the stale byte
  \<open>kb_stale\<close>.
\<close>

record console =
  textmemptr :: u32
  vga :: "u16 list"
  attrib :: int
  csr_x :: int
  csr_y :: int
  cons_buf :: "u8 list"
  rpos :: u32
  wpos :: u32
  shift :: u32
  kb_pending :: "u8 list"
  kb_stale :: u8
  cio :: iolog

section \<open>The screen (kernel/screen.c)\<close>

text \<open>The cell \<open>textmemptr + i\<close>.\<close>

definition vga_index :: "int \<Rightarrow> console \<Rightarrow> nat result" where
  "vga_index i s =
     (let a = uint (textmemptr s) + 2 * i in
      if 0xB8000 \<le> a \<and> a < 0xB8000 + 2 * int (length (vga s)) \<and> a mod 2 = 0 then Inr (nat ((a - 0xB8000) div 2)) else Inl Fault)"

definition vga_store :: "int \<Rightarrow> u16 \<Rightarrow> console \<Rightarrow> console result" where
  "vga_store i v s = rbind (vga_index i s) (\<lambda>k. Inr (s\<lparr>vga := (vga s)[k := v]\<rparr>))"

text \<open>\<open>memcpy\<close> of \<open>n\<close> cells and \<open>memset\<close> of \<open>n\<close> cells to the low byte of \<open>v\<close>; a negative length is
  a huge one after the conversion to \<open>size_t\<close>.\<close>

definition vga_copy :: "int \<Rightarrow> int \<Rightarrow> int \<Rightarrow> console \<Rightarrow> console result" where
  "vga_copy dst src n s =
     (if n < 0 then Inl Fault else if n = 0 then Inr s
      else rbind (vga_index dst s) (\<lambda>d. rbind (vga_index (dst + n - 1) s) (\<lambda>_.
           rbind (vga_index src s) (\<lambda>k. rbind (vga_index (src + n - 1) s) (\<lambda>_.
           Inr (s\<lparr>vga := take d (vga s) @ take (nat n) (drop k (vga s)) @ drop (d + nat n) (vga s)\<rparr>))))))"

definition vga_fill :: "int \<Rightarrow> u16 \<Rightarrow> int \<Rightarrow> console \<Rightarrow> console result" where
  "vga_fill dst v n s =
     (if n < 0 then Inl Fault else if n = 0 then Inr s
      else rbind (vga_index dst s) (\<lambda>d. rbind (vga_index (dst + n - 1) s) (\<lambda>_.
           let b = ucast (ucast v :: u8) :: u16 in
           Inr (s\<lparr>vga := take d (vga s) @ replicate (nat n) (push_bit 8 b OR b) @ drop (d + nat n) (vga s)\<rparr>))))"

definition scroll :: "console \<Rightarrow> console result" where
  "scroll s =
     (let blank = word_of_int (push_bit 8 (attrib s)) :: u16 in
      if csr_y s \<ge> 25 then
        let temp = uint (word_of_int (csr_y s - 25 + 1) :: u16) in
        rbind (vga_copy 0 (temp * 80) ((25 - temp) * 80) s) (\<lambda>s.
        rbind (vga_fill ((25 - temp) * 80) blank 80 s) (\<lambda>s.
        Inr (s\<lparr>csr_y := 25 - 1\<rparr>)))
      else Inr s)"

definition move_csr :: "console \<Rightarrow> console" where
  "move_csr s =
     (let temp = word_of_int (csr_y s * 80 + csr_x s) :: u16 in
      s\<lparr>cio := outb 0x3D5 (ucast temp) (outb 0x3D4 15 (outb 0x3D5 (ucast (drop_bit 8 temp)) (outb 0x3D4 14 (cio s))))\<rparr>)"

definition sys_cls :: "console \<Rightarrow> console result" where
  "sys_cls s =
     (let blank = word_of_int (push_bit 8 (attrib s)) :: u16 in
      rbind (kfor 0 25 (\<lambda>i s. vga_fill (int i * 80) blank 80 s) s) (\<lambda>s.
      Inr (move_csr (s\<lparr>csr_x := 0, csr_y := 0\<rparr>))))"

definition put_char :: "u8 \<Rightarrow> console \<Rightarrow> console result" where
  "put_char c s =
     (let att = word_of_int (push_bit 8 (attrib s)) :: u16 in
      if c = 0x08 then
        if csr_x s \<noteq> 0
        then rbind (vga_store (csr_y s * 80 + csr_x s - 1) (0 OR att) s) (\<lambda>s. Inr (s\<lparr>csr_x := csr_x s - 1\<rparr>))
        else Inr s
      else if c = 0x09 then Inr (s\<lparr>csr_x := (csr_x s + 8) AND NOT (8 - 1)\<rparr>)
      else if c = 0x0D then Inr (s\<lparr>csr_x := 0\<rparr>)
      else if c = 0x0A then Inr (s\<lparr>csr_x := 0, csr_y := csr_y s + 1\<rparr>)
      else if c \<ge> 0x20
        then rbind (vga_store (csr_y s * 80 + csr_x s) (ucast c OR att) s) (\<lambda>s. Inr (s\<lparr>csr_x := csr_x s + 1\<rparr>))
      else Inr s)"

definition k_putch :: "u8 \<Rightarrow> console \<Rightarrow> console result" where
  "k_putch c s =
     rbind (put_char c s) (\<lambda>s.
     let s = (if csr_x s \<ge> 80 then s\<lparr>csr_x := 0, csr_y := csr_y s + 1\<rparr> else s) in
     rbind (scroll s) (\<lambda>s. Inr (move_csr s)))"

definition k_puts :: "u8 list \<Rightarrow> console \<Rightarrow> console result" where
  "k_puts text s = rbind (strlen text) (\<lambda>n. kfor 0 (nat n) (\<lambda>i s. rbind (aget text i) (\<lambda>c. k_putch c s)) s)"

definition sys_settextcolor :: "u8 \<Rightarrow> u8 \<Rightarrow> console \<Rightarrow> console" where
  "sys_settextcolor forecolor backcolor s =
     s\<lparr>attrib := push_bit 4 (uint backcolor) OR (uint forecolor AND 0x0F)\<rparr>"

definition init_video :: "console \<Rightarrow> console result" where
  "init_video s = sys_cls (s\<lparr>textmemptr := 0xB8000\<rparr>)"

section \<open>Kernel printing (kernel/printf.c)\<close>

definition putch_kernel :: "(console \<times> int) putter" where
  "putch_kernel ch = (\<lambda>(s, cnt). rbind (k_putch (word_of_int ch) s) (\<lambda>s. Inr (s, cnt + 1)))"

definition vprintk :: "u8 list \<Rightarrow> vararg list \<Rightarrow> console \<Rightarrow> (int \<times> console) result" where
  "vprintk fmt ap s = rbind (vprintfmt putch_kernel fmt ap (s, 0)) (\<lambda>(s, cnt). Inr (cnt, s))"

definition printk :: "u8 list \<Rightarrow> vararg list \<Rightarrow> console \<Rightarrow> (int \<times> console) result" where
  "printk fmt ap s = vprintk fmt ap s"

section \<open>The keyboard (kernel/kbd.c)\<close>

definition SHIFT :: u32 where "SHIFT = 1"
definition CTL :: u32 where "CTL = 2"
definition ALT :: u32 where "ALT = 4"
definition CAPSLOCK :: u32 where "CAPSLOCK = 8"
definition NUMLOCK :: u32 where "NUMLOCK = 16"
definition SCROLLLOCK :: u32 where "SCROLLLOCK = 32"

definition KEY_HOME :: u8 where "KEY_HOME = 0xE0"
definition KEY_END :: u8 where "KEY_END = 0xE1"
definition KEY_UP :: u8 where "KEY_UP = 0xE2"
definition KEY_DN :: u8 where "KEY_DN = 0xE3"
definition KEY_LF :: u8 where "KEY_LF = 0xE4"
definition KEY_RT :: u8 where "KEY_RT = 0xE5"
definition KEY_PGUP :: u8 where "KEY_PGUP = 0xE6"
definition KEY_PGDN :: u8 where "KEY_PGDN = 0xE7"
definition KEY_INS :: u8 where "KEY_INS = 0xE8"
definition KEY_DEL :: u8 where "KEY_DEL = 0xE9"

text \<open>An initialised table of 256 bytes: the first elements, then the designated ones.\<close>

definition table256 :: "u8 list \<Rightarrow> (nat \<times> u8) list \<Rightarrow> u8 list" where
  "table256 first rest = fold (\<lambda>(i, v) t. t[i := v]) rest (first @ replicate (256 - length first) 0)"

definition shiftcode :: "u8 list" where
  "shiftcode = table256 [] [(0x1D, ucast CTL), (0x2A, ucast SHIFT), (0x36, ucast SHIFT), (0x38, ucast ALT),
     (0x9D, ucast CTL), (0xB8, ucast ALT)]"

definition togglecode :: "u8 list" where
  "togglecode = table256 [] [(0x3A, ucast CAPSLOCK), (0x45, ucast NUMLOCK), (0x46, ucast SCROLLLOCK)]"

definition extended_keys :: "(nat \<times> u8) list" where
  "extended_keys = [(0xC8, KEY_UP), (0xC9, KEY_PGUP), (0xCB, KEY_LF), (0xCD, KEY_RT), (0xCF, KEY_END), (0xD0, KEY_DN),
     (0xD1, KEY_PGDN), (0xD2, KEY_INS), (0xD3, KEY_DEL)]"

definition bytes_of :: "string \<Rightarrow> u8 list" where
  "bytes_of t = map of_char t"

definition normalmap :: "u8 list" where
  "normalmap = table256
     ([0, 0x1B] @ bytes_of ''1234567890-='' @ [0x08, 0x09] @ bytes_of ''qwertyuiop[]'' @ [0x0A, 0] @
      bytes_of ''asdfghjkl;'' @ [0x27] @ [0x60, 0, 0x5C] @ bytes_of ''zxcvbnm,./'' @ [0] @ bytes_of ''*'' @ [0] @ bytes_of '' '' @
      replicate 13 0 @ bytes_of ''789-456+1230.'' @ replicate 4 0)
     ([(0xC7, KEY_HOME), (0x9C, 0x0A), (0xB5, 0x2F)] @ extended_keys)"

definition shiftmap :: "u8 list" where
  "shiftmap = table256
     ([0, 0x1B] @ bytes_of ''!@#$%^&*()_+'' @ [0x08, 0x09] @ bytes_of ''QWERTYUIOP{}'' @ [0x0A, 0] @
      bytes_of ''ASDFGHJKL:'' @ [0x22] @ [0x7E, 0, 0x7C] @ bytes_of ''ZXCVBNM<>?'' @ [0] @ bytes_of ''*'' @ [0] @ bytes_of '' '' @
      replicate 13 0 @ bytes_of ''789-456+1230.'' @ replicate 4 0)
     ([(0xC7, KEY_HOME), (0x9C, 0x0A), (0xB5, 0x2F)] @ extended_keys)"

definition C_key :: "char \<Rightarrow> u8" where
  "C_key x = of_char x - 0x40"

definition ctlmap :: "u8 list" where
  "ctlmap = table256
     (replicate 16 0 @ map C_key ''QWERTYUIOP'' @ [0, 0, 0x0D, 0] @ map C_key ''ASDFGHJKL'' @ [0, 0, 0, 0, 0x1C] @
      map C_key ''ZXCVBNM'' @ [0, 0, of_char (CHR ''/'') - 0x40, 0, 0])
     ([(0x97, KEY_HOME), (0xB5, of_char (CHR ''/'') - 0x40)] @ extended_keys)"

definition charcode :: "u8 list list" where
  "charcode = [normalmap, shiftmap, ctlmap, ctlmap]"

definition inb_data :: "console \<Rightarrow> u8 \<times> console" where
  "inb_data s = (case kb_pending s of [] \<Rightarrow> (kb_stale s, s) | b # bs \<Rightarrow> (b, s\<lparr>kb_pending := bs, kb_stale := b\<rparr>))"

text \<open>The part behind the scan code: modifiers, character, and the reboot key.\<close>

definition kbd_key :: "u8 \<Rightarrow> console \<Rightarrow> (int \<times> console) result" where
  "kbd_key data s =
     rbind (aget shiftcode (unat data)) (\<lambda>sc. rbind (aget togglecode (unat data)) (\<lambda>tc.
     let s = s\<lparr>shift := (shift s OR ucast sc) XOR ucast tc\<rparr> in
     rbind (aget charcode (unat (shift s AND (CTL OR SHIFT)))) (\<lambda>t. rbind (aget t (unat data)) (\<lambda>c.
     let c = (if shift s AND CAPSLOCK \<noteq> 0
              then if 0x61 \<le> c \<and> c \<le> 0x7A then uint c + 0x41 - 0x61
                   else if 0x41 \<le> c \<and> c \<le> 0x5A then uint c + 0x61 - 0x41 else uint c
              else uint c) in
     if NOT (shift s) AND (CTL OR ALT) = 0 \<and> c = uint KEY_DEL
     then rbind (printk (bytes_of ''Rebooting!'' @ [0x0A, 0]) [] s) (\<lambda>(_, s). Inr (c, s\<lparr>cio := outb 0x92 0x3 (cio s)\<rparr>))
     else Inr (c, s)))))"

definition kbd_proc_data :: "console \<Rightarrow> (int \<times> console) result" where
  "kbd_proc_data s =
     (if kb_pending s = [] then Inr (-1, s)
      else let (data, s) = inb_data s in
        if data = 0xE0 then
          let (data, s) = inb_data s in
          if data AND 0x80 \<noteq> 0 then Inr (0, s) else kbd_key (data OR 0x80) s
        else if data AND 0x80 \<noteq> 0 then
          rbind (aget shiftcode (unat (data AND 0x7F))) (\<lambda>sc. Inr (0, s\<lparr>shift := shift s AND NOT (ucast sc)\<rparr>))
        else kbd_key data s)"

text \<open>Screen output leaves the keyboard alone.\<close>

definition kbd_part :: "console \<Rightarrow> u8 list \<times> u32 \<times> u32 \<times> u32 \<times> u8 list \<times> u8" where
  "kbd_part s = (cons_buf s, rpos s, wpos s, shift s, kb_pending s, kb_stale s)"

lemma kbd_part_vga [simp]: "kbd_part (s\<lparr>vga := v\<rparr>) = kbd_part s" "kbd_part (s\<lparr>csr_x := x\<rparr>) = kbd_part s"
  "kbd_part (s\<lparr>csr_y := x\<rparr>) = kbd_part s" "kbd_part (s\<lparr>cio := l\<rparr>) = kbd_part s"
  by (simp_all add: kbd_part_def)

lemma vga_copy_kbd: "vga_copy d k n s = Inr s' \<Longrightarrow> kbd_part s' = kbd_part s"
  by (auto simp: vga_copy_def rbind_Inr_iff split: if_splits)

lemma vga_fill_kbd: "vga_fill d v n s = Inr s' \<Longrightarrow> kbd_part s' = kbd_part s"
  by (auto simp: vga_fill_def rbind_Inr_iff Let_def split: if_splits)

lemma k_putch_kbd: "k_putch c s = Inr s' \<Longrightarrow> kbd_part s' = kbd_part s"
proof -
  assume k: "k_putch c s = Inr s'"
  have pc: "kbd_part s1 = kbd_part s" if "put_char c s = Inr s1" for s1
    using that by (auto simp: put_char_def vga_store_def rbind_Inr_iff Let_def split: if_splits)
  have sc: "kbd_part b = kbd_part a" if "scroll a = Inr b" for a b
    using that by (auto simp: scroll_def rbind_Inr_iff Let_def split: if_splits dest!: vga_copy_kbd vga_fill_kbd)
  from k show ?thesis
    by (auto simp: k_putch_def rbind_Inr_iff move_csr_def Let_def dest!: pc sc split: if_splits)
qed

lemma printk_literal_kbd:
  assumes "0 \<notin> set t" "0x25 \<notin> set t" "printk (t @ [0]) ap s = Inr (n, s')"
  shows "kbd_part s' = kbd_part s"
proof -
  have "kbd_part a' = kbd_part a" if "put_all putch_kernel cs (a, m) = Inr (a', m')" for cs a m a' m'
    using that
    by (induction cs arbitrary: a m) (auto simp: putch_kernel_def rbind_Inr_iff dest!: k_putch_kbd)
  then show ?thesis
    using assms by (auto simp: printk_def vprintk_def vprintfmt_literal rbind_Inr_iff)
qed

lemma kbd_key_pending: "kbd_key data s = Inr (c, s') \<Longrightarrow> kb_pending s' = kb_pending s"
proof -
  assume k: "kbd_key data s = Inr (c, s')"
  have p: "kb_pending s2 = kb_pending s1" if "printk (bytes_of ''Rebooting!'' @ [0x0A, 0]) [] s1 = Inr (n, s2)" for s1 s2 n
    using printk_literal_kbd[of "bytes_of ''Rebooting!'' @ [0x0A]" "[]" s1 n s2] that
    by (simp add: bytes_of_def kbd_part_def)
  from k show ?thesis
    by (auto simp: kbd_key_def rbind_Inr_iff Let_def dest!: p split: if_splits)
qed

lemma kbd_proc_data_pending:
  "kbd_proc_data s = Inr (c, s') \<Longrightarrow> c \<noteq> -1 \<Longrightarrow> length (kb_pending s') < length (kb_pending s)"
  by (cases "kb_pending s"; cases "tl (kb_pending s)")
     (auto simp: kbd_proc_data_def inb_data_def Let_def rbind_Inr_iff split: if_splits dest!: kbd_key_pending)

section \<open>The input buffer (kernel/kbd.c)\<close>

definition CONSBUFSIZE :: u32 where "CONSBUFSIZE = 512"

definition cons_put :: "u8 \<Rightarrow> console \<Rightarrow> console result" where
  "cons_put c s =
     rbind (aset (cons_buf s) (unat (wpos s)) c) (\<lambda>b.
     let s = s\<lparr>cons_buf := b, wpos := wpos s + 1\<rparr> in
     Inr (if wpos s = CONSBUFSIZE then s\<lparr>wpos := 0\<rparr> else s))"

text \<open>\<open>cons_intr\<close> with the only routine it is called with, \<open>kbd_proc_data\<close>.\<close>

function cons_intr :: "console \<Rightarrow> console result" where
  "cons_intr s =
     rbind (kbd_proc_data s) (\<lambda>(c, s').
       if c = -1 then Inr s' else if c = 0 then cons_intr s' else cons_put (word_of_int c) s')"
  by pat_completeness auto
termination
  by (relation "measure (\<lambda>s. length (kb_pending s))") (auto dest: kbd_proc_data_pending)

declare cons_intr.simps [simp del]

definition cons_getc :: "console \<Rightarrow> (int \<times> console) result" where
  "cons_getc s =
     (if rpos s \<noteq> wpos s then
        rbind (aget (cons_buf s) (unat (rpos s))) (\<lambda>c.
        let s = s\<lparr>rpos := rpos s + 1\<rparr> in
        Inr (uint c, if rpos s = CONSBUFSIZE then s\<lparr>rpos := 0\<rparr> else s))
      else Inr (0, s))"

definition kbd_intr :: "console \<Rightarrow> console result" where
  "kbd_intr s = cons_intr s"

definition k_getc :: "console \<Rightarrow> (int \<times> console) result" where
  "k_getc s = cons_getc s"

section \<open>The contract of the input buffer\<close>

text \<open>
  A bounded queue: as long as it holds fewer than \<open>cap\<close> bytes, putting appends; getting removes
  the oldest byte, or answers 0 and changes nothing when the queue is empty.
\<close>

locale bounded_queue =
  fixes put :: "u8 \<Rightarrow> 's \<Rightarrow> 's result"
    and get :: "'s \<Rightarrow> (int \<times> 's) result"
    and contents :: "'s \<Rightarrow> u8 list"
    and ok :: "'s \<Rightarrow> bool"
    and cap :: nat
  assumes put_ok: "ok s \<Longrightarrow> length (contents s) < cap \<Longrightarrow>
      \<exists>s'. put c s = Inr s' \<and> ok s' \<and> contents s' = contents s @ [c]"
    and get_ok: "ok s \<Longrightarrow>
      \<exists>s'. get s = Inr (case contents s of [] \<Rightarrow> 0 | c # _ \<Rightarrow> uint c, s') \<and> ok s' \<and> contents s' = tl (contents s)"

text \<open>A history of the buffer: bytes that arrive and reads that take one out.\<close>

datatype buf_op = Arrive u8 | Take

fun buf_run :: "(u8 \<Rightarrow> 's \<Rightarrow> 's result) \<Rightarrow> ('s \<Rightarrow> (int \<times> 's) result) \<Rightarrow> buf_op list \<Rightarrow> 's \<Rightarrow> (int list \<times> 's) result" where
  "buf_run put get [] s = Inr ([], s)"
| "buf_run put get (Arrive c # ops) s = rbind (put c s) (buf_run put get ops)"
| "buf_run put get (Take # ops) s =
     rbind (get s) (\<lambda>(r, s). rbind (buf_run put get ops s) (\<lambda>(rs, s). Inr (r # rs, s)))"

fun queue_run :: "nat \<Rightarrow> buf_op list \<Rightarrow> u8 list \<Rightarrow> (int list \<times> u8 list) option" where
  "queue_run cap [] q = Some ([], q)"
| "queue_run cap (Arrive c # ops) q = (if length q < cap then queue_run cap ops (q @ [c]) else None)"
| "queue_run cap (Take # ops) q =
     (case queue_run cap ops (tl q) of None \<Rightarrow> None
      | Some (rs, q') \<Rightarrow> Some ((case q of [] \<Rightarrow> 0 | c # _ \<Rightarrow> uint c) # rs, q'))"

context bounded_queue
begin

lemma buf_run_queue:
  assumes "ok s" "queue_run cap ops (contents s) = Some (rs, q)"
  shows "\<exists>s'. buf_run put get ops s = Inr (rs, s') \<and> ok s' \<and> contents s' = q"
  using assms
proof (induction ops arbitrary: s rs)
  case (Cons op ops)
  show ?case
  proof (cases op)
    case (Arrive c)
    with Cons.prems(2) have len: "length (contents s) < cap" by (auto split: if_splits)
    obtain s1 where s1: "put c s = Inr s1" "ok s1" "contents s1 = contents s @ [c]"
      using put_ok[OF Cons.prems(1) len] by blast
    show ?thesis using Cons.IH[OF s1(2)] Cons.prems(2) Arrive s1(1,3) len by auto
  next
    case Take
    obtain s1 where s1: "get s = Inr (case contents s of [] \<Rightarrow> 0 | c # _ \<Rightarrow> uint c, s1)" "ok s1" "contents s1 = tl (contents s)"
      using get_ok[OF Cons.prems(1)] by blast
    from Cons.prems(2) Take obtain rs' where rs': "queue_run cap ops (tl (contents s)) = Some (rs', q)"
      "rs = (case contents s of [] \<Rightarrow> 0 | c # _ \<Rightarrow> uint c) # rs'"
      by (auto split: option.splits)
    from Cons.IH[OF s1(2), of rs'] rs' s1 Take show ?thesis by auto
  qed
qed simp

end

definition ring_ok :: "console \<Rightarrow> bool" where
  "ring_ok s \<longleftrightarrow> length (cons_buf s) = 512 \<and> unat (rpos s) < 512 \<and> unat (wpos s) < 512"

definition ring_len :: "console \<Rightarrow> nat" where
  "ring_len s = (unat (wpos s) + 512 - unat (rpos s)) mod 512"

definition ring_contents :: "console \<Rightarrow> u8 list" where
  "ring_contents s = map (\<lambda>i. cons_buf s ! ((unat (rpos s) + i) mod 512)) [0..<ring_len s]"

lemma mod_512: "a < 1024 \<Longrightarrow> a mod 512 = (if a < 512 then a else a - 512)" for a :: nat
  by (auto simp: mod_if)

lemma ring_len_cases:
  "ring_ok s \<Longrightarrow> ring_len s = (if unat (rpos s) \<le> unat (wpos s) then unat (wpos s) - unat (rpos s) else unat (wpos s) + 512 - unat (rpos s))"
  using mod_512[of "unat (wpos s) + 512 - unat (rpos s)"] by (auto simp: ring_len_def ring_ok_def)

lemma next_pos:
  assumes "unat (p :: u32) < 512"
  shows "unat (if p + 1 = CONSBUFSIZE then 0 else p + 1) = Suc (unat p) mod 512"
proof -
  have u: "unat (p + 1) = Suc (unat p)" using assms by (simp add: unat_word_ariths)
  have "p + 1 = CONSBUFSIZE \<longleftrightarrow> Suc (unat p) = 512"
    using u by (simp add: word_unat_eq_iff CONSBUFSIZE_def)
  with u assms show ?thesis by auto
qed

interpretation ring: bounded_queue cons_put cons_getc ring_contents ring_ok 511
proof
  fix s c
  assume ok: "ring_ok s" and len: "length (ring_contents s) < 511"
  let ?w = "unat (wpos s)" and ?r = "unat (rpos s)"
  have lt: "?w < 512" "?r < 512" "length (cons_buf s) = 512" using ok by (auto simp: ring_ok_def)
  let ?s = "s\<lparr>cons_buf := (cons_buf s)[?w := c], wpos := if wpos s + 1 = CONSBUFSIZE then 0 else wpos s + 1\<rparr>"
  have run: "cons_put c s = Inr ?s"
    using lt by (simp add: cons_put_def Let_def)
  have w: "unat (wpos ?s) = Suc ?w mod 512" using next_pos[OF lt(1)] by simp
  have l: "ring_len s < 511" using len by (simp add: ring_contents_def)
  have ok': "ring_ok ?s" using lt w by (simp add: ring_ok_def)
  have l': "ring_len ?s = Suc (ring_len s)"
    using l lt unfolding ring_len_cases[OF ok] ring_len_cases[OF ok'] w by (auto simp: mod_512 split: if_splits)
  have at: "(?r + ring_len s) mod 512 = ?w" using lt by (auto simp: ring_len_cases[OF ok] mod_512)
  have other: "(?r + i) mod 512 \<noteq> ?w" if "i < ring_len s" for i
    using that l lt unfolding ring_len_cases[OF ok] by (auto simp: mod_512 split: if_splits)
  have "(cons_buf s)[?w := c] ! ((?r + i) mod 512) = cons_buf s ! ((?r + i) mod 512)" if "i < ring_len s" for i
    using other[OF that] by simp
  then have "ring_contents ?s = ring_contents s @ [c]"
    unfolding ring_contents_def l' using lt at by simp
  then show "\<exists>s'. cons_put c s = Inr s' \<and> ring_ok s' \<and> ring_contents s' = ring_contents s @ [c]"
    using run ok' by blast
next
  fix s
  assume ok: "ring_ok s"
  let ?w = "unat (wpos s)" and ?r = "unat (rpos s)"
  have lt: "?w < 512" "?r < 512" "length (cons_buf s) = 512" using ok by (auto simp: ring_ok_def)
  show "\<exists>s'. cons_getc s = Inr (case ring_contents s of [] \<Rightarrow> 0 | c # _ \<Rightarrow> uint c, s') \<and> ring_ok s' \<and> ring_contents s' = tl (ring_contents s)"
  proof (cases "rpos s = wpos s")
    case True
    then have "ring_len s = 0" by (simp add: ring_len_def)
    then show ?thesis using ok True by (simp add: cons_getc_def ring_contents_def)
  next
    case False
    let ?s = "s\<lparr>rpos := if rpos s + 1 = CONSBUFSIZE then 0 else rpos s + 1\<rparr>"
    have ne: "?r \<noteq> ?w" using False by (simp add: word_unat_eq_iff)
    have r: "unat (rpos ?s) = Suc ?r mod 512" using next_pos[OF lt(2)] by simp
    have ok': "ring_ok ?s" using lt r by (simp add: ring_ok_def)
    have l: "ring_len s = Suc (ring_len ?s)"
      using ne lt unfolding ring_len_cases[OF ok] ring_len_cases[OF ok'] r by (auto simp: mod_512 split: if_splits)
    have "ring_contents s = cons_buf s ! ?r # ring_contents ?s"
      unfolding ring_contents_def l r using lt by (simp add: upt_conv_Cons map_Suc_upt[symmetric] mod_simps del: upt_Suc)
    moreover have "cons_getc s = Inr (uint (cons_buf s ! ?r), ?s)"
      using False lt by (simp add: cons_getc_def Let_def)
    ultimately show ?thesis using ok' by auto
  qed
qed

section \<open>The screen as a terminal\<close>

definition screen_ok :: "console \<Rightarrow> bool" where
  "screen_ok s \<longleftrightarrow> textmemptr s = 0xB8000 \<and> length (vga s) = 16384 \<and>
     0 \<le> csr_x s \<and> csr_x s < 80 \<and> 0 \<le> csr_y s \<and> csr_y s < 25"

text \<open>The abstract terminal: 25 rows of 80 cells and a cursor.\<close>

record terminal =
  tx :: nat
  ty :: nat
  tcell :: "nat \<Rightarrow> nat \<Rightarrow> u16"

definition cells :: "u16 list \<Rightarrow> nat \<Rightarrow> nat \<Rightarrow> u16" where
  "cells v = (\<lambda>y x. if y < 25 \<and> x < 80 then v ! (y * 80 + x) else 0)"

definition term_of :: "console \<Rightarrow> terminal" where
  "term_of s = \<lparr>tx = nat (csr_x s), ty = nat (csr_y s), tcell = cells (vga s)\<rparr>"

definition term_set :: "nat \<Rightarrow> nat \<Rightarrow> u16 \<Rightarrow> terminal \<Rightarrow> terminal" where
  "term_set y x v t = t\<lparr>tcell := (tcell t)(y := (tcell t y)(x := v))\<rparr>"

definition term_scroll :: "terminal \<Rightarrow> terminal" where
  "term_scroll t =
     (if ty t < 25 then t
      else t\<lparr>ty := 24, tcell := \<lambda>y x. if y < 24 then tcell t (Suc y) x else 0\<rparr>)"

definition term_put :: "u16 \<Rightarrow> u8 \<Rightarrow> terminal \<Rightarrow> terminal" where
  "term_put att c t =
     (let t = (if c = 0x08 then if tx t = 0 then t else (term_set (ty t) (tx t - 1) att t)\<lparr>tx := tx t - 1\<rparr>
               else if c = 0x09 then t\<lparr>tx := 8 * (tx t div 8 + 1)\<rparr>
               else if c = 0x0D then t\<lparr>tx := 0\<rparr>
               else if c = 0x0A then t\<lparr>tx := 0, ty := ty t + 1\<rparr>
               else if c \<ge> 0x20 then (term_set (ty t) (tx t) (ucast c OR att) t)\<lparr>tx := tx t + 1\<rparr>
               else t);
          t = (if tx t \<ge> 80 then t\<lparr>tx := 0, ty := ty t + 1\<rparr> else t)
      in term_scroll t)"

definition screen_att :: "console \<Rightarrow> u16" where
  "screen_att s = word_of_int (push_bit 8 (attrib s))"

text \<open>What output changes: cells of the visible page, the cursor, and the port log.\<close>

definition screen_step :: "console \<Rightarrow> console \<Rightarrow> bool" where
  "screen_step s s' \<longleftrightarrow> screen_ok s' \<and> attrib s' = attrib s \<and> drop 2000 (vga s') = drop 2000 (vga s) \<and> kbd_part s' = kbd_part s"

lemma vga_index_in:
  "textmemptr s = 0xB8000 \<Longrightarrow> 0 \<le> i \<Longrightarrow> i < int (length (vga s)) \<Longrightarrow> vga_index i s = Inr (nat i)"
  by (simp add: vga_index_def Let_def)

lemma tab_stop: "(k AND - 8 :: int) = 8 * (k div 8)"
proof -
  have "k AND NOT (mask 3) = push_bit 3 (drop_bit 3 k)"
    by (rule bit_eqI) (auto simp: bit_simps)
  then show ?thesis by (simp add: mask_eq_exp_minus_1 push_bit_eq_mult drop_bit_eq_div)
qed

lemma cells_update:
  assumes "y < 25" "x < 80" "2000 \<le> length v"
  shows "cells (v[y * 80 + x := c]) = (cells v)(y := (cells v y)(x := c))"
proof (intro ext)
  fix y' x' :: nat
  have "(y * 80 + x) div 80 = y" "(y * 80 + x) mod 80 = x" "x' < 80 \<Longrightarrow> (y' * 80 + x') div 80 = y'"
    "x' < 80 \<Longrightarrow> (y' * 80 + x') mod 80 = x'"
    using assms(2) by simp_all
  then have "y' * 80 + x' = y * 80 + x \<longleftrightarrow> y' = y \<and> x' = x" if "x' < 80"
    using that by metis
  then show "cells (v[y * 80 + x := c]) y' x' = ((cells v)(y := (cells v y)(x := c))) y' x'"
    using assms by (auto simp: cells_def nth_list_update)
qed

lemma cells_scroll:
  assumes "2000 \<le> length v"
  shows "cells (take 1920 (drop 80 v) @ replicate 80 0 @ drop 2000 v) =
    (\<lambda>y x. if y < 24 then cells v (Suc y) x else 0)"
proof (intro ext)
  fix y x :: nat
  show "cells (take 1920 (drop 80 v) @ replicate 80 0 @ drop 2000 v) y x = (if y < 24 then cells v (Suc y) x else 0)"
  proof (cases "y < 25 \<and> x < 80")
    case True
    then have "y * 80 + x < 1920 \<longleftrightarrow> y < 24" by auto
    then show ?thesis using True assms by (auto simp: cells_def nth_append ac_simps not_less)
  qed (auto simp: cells_def)
qed

lemma scroll_top:
  assumes "textmemptr s = 0xB8000" "length (vga s) = 16384" "0 \<le> csr_x s" "csr_x s < 80" "0 \<le> csr_y s" "csr_y s \<le> 25"
  shows "\<exists>s'. scroll s = Inr s' \<and> screen_step s s' \<and> term_of s' = term_scroll (term_of s)"
proof (cases "csr_y s = 25")
  case False
  then show ?thesis
    using assms by (auto simp: scroll_def screen_step_def screen_ok_def term_scroll_def term_of_def Let_def)
next
  case True
  let ?v = "take 1920 (drop 80 (vga s)) @ replicate 80 0 @ drop 2000 (vga s)"
  let ?v1 = "take 1920 (drop 80 (vga s)) @ drop 1920 (vga s)"
  have b: "(ucast (ucast (word_of_int (push_bit 8 (attrib s)) :: u16) :: u8) :: u16) = 0"
    by (rule bit_word_eqI) (simp add: bit_simps)
  have c: "vga_copy 0 80 1920 s = Inr (s\<lparr>vga := ?v1\<rparr>)"
    using assms(1,2) by (simp add: vga_copy_def vga_index_in)
  have f: "vga_fill 1920 w 80 (s\<lparr>vga := ?v1\<rparr>) = Inr (s\<lparr>vga := ?v\<rparr>)" if "(ucast (ucast w :: u8) :: u16) = 0" for w
    using assms(1,2) that by (simp add: vga_fill_def vga_index_in Let_def)
  have "scroll s = Inr (s\<lparr>vga := ?v, csr_y := 24\<rparr>)"
    using True c f[OF b] by (simp add: scroll_def Let_def)
  moreover have "screen_step s (s\<lparr>vga := ?v, csr_y := 24\<rparr>)"
    using assms by (simp add: screen_step_def screen_ok_def)
  moreover have "term_of (s\<lparr>vga := ?v, csr_y := 24\<rparr>) = term_scroll (term_of s)"
    using True cells_scroll[of "vga s"] assms(2) by (simp add: term_of_def term_scroll_def cong: if_cong)
  ultimately show ?thesis by blast
qed

lemma put_char_term:
  assumes "screen_ok s"
  shows "\<exists>s'. put_char c s = Inr s' \<and> textmemptr s' = 0xB8000 \<and> length (vga s') = 16384 \<and> 0 \<le> csr_x s' \<and> csr_x s' \<le> 80 \<and>
    0 \<le> csr_y s' \<and> csr_y s' \<le> csr_y s + (if c = 0x0A then 1 else 0) \<and> (c = 0x0A \<longrightarrow> csr_x s' = 0) \<and> attrib s' = attrib s \<and>
    drop 2000 (vga s') = drop 2000 (vga s) \<and> kbd_part s' = kbd_part s \<and>
    term_of s' = (let t = term_of s; att = screen_att s in
               if c = 0x08 then if tx t = 0 then t else (term_set (ty t) (tx t - 1) att t)\<lparr>tx := tx t - 1\<rparr>
               else if c = 0x09 then t\<lparr>tx := 8 * (tx t div 8 + 1)\<rparr>
               else if c = 0x0D then t\<lparr>tx := 0\<rparr>
               else if c = 0x0A then t\<lparr>tx := 0, ty := ty t + 1\<rparr>
               else if c \<ge> 0x20 then (term_set (ty t) (tx t) (ucast c OR att) t)\<lparr>tx := tx t + 1\<rparr>
               else t)"
proof -
  obtain x y where xy: "csr_x s = int x" "csr_y s = int y" "x < 80" "y < 25"
    using assms unfolding screen_ok_def by (metis nonneg_int_cases of_nat_less_iff of_nat_numeral)
  have tm: "textmemptr s = 0xB8000" "length (vga s) = 16384" using assms by (auto simp: screen_ok_def)
  have idx: "vga_index (int y * 80 + int x') s = Inr (y * 80 + x')" if "x' < 80" for x'
    using tm xy(4) that by (simp add: vga_index_in nat_add_distrib nat_mult_distrib)
  have idx': "vga_index (int y * 80 + int x - 1) s = Inr (y * 80 + (x - 1))" if "x \<noteq> 0"
    using idx[of "x - 1"] that xy(3) by (simp add: of_nat_diff algebra_simps)
  have dr: "drop 2000 ((vga s)[y * 80 + x' := v]) = drop 2000 (vga s)" if "x' < 80" for x' v
    using xy(4) that by simp
  have tab: "8 * ((int x + 8) div 8) = int (8 + 8 * (x div 8))" "8 + 8 * (x div 8) \<le> 80"
    using xy(3) by (simp_all add: zdiv_int div_add_self2 distrib_left)
  note cu = cells_update[OF xy(4), of _ "vga s"]
  show ?thesis
    using xy tm idx[of x] idx' dr[of x] dr[of "x - 1"] cu[of x] cu[of "x - 1"]
    by (auto simp: put_char_def vga_store_def Let_def term_of_def term_set_def screen_att_def tab_stop tab kbd_part_def)
qed

lemma move_csr_term: "term_of (move_csr s) = term_of s" "screen_step s0 (move_csr s) \<longleftrightarrow> screen_step s0 s"
  by (simp_all add: move_csr_def term_of_def screen_step_def screen_ok_def kbd_part_def Let_def)

lemma k_putch_term:
  assumes "screen_ok s"
  shows "\<exists>s'. k_putch c s = Inr s' \<and> screen_step s s' \<and> term_of s' = term_put (screen_att s) c (term_of s)"
proof -
  obtain s1 where s1: "put_char c s = Inr s1" "textmemptr s1 = 0xB8000" "length (vga s1) = 16384" "0 \<le> csr_x s1" "csr_x s1 \<le> 80"
    "0 \<le> csr_y s1" "csr_y s1 \<le> csr_y s + (if c = 0x0A then 1 else 0)" "c = 0x0A \<longrightarrow> csr_x s1 = 0" "attrib s1 = attrib s"
    "drop 2000 (vga s1) = drop 2000 (vga s)" "kbd_part s1 = kbd_part s"
    and t1: "term_put (screen_att s) c (term_of s) =
      term_scroll (if tx (term_of s1) \<ge> 80 then (term_of s1)\<lparr>tx := 0, ty := ty (term_of s1) + 1\<rparr> else term_of s1)"
    using put_char_term[OF assms, of c] unfolding term_put_def Let_def by auto
  let ?s = "if csr_x s1 \<ge> 80 then s1\<lparr>csr_x := 0, csr_y := csr_y s1 + 1\<rparr> else s1"
  have ys: "csr_y s < 25" using assms by (simp add: screen_ok_def)
  have "textmemptr ?s = 0xB8000" "length (vga ?s) = 16384" "0 \<le> csr_x ?s" "csr_x ?s < 80" "0 \<le> csr_y ?s" "csr_y ?s \<le> 25"
    using s1 ys by (auto split: if_splits)
  from scroll_top[OF this] obtain s2 where s2: "scroll ?s = Inr s2" "screen_step ?s s2" "term_of s2 = term_scroll (term_of ?s)" by blast
  have "term_of ?s = (if tx (term_of s1) \<ge> 80 then (term_of s1)\<lparr>tx := 0, ty := ty (term_of s1) + 1\<rparr> else term_of s1)"
    using s1(4-6) by (auto simp: term_of_def nat_add_distrib)
  moreover have "screen_step s s2"
    using s2(2) s1(9-11) by (auto simp: screen_step_def kbd_part_def split: if_splits)
  moreover have "k_putch c s = Inr (move_csr s2)"
    using s1(1) s2(1) by (simp add: k_putch_def Let_def)
  ultimately show ?thesis
    using t1 s2(3) by (auto simp: move_csr_term)
qed

text \<open>Kernel printing: a sink whose state is the console.\<close>

definition screen_received :: "console \<Rightarrow> int list \<Rightarrow> console \<times> int \<Rightarrow> bool" where
  "screen_received s0 l = (\<lambda>(s, cnt). screen_ok s0 \<and> cnt = int (length l) \<and> screen_step s0 s \<and>
     term_of s = fold (\<lambda>ch. term_put (screen_att s0) (word_of_int ch)) l (term_of s0))"

interpretation to_screen: char_sink putch_kernel "screen_received s0"
proof
  fix l :: "int list" and a :: "console \<times> int" and c
  assume r: "screen_received s0 l a"
  obtain s n where a: "a = (s, n)" by (cases a)
  have ok: "screen_ok s" "screen_att s = screen_att s0" using r a by (auto simp: screen_received_def screen_step_def screen_att_def)
  obtain s' where s': "k_putch (word_of_int c) s = Inr s'" "screen_step s s'"
    "term_of s' = term_put (screen_att s) (word_of_int c) (term_of s)"
    using k_putch_term[OF ok(1)] by blast
  then show "\<exists>b. putch_kernel c a = Inr b \<and> screen_received s0 (l @ [c]) b"
    using r a ok(2) by (auto simp: putch_kernel_def screen_received_def screen_step_def)
qed

lemma kbd_table_facts:
  "aget shiftcode 0x9D = Inr 2" "aget togglecode 0x9D = Inr 0" "aget ctlmap 0x9D = Inr 0"
  "aget shiftcode 0x1D = Inr 2" "aget togglecode 0x1D = Inr 0" "aget ctlmap 0x1D = Inr 0"
  "aget shiftcode 0x2E = Inr 0" "aget togglecode 0x2E = Inr 0" "aget ctlmap 0x2E = Inr 3" "aget normalmap 0x2E = Inr 0x63"
  by code_simp+

section \<open>Properties\<close>

lemma printk_screen:
  assumes "screen_ok s" "vprintfmt emit fmt ap [] = Inr out"
  shows "\<exists>s'. printk fmt ap s = Inr (int (length out), s') \<and> screen_ok s' \<and>
    term_of s' = fold (\<lambda>ch. term_put (screen_att s) (word_of_int ch)) out (term_of s) \<and>
    attrib s' = attrib s \<and> drop 2000 (vga s') = drop 2000 (vga s) \<and> kbd_part s' = kbd_part s"
proof -
  have "screen_received s [] (s, 0)"
    using assms(1) by (simp add: screen_received_def screen_step_def)
  with to_screen.vprintfmt_arrives[of s fmt ap] assms(2) obtain b where
    "vprintfmt putch_kernel fmt ap (s, 0) = Inr b" "screen_received s out b"
    unfolding follows_def by blast
  then show ?thesis
    by (cases b) (auto simp: printk_def vprintk_def screen_received_def screen_step_def)
qed

text \<open>
  C28. Kernel printing drives the screen as a terminal and never writes outside the visible page.
  If the cursor is on the 25 by 80 page and the formatter emits \<open>out\<close>, \<open>printk\<close> succeeds, returns
  the length of \<open>out\<close>, and the page and the cursor are those of a terminal that received the
  characters of \<open>out\<close> one by one (backspace, tab stops, carriage return, newline, wrapping at the
  right edge, scrolling at the bottom); the cursor stays on the page, and the rest of the video
  memory, the colour and the keyboard state are unchanged.
\<close>

theorem printk_terminal:
  assumes "screen_ok s" "vprintfmt emit fmt ap [] = Inr out"
  shows "\<exists>s'. printk fmt ap s = Inr (int (length out), s') \<and> screen_ok s' \<and>
    term_of s' = fold (\<lambda>ch. term_put (screen_att s) (word_of_int ch)) out (term_of s) \<and>
    attrib s' = attrib s \<and> drop 2000 (vga s') = drop 2000 (vga s) \<and> kbd_part s' = kbd_part s"
  using printk_screen[OF assms] .

definition blank_console :: console where
  "blank_console = \<lparr>textmemptr = 0xB8000, vga = replicate 16384 0, attrib = 0x0F, csr_x = 78, csr_y = 24,
     cons_buf = replicate 512 0, rpos = 0, wpos = 0, shift = 0, kb_pending = [], kb_stale = 0, cio = []\<rparr>"

theorem printk_terminal_witness:
  "\<exists>s'. printk [0x68, 0x69, 0x21, 0] [] blank_console = Inr (3, s') \<and> csr_y s' = 24 \<and> csr_x s' = 1"
proof -
  have o: "screen_ok blank_console" "vprintfmt emit [0x68, 0x69, 0x21, 0] [] [] = Inr [0x68, 0x69, 0x21]"
    by (simp_all add: screen_ok_def blank_console_def vprintfmt_def emit_def)
  obtain s' where s': "printk [0x68, 0x69, 0x21, 0] [] blank_console = Inr (3, s')" "screen_ok s'"
    "term_of s' = fold (\<lambda>ch. term_put (screen_att blank_console) (word_of_int ch)) [0x68, 0x69, 0x21] (term_of blank_console)"
    using printk_terminal[OF o] by auto
  have "tx (term_of s') = 1" "ty (term_of s') = 24"
    unfolding s'(3) by (simp_all add: term_put_def term_of_def blank_console_def term_scroll_def term_set_def Let_def)
  then show ?thesis using s'(1,2) by (auto simp: term_of_def screen_ok_def)
qed

text \<open>
  C29. The console input buffer is a queue of at most 511 bytes: in every sequence of arriving bytes
  and reads in which no byte arrives while 511 are waiting, the reads return the bytes in the
  order of arrival (and 0 when none is waiting). A byte that arrives while 511 are waiting
  makes the buffer look empty: all 512 bytes are lost.
\<close>

theorem console_buffer_queue:
  assumes "ring_ok s"
  shows "(queue_run 511 ops (ring_contents s) = Some (rs, q) \<longrightarrow>
       (\<exists>s'. buf_run cons_put cons_getc ops s = Inr (rs, s') \<and> ring_ok s' \<and> ring_contents s' = q)) \<and>
    (length (ring_contents s) = 511 \<longrightarrow> (\<exists>s'. cons_put c s = Inr s' \<and> ring_contents s' = [] \<and> cons_getc s' = Inr (0, s')))"
proof (intro conjI impI)
  show "\<exists>s'. buf_run cons_put cons_getc ops s = Inr (rs, s') \<and> ring_ok s' \<and> ring_contents s' = q"
    if "queue_run 511 ops (ring_contents s) = Some (rs, q)"
    by (rule ring.buf_run_queue[OF assms that])
next
  assume full: "length (ring_contents s) = 511"
  let ?w = "unat (wpos s)" and ?r = "unat (rpos s)"
  have lt: "?w < 512" "?r < 512" "length (cons_buf s) = 512" using assms by (auto simp: ring_ok_def)
  let ?s = "s\<lparr>cons_buf := (cons_buf s)[?w := c], wpos := if wpos s + 1 = CONSBUFSIZE then 0 else wpos s + 1\<rparr>"
  have run: "cons_put c s = Inr ?s" using lt by (simp add: cons_put_def Let_def)
  have "Suc ?w mod 512 = ?r"
    using full lt ring_len_cases[OF assms] by (auto simp: ring_contents_def mod_512 split: if_splits)
  then have eq: "wpos ?s = rpos ?s" using next_pos[OF lt(1)] by (simp add: word_unat_eq_iff)
  then have "ring_contents ?s = []" by (simp add: ring_contents_def ring_len_def)
  moreover have "cons_getc ?s = Inr (0, ?s)" using eq by (simp add: cons_getc_def)
  ultimately show "\<exists>s'. cons_put c s = Inr s' \<and> ring_contents s' = [] \<and> cons_getc s' = Inr (0, s')"
    using run by blast
qed

theorem console_buffer_queue_witness:
  "\<exists>s'. buf_run cons_put cons_getc [Arrive 0x61, Arrive 0x62, Take, Take, Take] blank_console = Inr ([0x61, 0x62, 0], s')"
  using console_buffer_queue[of blank_console "[Arrive 0x61, Arrive 0x62, Take, Take, Take]" "[0x61, 0x62, 0]" "[]" 0]
  by (auto simp: ring_ok_def blank_console_def ring_contents_def ring_len_def)


end
