(* ===== verification/Fat_Const.thy ===== *)
theory Fat_Const
  imports Kernel_Prelude
begin

text \<open>
  The constants of the FatFs interface (\<^verbatim>\<open>kernel/fs/fat/ff.h\<close>) the file layer and the FatFs theories
  share, and the structure that describes a directory entry to the caller.
\<close>

definition FR_OK :: int where "FR_OK = 0"
definition FR_DISK_ERR :: int where "FR_DISK_ERR = 1"
definition FR_INT_ERR :: int where "FR_INT_ERR = 2"
definition FR_NOT_READY :: int where "FR_NOT_READY = 3"
definition FR_NO_FILE :: int where "FR_NO_FILE = 4"
definition FR_NO_PATH :: int where "FR_NO_PATH = 5"
definition FR_INVALID_NAME :: int where "FR_INVALID_NAME = 6"
definition FR_DENIED :: int where "FR_DENIED = 7"
definition FR_EXIST :: int where "FR_EXIST = 8"
definition FR_INVALID_OBJECT :: int where "FR_INVALID_OBJECT = 9"
definition FR_WRITE_PROTECTED :: int where "FR_WRITE_PROTECTED = 10"
definition FR_INVALID_DRIVE :: int where "FR_INVALID_DRIVE = 11"
definition FR_NOT_ENABLED :: int where "FR_NOT_ENABLED = 12"
definition FR_NO_FILESYSTEM :: int where "FR_NO_FILESYSTEM = 13"
definition FR_MKFS_ABORTED :: int where "FR_MKFS_ABORTED = 14"

definition FA_READ :: u8 where "FA_READ = 0x01"
definition FA_WRITE :: u8 where "FA_WRITE = 0x02"
definition FA_CREATE_NEW :: u8 where "FA_CREATE_NEW = 0x04"
definition FA_CREATE_ALWAYS :: u8 where "FA_CREATE_ALWAYS = 0x08"
definition FA_OPEN_ALWAYS :: u8 where "FA_OPEN_ALWAYS = 0x10"
definition FA_MODIFIED :: u8 where "FA_MODIFIED = 0x20"
definition FA_DIRTY :: u8 where "FA_DIRTY = 0x40"

definition FS_FAT12 :: u8 where "FS_FAT12 = 1"
definition FS_FAT16 :: u8 where "FS_FAT16 = 2"
definition FS_FAT32 :: u8 where "FS_FAT32 = 3"

definition AM_RDO :: u8 where "AM_RDO = 0x01"
definition AM_VOL :: u8 where "AM_VOL = 0x08"
definition AM_LFN :: u8 where "AM_LFN = 0x0F"
definition AM_DIR :: u8 where "AM_DIR = 0x10"
definition AM_ARC :: u8 where "AM_ARC = 0x20"
definition AM_MASK :: u8 where "AM_MASK = 0x3F"

record FILINFO =
  fi_fsize :: u32
  fi_fdate :: u16
  fi_ftime :: u16
  fi_fattrib :: u8
  fi_fname :: "u8 list"

end
