(* ===== verification/Vfs.thy ===== *)
theory Vfs
  imports Console Fat_Const
begin

text \<open>
  The file layer: descriptors and the virtual file system (\<^verbatim>\<open>kernel/fs/fs.c\<close>), the FAT operators
  (\<^verbatim>\<open>kernel/fs/fs_ops.c\<close>) and the file system calls (\<^verbatim>\<open>kernel/fs/fs_syscall.c\<close>).

  The FatFs module (\<^verbatim>\<open>kernel/fs/fat\<close>) is a parameter: a record of its functions over its own state
  \<open>'f\<close> (volume, open files, disk) and directory objects \<open>'d\<close>. A \<open>struct fs_fd *\<close> is an index into
  \<open>fd_table\<close>, the \<open>FIL\<close> object of a descriptor an index into \<open>file_objs\<close>.
\<close>

section \<open>Constants (inc/stdio.h)\<close>

definition STATUS_ENOENT :: int where "STATUS_ENOENT = 2"
definition STATUS_EIO :: int where "STATUS_EIO = 5"
definition STATUS_EBADF :: int where "STATUS_EBADF = 9"
definition STATUS_EEXIST :: int where "STATUS_EEXIST = 17"
definition STATUS_EINVAL :: int where "STATUS_EINVAL = 22"
definition O_RDONLY :: u32 where "O_RDONLY = 0"
definition O_WRONLY :: u32 where "O_WRONLY = 1"
definition O_RDWR :: u32 where "O_RDWR = 2"
definition O_CREAT :: u32 where "O_CREAT = 0x100"
definition O_TRUNC :: u32 where "O_TRUNC = 0x1000"
definition O_APPEND :: u32 where "O_APPEND = 0x2000"
definition SEEK_SET :: int where "SEEK_SET = 0"
definition SEEK_CUR :: int where "SEEK_CUR = 1"
definition SEEK_END :: int where "SEEK_END = 2"
definition FS_FD_MAX :: nat where "FS_FD_MAX = 10"

section \<open>State\<close>

text \<open>A \<open>FIL\<close> object: an element of \<open>file_objs\<close> or a local variable.\<close>

datatype fil_ref = FileObj nat | LocalFil

record ('f, 'd) fatfs =
  f_mount :: "u8 list \<Rightarrow> u8 \<Rightarrow> 'f \<Rightarrow> int \<times> 'f"
  f_mkfs :: "u8 list \<Rightarrow> 'f \<Rightarrow> int \<times> 'f"
  f_open :: "fil_ref \<Rightarrow> u8 list \<Rightarrow> u8 \<Rightarrow> 'f \<Rightarrow> int \<times> 'f"
  f_close :: "fil_ref \<Rightarrow> 'f \<Rightarrow> int \<times> 'f"
  f_read :: "fil_ref \<Rightarrow> u32 \<Rightarrow> 'f \<Rightarrow> int \<times> u8 list \<times> 'f"
  f_write :: "fil_ref \<Rightarrow> u8 list \<Rightarrow> 'f \<Rightarrow> int \<times> u32 \<times> 'f"
  f_lseek :: "fil_ref \<Rightarrow> u32 \<Rightarrow> 'f \<Rightarrow> int \<times> 'f"
  f_unlink :: "u8 list \<Rightarrow> 'f \<Rightarrow> int \<times> 'f"
  f_stat :: "u8 list \<Rightarrow> 'f \<Rightarrow> int \<times> FILINFO \<times> 'f"
  f_opendir :: "u8 list \<Rightarrow> 'f \<Rightarrow> int \<times> 'd \<times> 'f"
  f_readdir :: "'d \<Rightarrow> 'f \<Rightarrow> int \<times> FILINFO \<times> 'd \<times> 'f"
  f_closedir :: "'d \<Rightarrow> 'f \<Rightarrow> int \<times> 'f"
  fil_objsize :: "fil_ref \<Rightarrow> 'f \<Rightarrow> u32"
  fil_clear :: "fil_ref \<Rightarrow> 'f \<Rightarrow> 'f"       \<comment> \<open>\<open>memset(fil, 0, sizeof(FIL))\<close>\<close>

record fs_fd =
  fd_path :: "u8 list"
  fd_type :: int
  ref_count :: int
  fd_fs :: bool             \<comment> \<open>points to \<open>fat_fs\<close>, or null\<close>
  fd_flags :: u32
  fd_size :: u32
  fd_pos :: u32             \<comment> \<open>\<open>off_t\<close>: added to and compared after conversion to \<open>size_t\<close>\<close>
  fd_data :: fil_ref

record 'f vfs =
  fd_table :: "fs_fd list"
  fat_path :: "u8 list"     \<comment> \<open>\<open>fat_fs.path\<close>\<close>
  vcon :: console
  vfat :: 'f

definition get_fd :: "nat \<Rightarrow> 'f vfs \<Rightarrow> fs_fd result" where
  "get_fd i s = aget (fd_table s) i"

definition set_fd :: "nat \<Rightarrow> (fs_fd \<Rightarrow> fs_fd) \<Rightarrow> 'f vfs \<Rightarrow> 'f vfs result" where
  "set_fd i f s = rbind (get_fd i s) (\<lambda>d. Inr (s\<lparr>fd_table := (fd_table s)[i := f d]\<rparr>))"

section \<open>FAT operators (kernel/fs/fs_ops.c)\<close>

definition fat_mount :: "('f, 'd) fatfs \<Rightarrow> 'f vfs \<Rightarrow> (int \<times> 'f vfs) result" where
  "fat_mount F s = (let (res, f) = f_mount F (fat_path s) 1 (vfat s) in Inr (- res, s\<lparr>vfat := f\<rparr>))"

definition fat_mkfs :: "('f, 'd) fatfs \<Rightarrow> 'f vfs \<Rightarrow> (int \<times> 'f vfs) result" where
  "fat_mkfs F s = (let (res, f) = f_mkfs F (ascii ''/'') (vfat s) in Inr (- res, s\<lparr>vfat := f\<rparr>))"

definition open_mode :: "u32 \<Rightarrow> u8" where
  "open_mode flags =
     (if flags = O_RDONLY then FA_READ else 0) OR
     (if flags AND O_WRONLY \<noteq> 0 then FA_WRITE else 0) OR
     (if flags AND O_RDWR \<noteq> 0 then FA_READ OR FA_WRITE else 0) OR
     (if flags AND O_CREAT \<noteq> 0 \<and> flags AND O_TRUNC \<noteq> 0 then FA_CREATE_ALWAYS
      else if flags AND O_CREAT \<noteq> 0 then FA_CREATE_NEW else 0)"

definition fat_open :: "('f, 'd) fatfs \<Rightarrow> nat \<Rightarrow> 'f vfs \<Rightarrow> (int \<times> 'f vfs) result" where
  "fat_open F fd s =
     rbind (set_fd fd (\<lambda>d. d\<lparr>fd_size := if fd_flags d AND O_CREAT \<noteq> 0 then 0 else fd_size d, fd_pos := 0\<rparr>) s) (\<lambda>s.
     rbind (get_fd fd s) (\<lambda>d.
     let (res, f) = f_open F (fd_data d) (fd_path d) (open_mode (fd_flags d)) (vfat s);
         f = (if fd_flags d AND O_APPEND \<noteq> 0 then snd (f_lseek F (fd_data d) (fil_objsize F (fd_data d) f) f) else f) in
     Inr (- res, s\<lparr>vfat := f\<rparr>)))"

definition fat_close :: "('f, 'd) fatfs \<Rightarrow> nat \<Rightarrow> 'f vfs \<Rightarrow> (int \<times> 'f vfs) result" where
  "fat_close F fd s = rbind (get_fd fd s) (\<lambda>d.
     let (res, f) = f_close F (fd_data d) (vfat s) in Inr (- res, s\<lparr>vfat := f\<rparr>))"

text \<open>The bytes read go to the caller's buffer.\<close>

definition fat_read :: "('f, 'd) fatfs \<Rightarrow> nat \<Rightarrow> u32 \<Rightarrow> 'f vfs \<Rightarrow> (int \<times> u8 list \<times> 'f vfs) result" where
  "fat_read F fd count s = rbind (get_fd fd s) (\<lambda>d.
     let (res, bs, f) = f_read F (fd_data d) count (vfat s) in
     Inr (if res = FR_OK then to_int32 (int (length bs)) else - res, bs, s\<lparr>vfat := f\<rparr>))"

definition fat_write :: "('f, 'd) fatfs \<Rightarrow> nat \<Rightarrow> u8 list \<Rightarrow> 'f vfs \<Rightarrow> (int \<times> 'f vfs) result" where
  "fat_write F fd bs s = rbind (get_fd fd s) (\<lambda>d.
     let (res, bw, f) = f_write F (fd_data d) bs (vfat s); s = s\<lparr>vfat := f\<rparr> in
     rbind (set_fd fd (\<lambda>d. let d = d\<lparr>fd_pos := fd_pos d + bw\<rparr> in
       if fd_pos d > fd_size d then d\<lparr>fd_size := fd_pos d\<rparr> else d) s) (\<lambda>s.
     Inr (if res = FR_OK then sint bw else - res, s)))"

definition fat_lseek :: "('f, 'd) fatfs \<Rightarrow> nat \<Rightarrow> u32 \<Rightarrow> 'f vfs \<Rightarrow> (int \<times> 'f vfs) result" where
  "fat_lseek F fd offset s = rbind (get_fd fd s) (\<lambda>d.
     let (res, f) = f_lseek F (fd_data d) offset (vfat s) in Inr (- res, s\<lparr>vfat := f\<rparr>))"

definition fat_unlink :: "('f, 'd) fatfs \<Rightarrow> u8 list \<Rightarrow> 'f vfs \<Rightarrow> (int \<times> 'f vfs) result" where
  "fat_unlink F path s = (let (res, f) = f_unlink F path (vfat s) in Inr (- res, s\<lparr>vfat := f\<rparr>))"

definition printk_v :: "u8 list \<Rightarrow> vararg list \<Rightarrow> 'f vfs \<Rightarrow> 'f vfs result" where
  "printk_v fmt ap s = rbind (printk fmt ap (vcon s)) (\<lambda>(_, c). Inr (s\<lparr>vcon := c\<rparr>))"

definition printInfo :: "FILINFO \<Rightarrow> 'f vfs \<Rightarrow> 'f vfs result" where
  "printInfo fno s =
     rbind (printk_v (ascii ''%s '') [VStr 1 (fi_fname fno)] s) (\<lambda>s.
     rbind (printk_v (ascii ''type:'') [] s) (\<lambda>s.
     rbind (printk_v (if fi_fattrib fno AND AM_DIR \<noteq> 0 then ascii ''DIR'' else ascii ''FILE'') [] s) (\<lambda>s.
     printk_v (bytes_of '' size:%d'' @ [0x0A, 0]) [VWord (fi_fsize fno)] s)))"

text \<open>The loop over a directory; \<open>n\<close> bounds the number of entries, running out of it is \<open>Spin\<close>.\<close>

fun ls_loop :: "('f, 'd) fatfs \<Rightarrow> nat \<Rightarrow> 'd \<Rightarrow> 'f vfs \<Rightarrow> (int \<times> 'd \<times> 'f vfs) result" where
  "ls_loop F 0 dp s = Inl Spin"
| "ls_loop F (Suc n) dp s =
     (let (res, fno, dp, f) = f_readdir F dp (vfat s); s = s\<lparr>vfat := f\<rparr> in
      if res \<noteq> FR_OK then Inr (- res, dp, s)
      else rbind (aget (fi_fname fno) 0) (\<lambda>c.
        if c = 0 then
          let (res, f) = f_closedir F dp (vfat s); s = s\<lparr>vfat := f\<rparr> in
          Inr (if res \<noteq> FR_OK then - res else FR_OK, dp, s)
        else rbind (printInfo fno s) (ls_loop F n dp)))"

definition fat_ls :: "('f, 'd) fatfs \<Rightarrow> nat \<Rightarrow> u8 list \<Rightarrow> 'f vfs \<Rightarrow> (int \<times> 'f vfs) result" where
  "fat_ls F n path s =
     (let (res, fno, f) = f_stat F path (vfat s); s = s\<lparr>vfat := f\<rparr> in
      if res = FR_OK \<and> fi_fattrib fno AND AM_DIR = 0 then rbind (printInfo fno s) (\<lambda>s. Inr (FR_OK, s))
      else let (res, dp, f) = f_opendir F path (vfat s); s = s\<lparr>vfat := f\<rparr> in
        if res \<noteq> FR_OK then Inr (- res, s)
        else rbind (ls_loop F n dp s) (\<lambda>(r, _, s). Inr (r, s)))"

definition fat_rm :: "('f, 'd) fatfs \<Rightarrow> u8 list \<Rightarrow> 'f vfs \<Rightarrow> (int \<times> 'f vfs) result" where
  "fat_rm F path s = (let (res, f) = f_unlink F path (vfat s) in Inr (- res, s\<lparr>vfat := f\<rparr>))"

definition fat_touch :: "('f, 'd) fatfs \<Rightarrow> u8 list \<Rightarrow> 'f vfs \<Rightarrow> (int \<times> 'f vfs) result" where
  "fat_touch F path s = (let (res, f) = f_open F LocalFil path FA_OPEN_ALWAYS (vfat s) in Inr (- res, s\<lparr>vfat := f\<rparr>))"

text \<open>The table of operators; \<open>n\<close> bounds directory listings.\<close>

record 'f fs_ops =
  dev_name :: "u8 list"
  op_mount :: "'f vfs \<Rightarrow> (int \<times> 'f vfs) result"
  op_mkfs :: "'f vfs \<Rightarrow> (int \<times> 'f vfs) result"
  op_open :: "nat \<Rightarrow> 'f vfs \<Rightarrow> (int \<times> 'f vfs) result"
  op_close :: "nat \<Rightarrow> 'f vfs \<Rightarrow> (int \<times> 'f vfs) result"
  op_read :: "nat \<Rightarrow> u32 \<Rightarrow> 'f vfs \<Rightarrow> (int \<times> u8 list \<times> 'f vfs) result"
  op_write :: "nat \<Rightarrow> u8 list \<Rightarrow> 'f vfs \<Rightarrow> (int \<times> 'f vfs) result"
  op_lseek :: "nat \<Rightarrow> u32 \<Rightarrow> 'f vfs \<Rightarrow> (int \<times> 'f vfs) result"
  op_unlink :: "u8 list \<Rightarrow> 'f vfs \<Rightarrow> (int \<times> 'f vfs) result"
  op_ls :: "u8 list \<Rightarrow> 'f vfs \<Rightarrow> (int \<times> 'f vfs) result"
  op_rm :: "u8 list \<Rightarrow> 'f vfs \<Rightarrow> (int \<times> 'f vfs) result"
  op_touch :: "u8 list \<Rightarrow> 'f vfs \<Rightarrow> (int \<times> 'f vfs) result"

definition elmfat_ops :: "('f, 'd) fatfs \<Rightarrow> nat \<Rightarrow> 'f fs_ops" where
  "elmfat_ops F n = \<lparr>dev_name = ascii ''elmfat'', op_mount = fat_mount F, op_mkfs = fat_mkfs F, op_open = fat_open F,
     op_close = fat_close F, op_read = fat_read F, op_write = fat_write F, op_lseek = fat_lseek F,
     op_unlink = fat_unlink F, op_ls = fat_ls F n, op_rm = fat_rm F, op_touch = fat_touch F\<rparr>"

section \<open>The virtual file system (kernel/fs/fs.c)\<close>

definition fs_mount :: "'f fs_ops \<Rightarrow> u8 list \<Rightarrow> 'f vfs \<Rightarrow> (int \<times> 'f vfs) result" where
  "fs_mount ops device_name s =
     rbind (strcmp device_name (dev_name ops)) (\<lambda>c. if c = 0 then op_mount ops s else Inr (- STATUS_EIO, s))"

definition fd_reset :: "nat \<Rightarrow> 'f vfs \<Rightarrow> 'f vfs result" where
  "fd_reset i = set_fd i (\<lambda>d. d\<lparr>fd_flags := 0, fd_size := 0, fd_pos := 0, fd_type := 0, ref_count := 0,
     fd_data := FileObj i, fd_fs := True\<rparr>)"

definition fs_init :: "'f fs_ops \<Rightarrow> 'f vfs \<Rightarrow> (int \<times> 'f vfs) result" where
  "fs_init ops s =
     rbind (kfor 0 FS_FD_MAX fd_reset s) (\<lambda>s.
     rbind (fs_mount ops (ascii ''elmfat'') s) (\<lambda>(res, s).
     if res \<noteq> 0 then rbind (op_mkfs ops s) (\<lambda>(_, s). fs_mount ops (ascii ''elmfat'') s)
     else Inr (- STATUS_EIO, s)))"

text \<open>\<open>fd->fs->ops\<close>.\<close>

definition fd_ops :: "nat \<Rightarrow> 'f vfs \<Rightarrow> unit result" where
  "fd_ops fd s = rbind (get_fd fd s) (\<lambda>d. if fd_fs d then Inr () else Inl Fault)"

definition file_open :: "'f fs_ops \<Rightarrow> nat \<Rightarrow> u8 list \<Rightarrow> u32 \<Rightarrow> 'f vfs \<Rightarrow> (int \<times> 'f vfs) result" where
  "file_open ops fd path flags s =
     rbind (get_fd fd s) (\<lambda>d. rbind (strcpy (fd_path d) path) (\<lambda>p.
     rbind (set_fd fd (\<lambda>d. d\<lparr>fd_path := p, fd_flags := flags, fd_fs := True\<rparr>) s) (op_open ops fd)))"

definition file_close :: "'f fs_ops \<Rightarrow> nat \<Rightarrow> 'f vfs \<Rightarrow> (int \<times> 'f vfs) result" where
  "file_close ops fd s = rbind (fd_ops fd s) (\<lambda>_. op_close ops fd s)"

definition file_read :: "'f fs_ops \<Rightarrow> nat \<Rightarrow> u32 \<Rightarrow> 'f vfs \<Rightarrow> (int \<times> u8 list \<times> 'f vfs) result" where
  "file_read ops fd len s = rbind (fd_ops fd s) (\<lambda>_. op_read ops fd len s)"

definition file_write :: "'f fs_ops \<Rightarrow> nat \<Rightarrow> u8 list \<Rightarrow> 'f vfs \<Rightarrow> (int \<times> 'f vfs) result" where
  "file_write ops fd bs s = rbind (fd_ops fd s) (\<lambda>_. op_write ops fd bs s)"

definition file_lseek :: "'f fs_ops \<Rightarrow> nat \<Rightarrow> u32 \<Rightarrow> 'f vfs \<Rightarrow> (int \<times> 'f vfs) result" where
  "file_lseek ops fd offset s = rbind (fd_ops fd s) (\<lambda>_. op_lseek ops fd offset s)"

definition file_unlink :: "'f fs_ops \<Rightarrow> u8 list \<Rightarrow> 'f vfs \<Rightarrow> (int \<times> 'f vfs) result" where
  "file_unlink ops path s = op_unlink ops path s"

definition file_ls :: "'f fs_ops \<Rightarrow> u8 list \<Rightarrow> 'f vfs \<Rightarrow> (int \<times> 'f vfs) result" where
  "file_ls ops path s = op_ls ops path s"

definition file_rm :: "'f fs_ops \<Rightarrow> u8 list \<Rightarrow> 'f vfs \<Rightarrow> (int \<times> 'f vfs) result" where
  "file_rm ops path s = op_rm ops path s"

definition file_touch :: "'f fs_ops \<Rightarrow> u8 list \<Rightarrow> 'f vfs \<Rightarrow> (int \<times> 'f vfs) result" where
  "file_touch ops path s = op_touch ops path s"

text \<open>\<open>fd_new\<close>: the first entry without references.\<close>

definition find_fd :: "fs_fd list \<Rightarrow> nat option" where
  "find_fd t = List.find (\<lambda>i. \<not> ref_count (t ! i) > 0) [0..<length t]"

definition fd_new :: "'f vfs \<Rightarrow> (int \<times> 'f vfs) result" where
  "fd_new s = (case find_fd (fd_table s) of None \<Rightarrow> Inr (-1, s)
     | Some i \<Rightarrow> rbind (set_fd i (ref_count_update (\<lambda>_. 1)) s) (\<lambda>s. Inr (int i, s)))"

text \<open>The range check lets \<open>FS_FD_MAX\<close> itself pass.\<close>

definition fd_get :: "int \<Rightarrow> 'f vfs \<Rightarrow> (nat option \<times> 'f vfs) result" where
  "fd_get fd s =
     (if fd < 0 \<or> fd > int FS_FD_MAX then Inr (None, s)
      else rbind (set_fd (nat fd) (\<lambda>d. d\<lparr>ref_count := ref_count d + 1\<rparr>) s) (\<lambda>s. Inr (Some (nat fd), s)))"

definition fd_put :: "('f, 'd) fatfs \<Rightarrow> nat \<Rightarrow> 'f vfs \<Rightarrow> 'f vfs result" where
  "fd_put F fd s =
     rbind (set_fd fd (\<lambda>d. d\<lparr>ref_count := ref_count d - 1\<rparr>) s) (\<lambda>s.
     rbind (get_fd fd s) (\<lambda>d.
     Inr (if ref_count d = 0 then s\<lparr>vfat := fil_clear F (fd_data d) (vfat s)\<rparr> else s)))"

section \<open>System calls (kernel/fs/fs_syscall.c)\<close>

text \<open>A null \<open>struct fs_fd *\<close> that is dereferenced.\<close>

definition the_fd :: "nat option \<Rightarrow> nat result" where
  "the_fd p = (case p of None \<Rightarrow> Inl Fault | Some i \<Rightarrow> Inr i)"

text \<open>\<open>sys_open\<close> returns no value (\<open>None\<close>) for an error it does not translate.\<close>

definition sys_open :: "('f, 'd) fatfs \<Rightarrow> 'f fs_ops \<Rightarrow> u8 list \<Rightarrow> u32 \<Rightarrow> 'f vfs \<Rightarrow> (int option \<times> 'f vfs) result" where
  "sys_open F ops file flags s =
     rbind (fd_new s) (\<lambda>(fd, s).
     if fd < 0 then Inr (Some (-1), s)
     else rbind (fd_get fd s) (\<lambda>(fsfd, s). rbind (the_fd fsfd) (\<lambda>i.
       rbind (file_open ops i file flags s) (\<lambda>(res, s).
       rbind (fd_put F i s) (\<lambda>s.
       Inr (if res < 0 then
              if res = - FR_NO_FILE then Some (- STATUS_ENOENT)
              else if res = - FR_EXIST then Some (- STATUS_EEXIST) else None
            else Some fd, s))))))"

definition sys_close :: "('f, 'd) fatfs \<Rightarrow> 'f fs_ops \<Rightarrow> int \<Rightarrow> 'f vfs \<Rightarrow> (int \<times> 'f vfs) result" where
  "sys_close F ops fd s =
     rbind (fd_get fd s) (\<lambda>(fsfd, s).
     case fsfd of None \<Rightarrow> Inr (- STATUS_EINVAL, s)
     | Some i \<Rightarrow> rbind (file_close ops i s) (\<lambda>(res, s).
         rbind (fd_put F i s) (\<lambda>s. rbind (fd_put F i s) (\<lambda>s. Inr (res, s)))))"

text \<open>\<open>buf\<close> tells whether the buffer pointer is not null.\<close>

definition sys_read :: "('f, 'd) fatfs \<Rightarrow> 'f fs_ops \<Rightarrow> int \<Rightarrow> bool \<Rightarrow> u32 \<Rightarrow> 'f vfs \<Rightarrow> (int \<times> u8 list \<times> 'f vfs) result" where
  "sys_read F ops fd buf len s =
     rbind (fd_get fd s) (\<lambda>(fsfd, s).
     case fsfd of None \<Rightarrow> Inr (- STATUS_EBADF, [], s)
     | Some i \<Rightarrow>
       if \<not> buf \<or> sint len < 0 then Inr (- STATUS_EINVAL, [], s)
       else rbind (file_read ops i len s) (\<lambda>(res, bs, s). rbind (fd_put F i s) (\<lambda>s. Inr (res, bs, s))))"

text \<open>\<open>buf\<close> holds the \<open>len\<close> bytes of the caller's buffer, \<open>None\<close> is the null pointer.\<close>

definition sys_write :: "('f, 'd) fatfs \<Rightarrow> 'f fs_ops \<Rightarrow> int \<Rightarrow> u8 list option \<Rightarrow> u32 \<Rightarrow> 'f vfs \<Rightarrow> (int \<times> 'f vfs) result" where
  "sys_write F ops fd buf len s =
     rbind (fd_get fd s) (\<lambda>(fsfd, s).
     case fsfd of None \<Rightarrow> Inr (- STATUS_EBADF, s)
     | Some i \<Rightarrow>
       (case buf of None \<Rightarrow> Inr (- STATUS_EINVAL, s)
        | Some bs \<Rightarrow>
          if sint len < 0 then Inr (- STATUS_EINVAL, s)
          else rbind (file_write ops i bs s) (\<lambda>(res, s). rbind (fd_put F i s) (\<lambda>s. Inr (res, s)))))"

definition sys_lseek :: "('f, 'd) fatfs \<Rightarrow> 'f fs_ops \<Rightarrow> int \<Rightarrow> u32 \<Rightarrow> int \<Rightarrow> 'f vfs \<Rightarrow> (int \<times> 'f vfs) result" where
  "sys_lseek F ops fd offset whence s =
     rbind (fd_get fd s) (\<lambda>(fsfd, s).
     case fsfd of None \<Rightarrow> Inr (- STATUS_EBADF, s)
     | Some i \<Rightarrow>
       if sint offset < 0 then Inr (- STATUS_EINVAL, s)
       else rbind (get_fd i s) (\<lambda>d.
         let newOffset = (if whence = SEEK_SET then offset else if whence = SEEK_CUR then fd_pos d + offset
                          else if whence = SEEK_END then fd_size d + offset else 0) in
         rbind (fd_put F i s) (\<lambda>s. file_lseek ops i newOffset s)))"

definition sys_unlink :: "'f fs_ops \<Rightarrow> u8 list \<Rightarrow> 'f vfs \<Rightarrow> (int \<times> 'f vfs) result" where
  "sys_unlink ops path s = rbind (file_unlink ops path s) (\<lambda>(res, s).
     Inr (if res = - FR_NO_FILE then - STATUS_ENOENT else res, s))"

definition sys_ls :: "'f fs_ops \<Rightarrow> u8 list \<Rightarrow> 'f vfs \<Rightarrow> (int \<times> 'f vfs) result" where
  "sys_ls ops path s = rbind (file_ls ops path s) (\<lambda>(res, s).
     Inr (if res = - FR_NO_PATH then - STATUS_ENOENT else res, s))"

definition sys_rm :: "'f fs_ops \<Rightarrow> u8 list \<Rightarrow> 'f vfs \<Rightarrow> (int \<times> 'f vfs) result" where
  "sys_rm ops path s = rbind (file_rm ops path s) (\<lambda>(res, s).
     Inr (if res = - FR_NO_FILE then - STATUS_ENOENT else res, s))"

definition sys_touch :: "'f fs_ops \<Rightarrow> u8 list \<Rightarrow> 'f vfs \<Rightarrow> (int \<times> 'f vfs) result" where
  "sys_touch ops path s = file_touch ops path s"

section \<open>The contract of the file operators\<close>

definition refs :: "'f vfs \<Rightarrow> int list" where
  "refs s = map ref_count (fd_table s)"

text \<open>The descriptor table after \<open>fs_init\<close>, apart from the reference counts.\<close>

definition table_ok :: "'f vfs \<Rightarrow> bool" where
  "table_ok s \<longleftrightarrow> length (fd_table s) = FS_FD_MAX \<and>
     (\<forall>i<FS_FD_MAX. fd_fs (fd_table s ! i) \<and> length (fd_path (fd_table s ! i)) = 64)"

text \<open>An operator on a descriptor of the table returns and keeps the table and the counts.\<close>

definition keeps_table :: "('f vfs \<Rightarrow> ('v \<times> 'f vfs) result) \<Rightarrow> bool" where
  "keeps_table f \<longleftrightarrow> (\<forall>s. table_ok s \<longrightarrow> (\<exists>r s'. f s = Inr (r, s') \<and> table_ok s' \<and> refs s' = refs s))"

locale file_operators =
  fixes ops :: "'f fs_ops" and F :: "('f, 'd) fatfs"
  assumes open_keeps: "i < FS_FD_MAX \<Longrightarrow> keeps_table (op_open ops i)"
    and close_keeps: "i < FS_FD_MAX \<Longrightarrow> keeps_table (op_close ops i)"
    and read_keeps: "i < FS_FD_MAX \<Longrightarrow> keeps_table (\<lambda>s. rbind (op_read ops i len s) (\<lambda>(r, bs, s). Inr ((r, bs), s)))"
    and write_keeps: "i < FS_FD_MAX \<Longrightarrow> keeps_table (op_write ops i bs)"
    and lseek_keeps: "i < FS_FD_MAX \<Longrightarrow> keeps_table (op_lseek ops i off)"

lemma keeps_tableD:
  assumes "keeps_table f" "table_ok s"
  obtains r s' where "f s = Inr (r, s')" "table_ok s'" "refs s' = refs s"
  using assms unfolding keeps_table_def by blast

text \<open>Changing a count, and what the counting functions do.\<close>

lemma set_ref:
  assumes "table_ok s" "i < FS_FD_MAX"
  obtains s' where "set_fd i (\<lambda>d. d\<lparr>ref_count := g d\<rparr>) s = Inr s'" "table_ok s'" "refs s' = (refs s)[i := g (fd_table s ! i)]"
    "vfat s' = vfat s" "fd_table s' ! i = (fd_table s ! i)\<lparr>ref_count := g (fd_table s ! i)\<rparr>"
proof -
  let ?s = "s\<lparr>fd_table := (fd_table s)[i := (fd_table s ! i)\<lparr>ref_count := g (fd_table s ! i)\<rparr>]\<rparr>"
  have "set_fd i (\<lambda>d. d\<lparr>ref_count := g d\<rparr>) s = Inr ?s"
    using assms by (simp add: set_fd_def get_fd_def table_ok_def)
  moreover have "table_ok ?s" using assms by (auto simp: table_ok_def nth_list_update)
  moreover have "refs ?s = (refs s)[i := g (fd_table s ! i)]" by (simp add: refs_def map_update)
  ultimately show thesis using that assms by (simp add: table_ok_def)
qed

lemma refs_nth: "table_ok s \<Longrightarrow> i < FS_FD_MAX \<Longrightarrow> refs s ! i = ref_count (fd_table s ! i)"
  by (simp add: refs_def table_ok_def)

lemma length_refs: "table_ok s \<Longrightarrow> length (refs s) = FS_FD_MAX"
  by (simp add: refs_def table_ok_def)

lemma fd_get_refs:
  assumes "table_ok s" "i < FS_FD_MAX"
  obtains s' where "fd_get (int i) s = Inr (Some i, s')" "table_ok s'" "refs s' = (refs s)[i := refs s ! i + 1]"
proof -
  obtain s' where "set_fd i (\<lambda>d. d\<lparr>ref_count := ref_count d + 1\<rparr>) s = Inr s'" "table_ok s'" "refs s' = (refs s)[i := ref_count (fd_table s ! i) + 1]"
    by (rule set_ref[OF assms, where g = "\<lambda>d. ref_count d + 1"])
  then show thesis using that assms by (simp add: fd_get_def refs_nth)
qed

lemma fd_put_refs:
  assumes "table_ok s" "i < FS_FD_MAX"
  obtains s' where "fd_put F i s = Inr s'" "table_ok s'" "refs s' = (refs s)[i := refs s ! i - 1]"
proof -
  obtain s1 where s1: "set_fd i (\<lambda>d. d\<lparr>ref_count := ref_count d - 1\<rparr>) s = Inr s1" "table_ok s1" "refs s1 = (refs s)[i := ref_count (fd_table s ! i) - 1]"
    by (rule set_ref[OF assms, where g = "\<lambda>d. ref_count d - 1"])
  let ?s = "if ref_count (fd_table s1 ! i) = 0 then s1\<lparr>vfat := fil_clear F (fd_data (fd_table s1 ! i)) (vfat s1)\<rparr> else s1"
  have "fd_put F i s = Inr ?s"
    using s1(1,2) assms(2) by (simp add: fd_put_def get_fd_def table_ok_def)
  moreover have "table_ok ?s" "refs ?s = refs s1" using s1(2) by (simp_all add: table_ok_def refs_def)
  ultimately show thesis using that s1(3) assms by (simp add: refs_nth)
qed

lemma strcpy_fits:
  "terminated src \<Longrightarrow> length (cstr src) < length dst \<Longrightarrow> \<exists>r. strcpy dst src = Inr r \<and> length r = length dst"
  by (induction dst src rule: strcpy.induct) (auto simp: rbind_Inr_iff)

definition path_fits :: "u8 list \<Rightarrow> bool" where
  "path_fits path \<longleftrightarrow> terminated path \<and> length (cstr path) < 64"

lemma file_open_prepare:
  assumes "table_ok s" "i < FS_FD_MAX" "path_fits path"
  obtains s' where "file_open ops i path flags s = op_open ops i s'" "table_ok s'" "refs s' = refs s"
proof -
  have pl: "length (fd_path (fd_table s ! i)) = 64" "i < length (fd_table s)" using assms by (auto simp: table_ok_def)
  obtain p where p: "strcpy (fd_path (fd_table s ! i)) path = Inr p" "length p = 64"
    using strcpy_fits[of path "fd_path (fd_table s ! i)"] assms(3) pl by (auto simp: path_fits_def)
  let ?s = "s\<lparr>fd_table := (fd_table s)[i := (fd_table s ! i)\<lparr>fd_path := p, fd_flags := flags, fd_fs := True\<rparr>]\<rparr>"
  have "file_open ops i path flags s = op_open ops i ?s"
    using p pl by (simp add: file_open_def get_fd_def set_fd_def)
  moreover have "table_ok ?s" using assms p by (auto simp: table_ok_def nth_list_update)
  moreover have "refs ?s = refs s" using pl(2) by (simp add: refs_def map_update list_update_same_conv)
  ultimately show thesis using that by blast
qed

section \<open>Sequences of file system calls\<close>

datatype file_call =
    Open "u8 list" u32
  | Close nat
  | Read nat bool u32
  | Write nat "u8 list option" u32
  | Seek nat u32 int

definition file_call_run :: "('f, 'd) fatfs \<Rightarrow> 'f fs_ops \<Rightarrow> file_call \<Rightarrow> 'f vfs \<Rightarrow> 'f vfs result" where
  "file_call_run F ops c s = (case c of
     Open path flags \<Rightarrow> rbind (sys_open F ops path flags s) (\<lambda>(_, s). Inr s)
   | Close fd \<Rightarrow> rbind (sys_close F ops (int fd) s) (\<lambda>(_, s). Inr s)
   | Read fd buf len \<Rightarrow> rbind (sys_read F ops (int fd) buf len s) (\<lambda>(_, _, s). Inr s)
   | Write fd bs len \<Rightarrow> rbind (sys_write F ops (int fd) bs len s) (\<lambda>(_, s). Inr s)
   | Seek fd off whence \<Rightarrow> rbind (sys_lseek F ops (int fd) off whence s) (\<lambda>(_, s). Inr s))"

text \<open>What a call does to the reference counts: an open takes the first entry without
  references, whether or not it succeeds; refused reads, writes and seeks leave one behind.\<close>

definition find_zero :: "int list \<Rightarrow> nat option" where
  "find_zero rs = List.find (\<lambda>i. \<not> rs ! i > 0) [0..<length rs]"

definition add_ref :: "nat \<Rightarrow> int \<Rightarrow> int list \<Rightarrow> int list" where
  "add_ref i k rs = rs[i := rs ! i + k]"

fun count_call :: "file_call \<Rightarrow> int list \<Rightarrow> int list" where
  "count_call (Open path flags) rs = (case find_zero rs of None \<Rightarrow> rs | Some i \<Rightarrow> rs[i := 1])"
| "count_call (Close fd) rs = add_ref fd (-1) rs"
| "count_call (Read fd buf len) rs = (if buf \<and> 0 \<le> sint len then rs else add_ref fd 1 rs)"
| "count_call (Write fd bs len) rs = (if bs \<noteq> None \<and> 0 \<le> sint len then rs else add_ref fd 1 rs)"
| "count_call (Seek fd off whence) rs = (if 0 \<le> sint off then rs else add_ref fd 1 rs)"

fun call_ok :: "file_call \<Rightarrow> bool" where
  "call_ok (Open path flags) \<longleftrightarrow> path_fits path"
| "call_ok (Close fd) \<longleftrightarrow> fd < FS_FD_MAX"
| "call_ok (Read fd buf len) \<longleftrightarrow> fd < FS_FD_MAX"
| "call_ok (Write fd bs len) \<longleftrightarrow> fd < FS_FD_MAX"
| "call_ok (Seek fd off whence) \<longleftrightarrow> fd < FS_FD_MAX"

fun file_calls :: "('f, 'd) fatfs \<Rightarrow> 'f fs_ops \<Rightarrow> file_call list \<Rightarrow> 'f vfs \<Rightarrow> 'f vfs result" where
  "file_calls F ops [] s = Inr s"
| "file_calls F ops (c # cs) s = rbind (file_call_run F ops c s) (file_calls F ops cs)"

lemma find_fd_refs: "table_ok s \<Longrightarrow> find_fd (fd_table s) = find_zero (refs s)"
  by (simp add: find_fd_def find_zero_def refs_def table_ok_def) (rule find_cong; simp)

lemma find_zeroD: "find_zero rs = Some i \<Longrightarrow> i < length rs \<and> \<not> rs ! i > 0"
  by (auto simp: find_zero_def find_Some_iff)

context file_operators
begin

lemma with_fd:
  assumes "table_ok s" "i < FS_FD_MAX" "keeps_table g"
  obtains s1 r s2 s3 where "fd_get (int i) s = Inr (Some i, s1)" "table_ok s1" "g s1 = Inr (r, s2)" "table_ok s2" "fd_put F i s2 = Inr s3"
    "table_ok s3" "refs s3 = refs s" "refs s1 = add_ref i 1 (refs s)"
proof -
  obtain s1 where s1: "fd_get (int i) s = Inr (Some i, s1)" "table_ok s1" "refs s1 = (refs s)[i := refs s ! i + 1]"
    using fd_get_refs[OF assms(1,2)] .
  obtain r s2 where s2: "g s1 = Inr (r, s2)" "table_ok s2" "refs s2 = refs s1"
    using keeps_tableD[OF assms(3) s1(2)] .
  obtain s3 where s3: "fd_put F i s2 = Inr s3" "table_ok s3" "refs s3 = (refs s2)[i := refs s2 ! i - 1]"
    using fd_put_refs[OF s2(2) assms(2)] .
  have "refs s3 = refs s" using s1(3) s2(3) s3(3) length_refs[OF assms(1)] assms(2) by simp
  then show thesis using that s1 s2 s3 by (simp add: add_ref_def)
qed

lemma open_counts:
  assumes "table_ok s" "path_fits path"
  obtains r s' where "sys_open F ops path flags s = Inr (r, s')" "table_ok s'" "refs s' = count_call (Open path flags) (refs s)"
    "find_zero (refs s) = None \<Longrightarrow> r = Some (-1) \<and> s' = s"
proof (cases "find_zero (refs s)")
  case None
  then show thesis using that[of "Some (-1)" s] assms(1) by (simp add: sys_open_def fd_new_def find_fd_refs)
next
  case (Some i)
  have i: "i < FS_FD_MAX" using find_zeroD[OF Some] length_refs[OF assms(1)] by simp
  obtain s0 where s0: "set_fd i (\<lambda>d. d\<lparr>ref_count := 1\<rparr>) s = Inr s0" "table_ok s0" "refs s0 = (refs s)[i := 1]"
    by (rule set_ref[OF assms(1) i, where g = "\<lambda>_. 1"])
  obtain s1 where s1: "fd_get (int i) s0 = Inr (Some i, s1)" "table_ok s1" "refs s1 = (refs s0)[i := refs s0 ! i + 1]"
    using fd_get_refs[OF s0(2) i] .
  obtain s2 where s2: "file_open ops i path flags s1 = op_open ops i s2" "table_ok s2" "refs s2 = refs s1"
    using file_open_prepare[OF s1(2) i assms(2)] .
  obtain r s3 where s3: "op_open ops i s2 = Inr (r, s3)" "table_ok s3" "refs s3 = refs s2"
    using keeps_tableD[OF open_keeps[OF i] s2(2)] .
  obtain s4 where s4: "fd_put F i s3 = Inr s4" "table_ok s4" "refs s4 = (refs s3)[i := refs s3 ! i - 1]"
    using fd_put_refs[OF s3(2) i] .
  have "refs s4 = (refs s)[i := 1]"
    using s0(3) s1(3) s2(3) s3(3) s4(3) length_refs[OF assms(1)] i by simp
  then show thesis
    using that[of _ s4] s0(1) s1(1) s2(1) s3(1) s4(1,2) Some find_fd_refs[OF assms(1)]
    by (simp add: sys_open_def fd_new_def the_fd_def)
qed

lemma close_counts:
  assumes "table_ok s" "i < FS_FD_MAX"
  obtains r s' where "sys_close F ops (int i) s = Inr (r, s')" "table_ok s'" "refs s' = count_call (Close i) (refs s)"
proof -
  obtain s1 r s2 s3 where w: "fd_get (int i) s = Inr (Some i, s1)" "table_ok s1" "op_close ops i s1 = Inr (r, s2)" "table_ok s2"
    "fd_put F i s2 = Inr s3" "table_ok s3" "refs s3 = refs s" "refs s1 = add_ref i 1 (refs s)"
    using with_fd[OF assms close_keeps[OF assms(2)]] .
  obtain s4 where s4: "fd_put F i s3 = Inr s4" "table_ok s4" "refs s4 = (refs s3)[i := refs s3 ! i - 1]"
    using fd_put_refs[OF w(6) assms(2)] .
  have "fd_ops i s1 = Inr ()" using w(2) assms(2) by (simp add: fd_ops_def get_fd_def table_ok_def)
  with w s4 show thesis using that[of r s4] by (simp add: sys_close_def file_close_def add_ref_def)
qed

lemma read_counts:
  assumes "table_ok s" "i < FS_FD_MAX"
  obtains r bs s' where "sys_read F ops (int i) buf len s = Inr (r, bs, s')" "table_ok s'" "refs s' = count_call (Read i buf len) (refs s)"
proof -
  obtain s1 r s2 s3 where w: "fd_get (int i) s = Inr (Some i, s1)" "table_ok s1"
    "rbind (op_read ops i len s1) (\<lambda>(r, bs, s). Inr ((r, bs), s)) = Inr (r, s2)" "table_ok s2"
    "fd_put F i s2 = Inr s3" "table_ok s3" "refs s3 = refs s" "refs s1 = add_ref i 1 (refs s)"
    using with_fd[OF assms read_keeps[OF assms(2), of len]] .
  have "fd_ops i s1 = Inr ()" using w(2) assms(2) by (simp add: fd_ops_def get_fd_def table_ok_def)
  moreover obtain a bs where "op_read ops i len s1 = Inr (a, bs, s2)" using w(3) by (auto simp: rbind_Inr_iff)
  ultimately show thesis
    using w that[of a bs s3] that[of "- STATUS_EINVAL" "[]" s1]
    by (cases "buf \<and> 0 \<le> sint len") (auto simp: sys_read_def file_read_def)
qed

lemma write_counts:
  assumes "table_ok s" "i < FS_FD_MAX"
  obtains r s' where "sys_write F ops (int i) bs len s = Inr (r, s')" "table_ok s'" "refs s' = count_call (Write i bs len) (refs s)"
proof -
  obtain s1 r s2 s3 where w: "fd_get (int i) s = Inr (Some i, s1)" "table_ok s1" "op_write ops i (the bs) s1 = Inr (r, s2)" "table_ok s2"
    "fd_put F i s2 = Inr s3" "table_ok s3" "refs s3 = refs s" "refs s1 = add_ref i 1 (refs s)"
    using with_fd[OF assms write_keeps[OF assms(2)]] .
  have "fd_ops i s1 = Inr ()" using w(2) assms(2) by (simp add: fd_ops_def get_fd_def table_ok_def)
  then show thesis
    using w that[of r s3] that[of "- STATUS_EINVAL" s1]
    by (cases bs; cases "0 \<le> sint len") (auto simp: sys_write_def file_write_def)
qed

lemma lseek_counts:
  assumes "table_ok s" "i < FS_FD_MAX"
  obtains r s' where "sys_lseek F ops (int i) off whence s = Inr (r, s')" "table_ok s'" "refs s' = count_call (Seek i off whence) (refs s)"
proof -
  obtain s1 where s1: "fd_get (int i) s = Inr (Some i, s1)" "table_ok s1" "refs s1 = (refs s)[i := refs s ! i + 1]"
    using fd_get_refs[OF assms] .
  obtain s2 where s2: "fd_put F i s1 = Inr s2" "table_ok s2" "refs s2 = (refs s1)[i := refs s1 ! i - 1]"
    using fd_put_refs[OF s1(2) assms(2)] .
  have g: "get_fd i s1 = Inr (fd_table s1 ! i)" "fd_ops i s2 = Inr ()"
    using s1(2) s2(2) assms(2) by (simp_all add: fd_ops_def get_fd_def table_ok_def)
  show thesis
  proof (cases "sint off < 0")
    case True
    then show thesis using that[of "- STATUS_EINVAL" s1] s1 by (simp add: sys_lseek_def add_ref_def)
  next
    case False
    let ?o = "if whence = SEEK_SET then off else if whence = SEEK_CUR then fd_pos (fd_table s1 ! i) + off
                          else if whence = SEEK_END then fd_size (fd_table s1 ! i) + off else 0"
    obtain r s3 where s3: "op_lseek ops i ?o s2 = Inr (r, s3)" "table_ok s3" "refs s3 = refs s2"
      using keeps_tableD[OF lseek_keeps[OF assms(2)] s2(2)] .
    have "sys_lseek F ops (int i) off whence s = Inr (r, s3)"
      using False s1(1) g s2(1) s3(1) by (simp add: sys_lseek_def Let_def file_lseek_def)
    then show thesis
      using that[of r s3] False s1(3) s2(3) s3 length_refs[OF assms(1)] assms(2) by simp
  qed
qed

lemma call_counts:
  assumes "table_ok s" "call_ok c"
  shows "\<exists>s1. file_call_run F ops c s = Inr s1 \<and> table_ok s1 \<and> refs s1 = count_call c (refs s)"
proof (cases c)
  case (Open p f)
  then obtain r s1 where "sys_open F ops p f s = Inr (r, s1)" "table_ok s1" "refs s1 = count_call c (refs s)"
    using open_counts[OF assms(1), of p f] assms(2) by (simp del: count_call.simps) blast
  with Open show ?thesis by (simp add: file_call_run_def del: count_call.simps)
next
  case (Close i)
  then obtain r s1 where "sys_close F ops (int i) s = Inr (r, s1)" "table_ok s1" "refs s1 = count_call c (refs s)"
    using close_counts[OF assms(1), of i] assms(2) by (simp del: count_call.simps) blast
  with Close show ?thesis by (simp add: file_call_run_def del: count_call.simps)
next
  case (Read i b l)
  then obtain r bs s1 where "sys_read F ops (int i) b l s = Inr (r, bs, s1)" "table_ok s1" "refs s1 = count_call c (refs s)"
    using read_counts[OF assms(1), of i b l] assms(2) by (simp del: count_call.simps) blast
  with Read show ?thesis by (simp add: file_call_run_def del: count_call.simps)
next
  case (Write i b l)
  then obtain r s1 where "sys_write F ops (int i) b l s = Inr (r, s1)" "table_ok s1" "refs s1 = count_call c (refs s)"
    using write_counts[OF assms(1), of i b l] assms(2) by (simp del: count_call.simps) blast
  with Write show ?thesis by (simp add: file_call_run_def del: count_call.simps)
next
  case (Seek i b l)
  then obtain r s1 where "sys_lseek F ops (int i) b l s = Inr (r, s1)" "table_ok s1" "refs s1 = count_call c (refs s)"
    using lseek_counts[OF assms(1), of i b l] assms(2) by (simp del: count_call.simps) blast
  with Seek show ?thesis by (simp add: file_call_run_def del: count_call.simps)
qed

lemma file_calls_count:
  assumes "table_ok s" "list_all call_ok cs"
  shows "\<exists>s'. file_calls F ops cs s = Inr s' \<and> table_ok s' \<and> refs s' = fold count_call cs (refs s)"
  using assms
proof (induction cs arbitrary: s)
  case (Cons c cs)
  have "\<exists>s1. file_call_run F ops c s = Inr s1 \<and> table_ok s1 \<and> refs s1 = count_call c (refs s)"
    using call_counts[OF Cons.prems(1)] Cons.prems(2) by simp
  then obtain s1 where "file_call_run F ops c s = Inr s1" "table_ok s1" "refs s1 = count_call c (refs s)" by blast
  with Cons.IH[of s1] Cons.prems(2) show ?case by auto
qed simp

end

text \<open>The FAT operators meet the contract whatever the FatFs module answers.\<close>

interpretation elmfat: file_operators "elmfat_ops F n" F
proof
  note defs = elmfat_ops_def keeps_table_def get_fd_def set_fd_def Let_def split_beta
  have same: "refs (s\<lparr>fd_table := (fd_table s)[i := d]\<rparr>) = refs s" "table_ok (s\<lparr>fd_table := (fd_table s)[i := d]\<rparr>)"
    if "table_ok s" "i < FS_FD_MAX" "ref_count d = ref_count (fd_table s ! i)" "fd_fs d" "length (fd_path d) = 64"
    for s :: "'f vfs" and i d
    using that by (auto simp: refs_def table_ok_def nth_list_update map_update list_update_same_conv)
  have f: "refs (s\<lparr>vfat := x\<rparr>) = refs s" "table_ok (s\<lparr>vfat := x\<rparr>) = table_ok s" for s :: "'f vfs" and x
    by (simp_all add: refs_def table_ok_def)
  have both: "refs (s\<lparr>vfat := x, fd_table := (fd_table s)[i := d]\<rparr>) = refs s"
      "table_ok (s\<lparr>vfat := x, fd_table := (fd_table s)[i := d]\<rparr>)"
      "refs (s\<lparr>fd_table := (fd_table s)[i := d], vfat := x\<rparr>) = refs s"
      "table_ok (s\<lparr>fd_table := (fd_table s)[i := d], vfat := x\<rparr>)"
    if "table_ok s" "i < FS_FD_MAX" "ref_count d = ref_count (fd_table s ! i)" "fd_fs d" "length (fd_path d) = 64"
    for s :: "'f vfs" and i d x
    using same[OF that] by (simp_all add: f refs_def table_ok_def)
  fix i len bs off
  assume i: "i < FS_FD_MAX"
  have at: "i < length (fd_table s)" "fd_fs (fd_table s ! i)" "length (fd_path (fd_table s ! i)) = 64" if "table_ok s" for s :: "'f vfs"
    using that i by (simp_all add: table_ok_def)
  show "keeps_table (op_close (elmfat_ops F n) i)" "keeps_table (op_lseek (elmfat_ops F n) i off)"
    by (auto simp: defs fat_close_def fat_lseek_def f at)
  show "keeps_table (\<lambda>s. rbind (op_read (elmfat_ops F n) i len s) (\<lambda>(r, bs, s). Inr ((r, bs), s)))"
    by (auto simp: defs fat_read_def f at)
  show "keeps_table (op_write (elmfat_ops F n) i bs)"
    by (auto simp: defs fat_write_def f at both i)
  show "keeps_table (op_open (elmfat_ops F n) i)"
    by (auto simp: defs fat_open_def f at both same i)
qed

section \<open>The file system from its initialisation on\<close>

text \<open>The static table before \<open>fs_init\<close>.\<close>

definition table_raw :: "'f vfs \<Rightarrow> bool" where
  "table_raw s \<longleftrightarrow> length (fd_table s) = FS_FD_MAX \<and> list_all (\<lambda>d. length (fd_path d) = 64) (fd_table s)"

lemma fd_reset_all:
  assumes "table_raw s"
  obtains s' where "kfor 0 FS_FD_MAX fd_reset s = Inr s'" "table_ok s'" "refs s' = replicate FS_FD_MAX 0"
proof -
  let ?I = "\<lambda>j s. table_raw s \<and> (\<forall>i<j. fd_fs (fd_table s ! i) \<and> ref_count (fd_table s ! i) = 0)"
  have "\<exists>s'. kfor 0 FS_FD_MAX fd_reset s = Inr s' \<and> ?I (0 + FS_FD_MAX) s'"
  proof (rule kfor_inv[where P = ?I])
    show "?I 0 s" using assms by simp
  next
    fix i s assume "0 \<le> i" "i < 0 + FS_FD_MAX" "?I i s"
    then show "\<exists>s'. fd_reset i s = Inr s' \<and> ?I (Suc i) s'"
      by (auto simp: fd_reset_def set_fd_def get_fd_def table_raw_def nth_list_update less_Suc_eq list_all_length)
  qed
  then obtain s' where s': "kfor 0 FS_FD_MAX fd_reset s = Inr s'" "?I FS_FD_MAX s'" by auto
  then have "table_ok s'" by (simp add: table_ok_def table_raw_def list_all_length)
  moreover have "refs s' = replicate FS_FD_MAX 0"
    using s'(2) by (intro nth_equalityI) (simp_all add: refs_def table_raw_def)
  ultimately show thesis using that s'(1) by blast
qed

lemma fs_mount_keeps:
  "table_ok s \<Longrightarrow> \<exists>r s'. fs_mount (elmfat_ops F n) (ascii ''elmfat'') s = Inr (r, s') \<and> table_ok s' \<and> refs s' = refs s"
proof -
  have "strcmp (ascii ''elmfat'') (ascii ''elmfat'') = Inr 0" by code_simp
  then show "table_ok s \<Longrightarrow> ?thesis"
    by (auto simp: fs_mount_def elmfat_ops_def fat_mount_def split_beta Let_def table_ok_def refs_def)
qed

lemma fs_init_ready:
  assumes "table_raw s"
  obtains r s' where "fs_init (elmfat_ops F n) s = Inr (r, s')" "table_ok s'" "refs s' = replicate FS_FD_MAX 0"
proof -
  obtain s0 where s0: "kfor 0 FS_FD_MAX fd_reset s = Inr s0" "table_ok s0" "refs s0 = replicate FS_FD_MAX 0"
    using fd_reset_all[OF assms] .
  obtain r s1 where s1: "fs_mount (elmfat_ops F n) (ascii ''elmfat'') s0 = Inr (r, s1)" "table_ok s1" "refs s1 = refs s0"
    using fs_mount_keeps[OF s0(2)] by blast
  obtain r2 s2 where s2: "op_mkfs (elmfat_ops F n) s1 = Inr (r2, s2)" "table_ok s2" "refs s2 = refs s1"
    using s1(2) by (auto simp: elmfat_ops_def fat_mkfs_def split_beta Let_def table_ok_def refs_def)
  obtain r3 s3 where s3: "fs_mount (elmfat_ops F n) (ascii ''elmfat'') s2 = Inr (r3, s3)" "table_ok s3" "refs s3 = refs s2"
    using fs_mount_keeps[OF s2(2)] by blast
  have "fs_init (elmfat_ops F n) s = (if r \<noteq> 0 then Inr (r3, s3) else Inr (- STATUS_EIO, s1))"
    by (simp add: fs_init_def s0(1) s1(1) s2(1) s3(1))
  then have "r \<noteq> 0 \<Longrightarrow> fs_init (elmfat_ops F n) s = Inr (r3, s3)" "r = 0 \<Longrightarrow> fs_init (elmfat_ops F n) s = Inr (- STATUS_EIO, s1)"
    by presburger+
  moreover have "refs s1 = replicate FS_FD_MAX 0" "refs s3 = replicate FS_FD_MAX 0"
    unfolding s3(3) s2(3) s1(3) s0(3) by (rule refl)+
  ultimately show thesis using that s1(2) s3(2) by blast
qed

text \<open>Opens in a row, with what they return.\<close>

fun open_each :: "('f, 'd) fatfs \<Rightarrow> 'f fs_ops \<Rightarrow> u32 \<Rightarrow> u8 list list \<Rightarrow> 'f vfs \<Rightarrow> (int option list \<times> 'f vfs) result" where
  "open_each F ops flags [] s = Inr ([], s)"
| "open_each F ops flags (p # ps) s = rbind (sys_open F ops p flags s) (\<lambda>(r, s).
     rbind (open_each F ops flags ps s) (\<lambda>(rs, s). Inr (r # rs, s)))"

lemma find_zero_split: "find_zero (replicate k 1 @ 0 # rs) = Some k"
proof -
  have "List.find (\<lambda>i. \<not> (replicate k 1 @ 0 # rs) ! i > (0 :: int)) [0..<length (replicate k (1 :: int) @ 0 # rs)] = Some k"
    by (auto simp: find_Some_iff nth_append intro!: exI[of _ k])
  then show ?thesis by (simp add: find_zero_def)
qed

lemma find_zero_full: "find_zero (replicate k 1) = None"
  by (simp add: find_zero_def find_None_iff)

text \<open>An open of a file that is not there takes a descriptor and returns \<open>-ENOENT\<close>.\<close>

lemma open_no_file:
  assumes "\<And>d p m f. fst (f_open F d p m f) = FR_NO_FILE" "table_ok s" "path_fits path" "find_zero (refs s) = Some i"
  obtains s' where "sys_open F (elmfat_ops F n) path flags s = Inr (Some (- STATUS_ENOENT), s')" "table_ok s'"
    "refs s' = (refs s)[i := 1]"
proof -
  obtain r s' where o: "sys_open F (elmfat_ops F n) path flags s = Inr (r, s')" "table_ok s'" "refs s' = (refs s)[i := 1]"
    using elmfat.open_counts[OF assms(2,3), of F n flags] assms(4) by auto
  have "r = Some (- STATUS_ENOENT)"
    using o(1) assms(1,4) find_fd_refs[OF assms(2)]
    by (auto simp: sys_open_def fd_new_def rbind_Inr_iff file_open_def elmfat_ops_def fat_open_def split_beta Let_def
        FR_NO_FILE_def)
  with o show thesis using that by simp
qed

lemma open_each_fails:
  assumes "\<And>d p m f. fst (f_open F d p m f) = FR_NO_FILE" "table_ok s" "list_all path_fits ps"
    "refs s = replicate k 1 @ replicate (length ps) 0"
  shows "\<exists>s'. open_each F (elmfat_ops F n) flags ps s = Inr (replicate (length ps) (Some (- STATUS_ENOENT)), s') \<and>
     table_ok s' \<and> refs s' = replicate (k + length ps) 1"
  using assms(2-)
proof (induction ps arbitrary: s k)
  case (Cons p ps)
  have z: "find_zero (refs s) = Some k" using Cons.prems(3) find_zero_split by simp
  obtain s1 where s1: "sys_open F (elmfat_ops F n) p flags s = Inr (Some (- STATUS_ENOENT), s1)" "table_ok s1"
    "refs s1 = (refs s)[k := 1]"
    by (rule open_no_file[OF assms(1) Cons.prems(1) _ z]) (use Cons.prems(2) in auto)
  have "refs s1 = replicate (Suc k) 1 @ replicate (length ps) 0"
    using s1(3) Cons.prems(3) by (simp add: list_update_append replicate_app_Cons_same)
  from Cons.IH[OF s1(2) _ this] Cons.prems(2) s1(1) show ?case by auto
qed simp

text \<open>A volume with nothing on it, and a table as the loader leaves it.\<close>

definition no_info :: FILINFO where
  "no_info = \<lparr>fi_fsize = 0, fi_fdate = 0, fi_ftime = 0, fi_fattrib = 0, fi_fname = [0]\<rparr>"

definition empty_volume :: "(unit, unit) fatfs" where
  "empty_volume = \<lparr>f_mount = \<lambda>_ _ s. (FR_OK, s), f_mkfs = \<lambda>_ s. (FR_OK, s), f_open = \<lambda>_ _ _ s. (FR_NO_FILE, s),
     f_close = \<lambda>_ s. (FR_OK, s), f_read = \<lambda>_ _ s. (FR_OK, [], s), f_write = \<lambda>_ _ s. (FR_OK, 0, s),
     f_lseek = \<lambda>_ _ s. (FR_OK, s), f_unlink = \<lambda>_ s. (FR_NO_FILE, s), f_stat = \<lambda>_ s. (FR_NO_FILE, no_info, s),
     f_opendir = \<lambda>_ s. (FR_OK, (), s), f_readdir = \<lambda>_ s. (FR_OK, no_info, (), s), f_closedir = \<lambda>_ s. (FR_OK, s),
     fil_objsize = \<lambda>_ _. 0, fil_clear = \<lambda>_ s. s\<rparr>"

definition raw_vfs :: "unit vfs" where
  "raw_vfs = \<lparr>fd_table = replicate 10 \<lparr>fd_path = replicate 64 0, fd_type = 0, ref_count = 0, fd_fs = True,
     fd_flags = 0, fd_size = 0, fd_pos = 0, fd_data = FileObj 0\<rparr>, fat_path = ascii ''/'', vcon = blank_console, vfat = ()\<rparr>"

lemma raw_vfs_ok: "table_raw raw_vfs" "table_ok raw_vfs" "refs raw_vfs = replicate FS_FD_MAX 0"
  by (simp_all add: raw_vfs_def table_raw_def table_ok_def refs_def FS_FD_MAX_def list_all_length)

lemma path_fits_a: "path_fits (ascii ''/a'')"
  by code_simp

section \<open>Theorems\<close>

text \<open>C31. Once \<open>fs_init\<close> has run, and whatever the FatFs module answers, every sequence of opens,
  closes, reads, writes and seeks on descriptors below \<open>FS_FD_MAX\<close> and with paths of less than 64
  bytes returns, keeps the descriptor table well-formed, and changes the reference counts as the
  counter machine \<open>count_call\<close> does: an open takes the first free descriptor, a close releases
  one reference, an accepted read, write or seek leaves the counts as they were.\<close>

theorem file_calls_counts:
  assumes "table_raw s" "list_all call_ok cs"
  shows "\<exists>r s0 s'. fs_init (elmfat_ops F n) s = Inr (r, s0) \<and> file_calls F (elmfat_ops F n) cs s0 = Inr s' \<and>
     table_ok s' \<and> refs s' = fold count_call cs (replicate FS_FD_MAX 0)"
proof -
  obtain r s0 where "fs_init (elmfat_ops F n) s = Inr (r, s0)" "table_ok s0" "refs s0 = replicate FS_FD_MAX 0"
    using fs_init_ready[OF assms(1)] .
  with elmfat.file_calls_count[OF _ assms(2), of s0 F n] show ?thesis by auto
qed

theorem file_calls_counts_witness:
  "\<exists>r s0 s'. fs_init (elmfat_ops empty_volume 0) raw_vfs = Inr (r, s0) \<and>
     file_calls empty_volume (elmfat_ops empty_volume 0)
       [Open (ascii ''/a'') 0, Open (ascii ''/a'') 0, Read 1 True 5, Read 1 False 5, Close 0] s0 = Inr s' \<and>
     refs s' = [0, 2, 0, 0, 0, 0, 0, 0, 0, 0]"
proof -
  have "fold count_call [Open (ascii ''/a'') 0, Open (ascii ''/a'') 0, Read 1 True 5, Read 1 False 5, Close 0] (replicate FS_FD_MAX 0)
     = [0, 2, 0, 0, 0, 0, 0, 0, 0, 0]"
    by code_simp
  then show ?thesis
    using file_calls_counts[OF raw_vfs_ok(1), of "[Open (ascii ''/a'') 0, Open (ascii ''/a'') 0, Read 1 True 5, Read 1 False 5, Close 0]" empty_volume 0]
    by (simp add: path_fits_a FS_FD_MAX_def) blast
qed



end
