(* ===== verification/Kernel_Types.thy ===== *)
theory Kernel_Types
  imports Task_Memory Vfs
begin

text \<open>
  What every operation on memory and tasks keeps, whatever its arguments and whatever the state it
  starts from: the memory operations touch only the memory part of the state, and the arrays of
  tasks, processors and run queues keep their sizes and hold only indices of tasks.
\<close>

section \<open>Memory operations\<close>

lemma frame_step: "mem_frame s t \<Longrightarrow> mem_frame s (write_pte p v t)" "mem_frame s t \<Longrightarrow> mem_frame s (tlb_invalidate va t)"
  using mem_frame_trans mem_frame_write_pte mem_frame_tlb_invalidate by blast+

lemma lock_pages_frame: "lock_pages s = Inr s' \<Longrightarrow> mem_frame s s'"
  by (auto simp: lock_pages_def rbind_Inr_iff mem_frame_def)

lemma unlock_pages_frame: "unlock_pages s = Inr s' \<Longrightarrow> mem_frame s s'"
  by (auto simp: unlock_pages_def rbind_Inr_iff mem_frame_def)

lemma set_page_frame: "set_page i l r s = Inr s' \<Longrightarrow> mem_frame s s'"
  by (auto simp: set_page_def rbind_Inr_iff mem_frame_def)

lemma page_incref_frame: "page_incref p s = Inr s' \<Longrightarrow> mem_frame s s'"
  by (auto simp: page_incref_def rbind_Inr_iff dest: set_page_frame)

lemma frame_update:
  "mem_frame s t \<Longrightarrow> mem_frame s (t\<lparr>page_free_list := x\<rparr>)" "mem_frame s t \<Longrightarrow> mem_frame s (t\<lparr>num_free_pages := n\<rparr>)"
  "mem_frame s t \<Longrightarrow> mem_frame s (fill_frame f c t)"
  by (rule mem_frame_trans, assumption, simp add: mem_frame_def fill_frame_def)+

lemma page_alloc_frame: "page_alloc fl s = Inr (r, s') \<Longrightarrow> mem_frame s s'"
proof -
  assume h: "page_alloc fl s = Inr (r, s')"
  then obtain s1 where s1: "lock_pages s = Inr s1" by (auto simp: page_alloc_def rbind_Inr_iff)
  show "mem_frame s s'"
  proof (cases "page_free_list s1")
    case None
    with h s1 have "unlock_pages s1 = Inr s'" by (auto simp: page_alloc_def rbind_Inr_iff)
    with s1 show ?thesis using lock_pages_frame unlock_pages_frame mem_frame_trans by blast
  next
    case (Some p)
    with h s1 obtain i :: PageInfo and s2 s3 where a: "set_page p None (pp_ref i) s2 = Inr s3" "unlock_pages (s3\<lparr>num_free_pages := num_free_pages s3 - 1\<rparr>) = Inr s'"
      "(if fl AND ALLOC_ZERO \<noteq> 0 then rbind (page2kva p (s1\<lparr>page_free_list := pp_link i\<rparr>)) (\<lambda>kva. Inr (fill_frame kva 0 (s1\<lparr>page_free_list := pp_link i\<rparr>)))
        else Inr (s1\<lparr>page_free_list := pp_link i\<rparr>)) = Inr s2"
      unfolding page_alloc_def Let_def by (simp add: rbind_Inr_iff) blast
    have "mem_frame s1 s2" using a(3) by (auto simp: rbind_Inr_iff split: if_splits intro!: frame_update)
    with lock_pages_frame[OF s1] have "mem_frame s s2" by (rule mem_frame_trans)
    also have "mem_frame s2 s3" using a(1) by (rule set_page_frame)
    also have "mem_frame s3 (s3\<lparr>num_free_pages := num_free_pages s3 - 1\<rparr>)" by (intro frame_update mem_frame_refl)
    also have "mem_frame \<dots> s'" using a(2) by (rule unlock_pages_frame)
    finally show ?thesis .
  qed
qed

lemma page_free_frame: "page_free p s = Inr s' \<Longrightarrow> mem_frame s s'"
  by (auto simp: page_free_def lock_pages_def unlock_pages_def set_page_def rbind_Inr_iff mem_frame_def)

lemma page_decref_frame: "page_decref p s = Inr s' \<Longrightarrow> mem_frame s s'"
  by (auto simp: page_decref_def rbind_Inr_iff split: if_splits
      dest!: set_page_frame page_free_frame intro: mem_frame_trans)

lemma pgdir_walk_frame: "pgdir_walk d va c s = Inr (r, s') \<Longrightarrow> mem_frame s s'"
  by (auto simp: pgdir_walk_def rbind_Inr_iff Let_def split: if_splits option.splits
      dest!: page_alloc_frame page_incref_frame intro!: frame_step intro: mem_frame_trans)

lemma boot_map_region_frame: "boot_map_region d va sz pa perm s = Inr s' \<Longrightarrow> mem_frame s s'"
proof (induction d va sz pa perm s rule: boot_map_region.induct)
  case (1 d va sz pa perm s)
  show ?case
  proof (cases "PGSIZE \<le> sz")
    case False
    with "1.prems" show ?thesis by (simp add: boot_map_region.simps[of d va sz])
  next
    case True
    with "1.prems" obtain e s1 where w: "pgdir_walk d va True s = Inr (Some e, s1)"
      "boot_map_region d (va + PGSIZE) (sz - PGSIZE) (pa + PGSIZE) perm (write_pte e (pa OR perm OR PTE_P) s1) = Inr s'"
      by (subst (asm) boot_map_region.simps) (auto simp: rbind_Inr_iff split: option.splits)
    from "1.IH"[OF True w(1) refl refl w(2)] show ?thesis
      using mem_frame_trans[OF pgdir_walk_frame[OF w(1)] mem_frame_trans[OF mem_frame_write_pte]] by blast
  qed
qed

lemma page_remove_frame: "page_remove d va s = Inr s' \<Longrightarrow> mem_frame s s'"
  by (auto simp: page_remove_def rbind_Inr_iff split: option.splits dest!: page_decref_frame
      intro!: frame_step intro: mem_frame_trans)

lemma page_insert_frame: "page_insert d p va perm s = Inr (r, s') \<Longrightarrow> mem_frame s s'"
  by (auto simp: page_insert_def rbind_Inr_iff split: option.splits if_splits
      dest!: pgdir_walk_frame page_incref_frame page_remove_frame
      intro!: frame_step intro: mem_frame_trans)

lemma kfor_keeps:
  assumes "\<And>i s s'. body i s = Inr s' \<Longrightarrow> R s s'" "\<And>s. R s s" "\<And>s t u. R s t \<Longrightarrow> R t u \<Longrightarrow> R s u"
  shows "kfor lo n body s = Inr s' \<Longrightarrow> R s s'"
proof (induction n arbitrary: lo s)
  case (Suc n)
  then show ?case using assms(1,3) by (force simp: rbind_Inr_iff)
qed (use assms(2) in simp)

lemma remove_seq_keeps:
  assumes "\<And>i s s'. f i s = Inr s' \<Longrightarrow> R s s'" "\<And>s. R s s" "\<And>s t u. R s t \<Longrightarrow> R t u \<Longrightarrow> R s u"
  shows "remove_seq f xs s = Inr s' \<Longrightarrow> R s s'"
proof (induction xs arbitrary: s)
  case (Cons x xs)
  then show ?case using assms(1,3) by (force simp: rbind_Inr_iff)
qed (use assms(2) in simp)

lemma ptable_remove_frame: "ptable_remove d s = Inr s' \<Longrightarrow> mem_frame s s'"
  unfolding ptable_remove_def
  by (erule kfor_keeps[rotated 3])
    (auto simp: ptable_remove_step_def rbind_Inr_iff split: if_splits dest: page_decref_frame intro: mem_frame_trans)

lemma pgdir_remove_frame: "pgdir_remove d s = Inr s' \<Longrightarrow> mem_frame s s'"
  by (auto simp: pgdir_remove_def rbind_Inr_iff dest: page_free_frame)

lemma setupvm_frame: "setupvm d a n s = Inr s' \<Longrightarrow> mem_frame s s'"
  by (auto simp: setupvm_def rbind_Inr_iff dest: boot_map_region_frame)

lemma map_kstack_frame: "map_kstack img d i s = Inr s' \<Longrightarrow> mem_frame s s'"
  by (auto simp: map_kstack_def rbind_Inr_iff Let_def dest: boot_map_region_frame)

lemma setupkvm_frame: "setupkvm img s = Inr (r, s') \<Longrightarrow> mem_frame s s'"
proof -
  have k: "kfor 0 NCPU (map_kstack img d) s = Inr s' \<Longrightarrow> mem_frame s s'" for d and s s' :: "'a mem_state_scheme"
    by (erule kfor_keeps[rotated 3]) (auto dest: map_kstack_frame intro: mem_frame_trans)
  show "setupkvm img s = Inr (r, s') \<Longrightarrow> mem_frame s s'"
    by (auto simp: setupkvm_def rbind_Inr_iff split: option.splits dest!: page_alloc_frame boot_map_region_frame k)
      (meson mem_frame_trans)+
qed

lemma alloc_ustack_frame: "alloc_ustack d n va s = Inr (r, s') \<Longrightarrow> mem_frame s s'"
proof (induction n arbitrary: va s)
  case (Suc n)
  then show ?case
    by (auto simp: rbind_Inr_iff split: option.splits if_splits dest!: page_alloc_frame page_insert_frame)
      (meson mem_frame_trans)+
qed simp

lemma setup_user_frame: "setup_user u d s = Inr s' \<Longrightarrow> mem_frame s s'"
  by (auto simp: setup_user_def rbind_Inr_iff dest!: setupvm_frame) (meson mem_frame_trans)

lemma copy_stack_page_frame: "copy_stack_page a b va s = Inr s' \<Longrightarrow> mem_frame s s'"
  by (auto simp: copy_stack_page_def rbind_Inr_iff mem_frame_def)

section \<open>The arrays of the task state\<close>

definition cpu_typed :: "CpuInfo \<Rightarrow> bool" where
  "cpu_typed c \<longleftrightarrow> length (rq (cpu_rq c)) = NR_TASKS \<and> unat (cnt (cpu_rq c)) \<le> NR_TASKS \<and>
     (\<forall>t. Some t \<in> set (rq (cpu_rq c)) \<longrightarrow> t < NR_TASKS) \<and> (\<forall>t. cpu_task c = Some t \<longrightarrow> t < NR_TASKS)"

definition task_typed :: "'a task_state_scheme \<Rightarrow> bool" where
  "task_typed s \<longleftrightarrow> length (tasks s) = NR_TASKS \<and> length (cpus s) = NCPU \<and> length (gdt s) = 5 + NCPU \<and>
     (\<forall>c\<in>set (cpus s). cpu_typed c)"

text \<open>What every operation on tasks keeps; extensions of the state are not touched at all.\<close>

definition task_frame :: "'a task_state_scheme \<Rightarrow> 'a task_state_scheme \<Rightarrow> bool" where
  "task_frame s s' \<longleftrightarrow> (task_typed s \<longrightarrow> task_typed s') \<and> hw_cpu s' = hw_cpu s \<and> hw_frames s' = hw_frames s \<and>
     task_state.more s' = task_state.more s"

lemma task_frame_refl [simp]: "task_frame s s"
  by (simp add: task_frame_def)

lemma task_frame_trans [trans]: "task_frame s t \<Longrightarrow> task_frame t u \<Longrightarrow> task_frame s u"
  by (simp add: task_frame_def)

lemma mem_task_frame: "mem_frame s s' \<Longrightarrow> task_frame s s'"
proof -
  assume f: "mem_frame s s'"
  have "task_state.more s' = task_state.more s"
    using mem_frameD(9)[OF f] by (cases s; cases s') simp
  then show "task_frame s s'"
    using task_frameD[OF f] mem_frameD(7,8)[OF f] by (simp add: task_frame_def task_typed_def)
qed

lemma set_task_frame: "set_task i f s = Inr s' \<Longrightarrow> task_frame s s'"
  by (auto simp: set_task_def rbind_Inr_iff task_frame_def task_typed_def)

lemma set_cpu_frame:
  "set_cpu i f s = Inr s' \<Longrightarrow> (\<And>c. cpu_typed c \<Longrightarrow> c \<in> set (cpus s) \<Longrightarrow> task_typed s \<Longrightarrow> cpu_typed (f c)) \<Longrightarrow> task_frame s s'"
  by (auto simp: set_cpu_def rbind_Inr_iff task_frame_def task_typed_def aget_Inr_iff dest!: set_update_subset_insert[THEN subsetD])

lemma lcr3_frame: "task_frame s (lcr3 v s)"
  by (simp add: task_frame_def lcr3_def task_typed_def)

lemma lock_tasks_frame: "lock_tasks s = Inr s' \<Longrightarrow> task_frame s s'"
  by (auto simp: lock_tasks_def rbind_Inr_iff task_frame_def task_typed_def)

lemma unlock_tasks_frame: "unlock_tasks s = Inr s' \<Longrightarrow> task_frame s s'"
  by (auto simp: unlock_tasks_def rbind_Inr_iff task_frame_def task_typed_def)

lemma task_create_frame: "task_create img s = Inr (r, s') \<Longrightarrow> task_frame s s'"
  unfolding task_create_def
  by (auto simp: rbind_Inr_iff split: option.splits if_splits
      dest!: lock_tasks_frame unlock_tasks_frame set_task_frame setupkvm_frame[THEN mem_task_frame]
        alloc_ustack_frame[THEN mem_task_frame])
    (meson task_frame_trans)+

lemma task_free_frame: "task_free pid s = Inr s' \<Longrightarrow> task_frame s s'"
proof -
  have r: "remove_seq (page_remove d) xs s = Inr s' \<Longrightarrow> task_frame s s'" for d xs and s s' :: "'a task_state_scheme"
    by (rule mem_task_frame, erule remove_seq_keeps[rotated 3]) (auto dest: page_remove_frame intro: mem_frame_trans)
  show "task_free pid s = Inr s' \<Longrightarrow> task_frame s s'"
    using lcr3_frame[of s "page2pa (kern_pgdir s)"]
    by (auto simp: task_free_def rbind_Inr_iff Let_def
        dest!: r ptable_remove_frame[THEN mem_task_frame] pgdir_remove_frame[THEN mem_task_frame])
      (meson task_frame_trans)
qed

text \<open>The task a typed processor runs, and the tasks of its queue, are indices of tasks.\<close>

lemma cpu_typed_rq: "cpu_typed c \<Longrightarrow> aget (rq (cpu_rq c)) i = Inr (Some t) \<Longrightarrow> t < NR_TASKS"
  by (auto simp: cpu_typed_def aget_Inr_iff) (metis nth_mem)

lemma sched_yield_frame: "sched_yield s = Inr f \<Longrightarrow> task_frame s (flow_state f)"
proof -
  assume "sched_yield s = Inr f"
  then obtain c i p s1 t s2 g v where c: "thiscpu s = Inr c" "aget (rq (cpu_rq c)) i = Inr p"
    "set_cpu (hw_cpu s) (cpu_task_update (\<lambda>_. p)) s = Inr s1" "p = Some t"
    "set_task t (\<lambda>T. T\<lparr>state := TASK_RUNNING, remind_ticks := TIME_QUANT\<rparr>) s1 = Inr s2" "f = Resume g (lcr3 v s2)"
    by (auto simp: sched_yield_def rbind_Inr_iff nonnull_def split: option.splits)
  have "task_frame s s1"
  proof (rule set_cpu_frame[OF c(3)])
    fix c' assume "cpu_typed c'" "c' \<in> set (cpus s)" "task_typed s"
    moreover have "cpu_typed c" using \<open>task_typed s\<close> c(1) by (auto simp: task_typed_def thiscpu_def aget_Inr_iff)
    ultimately show "cpu_typed (cpu_task_update (\<lambda>_. p) c')"
      using cpu_typed_rq[of c i t] c(2,4) by (auto simp: cpu_typed_def)
  qed
  also have "task_frame s1 s2" using c(5) by (rule set_task_frame)
  also have "task_frame s2 (lcr3 v s2)" by (rule lcr3_frame)
  finally show ?thesis using c(6) by (simp add: flow_state_def)
qed

text \<open>Killing: the queues are shifted in place, and an entry is cleared.\<close>

lemma kill_shift_typed:
  assumes "kill_shift pid ts n j (f, q) = Inr (f', q')"
  shows "length q' = length q" "set q' \<subseteq> set q"
proof -
  have "q' = q \<or> (\<exists>x. aget q (j + 1) = Inr x \<and> q' = q[j := x])"
    using assms by (auto simp: kill_shift_def rbind_Inr_iff Let_def aset_def split: if_splits)
  then show "length q' = length q" "set q' \<subseteq> set q"
    by (auto simp: aget_Inr_iff dest: set_update_subset_insert[THEN subsetD])
qed

lemma kill_shifts_typed:
  assumes "kfor lo k (kill_shift pid ts n) (f, q) = Inr (f', q')"
  shows "length q' = length q \<and> set q' \<subseteq> set q"
proof -
  have "(\<lambda>a b. length (snd b) = length (snd a) \<and> set (snd b) \<subseteq> set (snd a)) (f, q) (f', q')"
    by (rule kfor_keeps[OF _ _ _ assms]) (use kill_shift_typed in \<open>fastforce+\<close>)
  then show ?thesis by simp
qed

lemma kill_cpus_frame: "kill_cpus pid n i s = Inr (j, s') \<Longrightarrow> task_frame s s'"
proof (induction n arbitrary: i s)
  case (Suc n)
  then obtain c f q s1 where c: "aget (cpus s) i = Inr c"
    "kfor 0 (unat (cnt (cpu_rq c))) (kill_shift pid (tasks s) (cnt (cpu_rq c))) (False, rq (cpu_rq c)) = Inr (f, q)"
    "set_cpu i (cpu_rq_update (rq_update (\<lambda>_. q))) s = Inr s1" "f \<and> s1 = s' \<or> kill_cpus pid n (i + 1) s1 = Inr (j, s')"
    by (auto simp: rbind_Inr_iff split: if_splits)
  have "s1 = s\<lparr>cpus := (cpus s)[i := cpu_rq_update (rq_update (\<lambda>_. q)) c]\<rparr>"
    using c(1,3) by (auto simp: set_cpu_def)
  moreover have "cpu_typed (cpu_rq_update (rq_update (\<lambda>_. q)) c)" if "task_typed s"
  proof -
    have "cpu_typed c" using that c(1) by (auto simp: task_typed_def aget_Inr_iff)
    then show ?thesis using kill_shifts_typed[OF c(2)] unfolding cpu_typed_def by auto
  qed
  ultimately have "task_frame s s1"
    by (auto simp: task_frame_def task_typed_def dest: set_update_subset_insert[THEN subsetD])
  then show ?case using c(4) Suc.IH task_frame_trans by blast
qed simp

lemma Some_in_cleared: "Some t \<in> set (xs[i := None]) \<Longrightarrow> Some t \<in> set xs"
  using set_update_subset_insert by fastforce

lemma kill_dequeue_frame: "kill_dequeue i s = Inr s' \<Longrightarrow> task_frame s s'"
proof -
  assume "kill_dequeue i s = Inr s'"
  then obtain c where c: "aget (cpus s) i = Inr c" "unat (cnt (cpu_rq c) - 1) < length (rq (cpu_rq c))"
    "s' = s\<lparr>cpus := (cpus s)[i := c\<lparr>cpu_rq := \<lparr>cnt = cnt (cpu_rq c) - 1, rq = (rq (cpu_rq c))[unat (cnt (cpu_rq c) - 1) := None]\<rparr>\<rparr>]\<rparr>"
    by (auto simp: kill_dequeue_def set_cpu_def rbind_Inr_iff aset_def split: if_splits)
  have "cpu_typed (c\<lparr>cpu_rq := \<lparr>cnt = cnt (cpu_rq c) - 1, rq = (rq (cpu_rq c))[unat (cnt (cpu_rq c) - 1) := None]\<rparr>\<rparr>)" if "task_typed s"
    using that c(1,2) by (auto simp: task_typed_def cpu_typed_def aget_Inr_iff dest!: Some_in_cleared)
  then show "task_frame s s'"
    using c(3) by (auto simp: task_frame_def task_typed_def dest: set_update_subset_insert[THEN subsetD])
qed

lemma sys_kill_frame: "sys_kill pid s = Inr f \<Longrightarrow> task_frame s (flow_state f)"
  by (auto simp: sys_kill_def rbind_Inr_iff flow_state_def split: if_splits
      dest!: lock_tasks_frame set_task_frame task_free_frame unlock_tasks_frame kill_cpus_frame kill_dequeue_frame
        sched_yield_frame[unfolded flow_state_def])
    (meson task_frame_trans)

lemma enqueue_task_frame:
  assumes "enqueue_task i p s = Inr s'" "p < NR_TASKS"
  shows "task_frame s s'"
proof -
  obtain c where c: "aget (cpus s) i = Inr c" "unat (cnt (cpu_rq c)) < length (rq (cpu_rq c))"
    "s' = s\<lparr>cpus := (cpus s)[i := c\<lparr>cpu_rq := \<lparr>cnt = cnt (cpu_rq c) + 1, rq = (rq (cpu_rq c))[unat (cnt (cpu_rq c)) := Some p]\<rparr>\<rparr>]\<rparr>"
    using assms(1) by (auto simp: enqueue_task_def set_cpu_def rbind_Inr_iff aset_def split: if_splits)
  have "cpu_typed (c\<lparr>cpu_rq := \<lparr>cnt = cnt (cpu_rq c) + 1, rq = (rq (cpu_rq c))[unat (cnt (cpu_rq c)) := Some p]\<rparr>\<rparr>)" if "task_typed s"
  proof -
    have l: "cpu_typed c" using that c(1) by (auto simp: task_typed_def aget_Inr_iff)
    then have "unat (cnt (cpu_rq c) + 1) \<le> NR_TASKS"
      using c(2) by (simp add: cpu_typed_def unat_word_ariths NR_TASKS_def)
    with l assms(2) show ?thesis
      by (auto simp: cpu_typed_def dest: set_update_subset_insert[THEN subsetD])
  qed
  then show "task_frame s s'"
    using c(3) by (auto simp: task_frame_def task_typed_def dest: set_update_subset_insert[THEN subsetD])
qed

lemma task_create_pid: "task_create img s = Inr (r, s') \<Longrightarrow> r = -1 \<or> 0 \<le> r \<and> nat r < length (tasks s)"
proof -
  assume h: "task_create img s = Inr (r, s')"
  then obtain s1 where s1: "lock_tasks s = Inr s1" by (auto simp: task_create_def rbind_Inr_iff)
  have ts: "tasks s1 = tasks s" using s1 by (auto simp: lock_tasks_def rbind_Inr_iff)
  show ?thesis
  proof (cases "find_free_task (tasks s1)")
    case None
    with h s1 show ?thesis by (simp add: task_create_def)
  next
    case (Some p)
    with h s1 have "r = -1 \<or> r = int p"
      by (auto simp: task_create_def rbind_Inr_iff split: option.splits if_splits)
    with find_free_taskD[OF Some] ts show ?thesis by auto
  qed
qed

text \<open>The two ways \<open>sys_fork\<close> returns: without a copy, and after every step.\<close>

lemma sys_fork_cases:
  assumes "sys_fork img u s = Inr (r, s')"
  obtains (plain) "task_create img s = Inr (r, s')"
  | (copied) me P s1 s2 src dst s3 s4 s5 s6 c where
    "task_create img s = Inr (r, s1)" "r \<noteq> -1" "thiscpu s1 = Inr c" "cpu_task c = Some me" "aget (tasks s1) me = Inr P"
    "set_task (nat r) (tf_update (\<lambda>_. tf P)) s1 = Inr s2" "pgdir P = Some src" "pgdir (tasks s2 ! nat r) = Some dst"
    "remove_seq (copy_stack_page src dst) ustack_vas s2 = Inr s3" "setup_user u dst s3 = Inr s4"
    "set_task (nat r) (tf_update (tf_regs_update (reg_eax_update (\<lambda>_. 0)))) s4 = Inr s5"
    "enqueue_task (nextCPU s5) (nat r) s5 = Inr s6" "s' = s6\<lparr>nextCPU := (nextCPU s6 + 1) mod ncpu s6\<rparr>"
proof -
  obtain pid s1 where s1: "task_create img s = Inr (pid, s1)" using assms by (auto simp: sys_fork_def rbind_Inr_iff)
  show thesis
  proof (cases "pid = -1")
    case True
    then show thesis using plain assms s1 by (simp add: sys_fork_def)
  next
    case False
    then obtain c where c: "thiscpu s1 = Inr c" using assms s1 by (auto simp: sys_fork_def rbind_Inr_iff)
    show thesis
    proof (cases "cpu_task c")
      case None
      then show thesis using plain assms s1 False c by (simp add: sys_fork_def)
    next
      case (Some me)
      show thesis
        using copied[OF _ _ _ Some] assms s1 False c Some
        by (auto simp: sys_fork_def rbind_Inr_iff nonnull_def aget_Inr_iff split: if_splits option.splits)
    qed
  qed
qed

lemma sys_fork_frame: "sys_fork img u s = Inr (r, s') \<Longrightarrow> task_frame s s'"
proof (erule sys_fork_cases)
  fix P :: Task and me s1 s2 src dst s3 s4 s5 s6 c
  assume s: "task_create img s = Inr (r, s1)" "r \<noteq> -1" "set_task (nat r) (tf_update (\<lambda>_. tf P)) s1 = Inr s2"
    "remove_seq (copy_stack_page src dst) ustack_vas s2 = Inr s3" "setup_user u dst s3 = Inr s4"
    "set_task (nat r) (tf_update (tf_regs_update (reg_eax_update (\<lambda>_. 0)))) s4 = Inr s5"
    "enqueue_task (nextCPU s5) (nat r) s5 = Inr s6" "s' = s6\<lparr>nextCPU := (nextCPU s6 + 1) mod ncpu s6\<rparr>"
  have "mem_frame s2 s3"
    by (rule remove_seq_keeps[OF _ _ _ s(4)]) (auto dest: copy_stack_page_frame intro: mem_frame_trans)
  then have "task_frame s s5"
    using task_create_frame[OF s(1)] set_task_frame[OF s(3)] mem_task_frame mem_task_frame[OF setup_user_frame[OF s(5)]] set_task_frame[OF s(6)]
    by (meson task_frame_trans)
  moreover have "task_frame s5 s6" if "nat r < NR_TASKS" using enqueue_task_frame[OF s(7) that] .
  moreover have "task_frame s6 s'" using s(8) by (simp add: task_frame_def task_typed_def)
  moreover have "hw_cpu s6 = hw_cpu s5" "hw_frames s6 = hw_frames s5" "task_state.more s6 = task_state.more s5"
    using s(7) by (auto simp: enqueue_task_def set_cpu_def rbind_Inr_iff)
  moreover have "nat r < NR_TASKS" if "task_typed s"
    using task_create_pid[OF s(1)] that s(2) by (simp add: task_typed_def)
  ultimately show ?thesis unfolding task_frame_def by metis
qed (rule task_create_frame)

lemma tick_entry_frame: "tick_entry i s = Inr s' \<Longrightarrow> task_frame s s'"
  by (auto simp: tick_entry_def rbind_Inr_iff split: if_splits dest: set_task_frame)

lemma timer_handler_frame: "timer_handler img s = Inr f \<Longrightarrow> task_frame s (flow_state f)"
proof -
  let ?s = "s\<lparr>jiffies := jiffies s + 1, io := lapic_eoi (lapic img) (io s)\<rparr>"
  have k: "kfor 0 n tick_entry s = Inr s' \<Longrightarrow> task_frame s s'" for n and s s' :: "'a task_state_scheme"
    by (erule kfor_keeps[rotated 3]) (auto dest: tick_entry_frame intro: task_frame_trans)
  have s0: "task_frame s ?s" by (simp add: task_frame_def task_typed_def)
  show "timer_handler img s = Inr f \<Longrightarrow> task_frame s (flow_state f)"
    by (rule task_frame_trans[OF s0])
      (auto simp: timer_handler_def Let_def rbind_Inr_iff flow_state_def split: option.splits if_splits
        dest!: k set_task_frame sched_yield_frame[unfolded flow_state_def], (meson task_frame_trans)+)
qed

section \<open>The console\<close>

definition con_typed :: "console \<Rightarrow> bool" where
  "con_typed c \<longleftrightarrow> length (vga c) = 16384 \<and> length (cons_buf c) = 512 \<and> rpos c < 512 \<and> wpos c < 512"

definition con_frame :: "console \<Rightarrow> console \<Rightarrow> bool" where
  "con_frame c c' \<longleftrightarrow> (con_typed c \<longrightarrow> con_typed c')"

lemma con_frame_refl [simp]: "con_frame c c" by (simp add: con_frame_def)

lemma con_frame_trans: "con_frame a b \<Longrightarrow> con_frame b c \<Longrightarrow> con_frame a c" by (simp add: con_frame_def)

lemma con_typed_updates [simp]:
  "con_typed (c\<lparr>csr_x := x\<rparr>) = con_typed c" "con_typed (c\<lparr>csr_y := x\<rparr>) = con_typed c" "con_typed (c\<lparr>cio := l\<rparr>) = con_typed c"
  "con_typed (c\<lparr>attrib := x\<rparr>) = con_typed c" "con_typed (c\<lparr>shift := w\<rparr>) = con_typed c"
  "con_typed (c\<lparr>kb_pending := p\<rparr>) = con_typed c" "con_typed (c\<lparr>kb_stale := b\<rparr>) = con_typed c"
  by (simp_all add: con_typed_def)

lemma con_frame_updates [simp]:
  "con_frame a (c\<lparr>csr_x := x\<rparr>) = con_frame a c" "con_frame a (c\<lparr>csr_y := x\<rparr>) = con_frame a c" "con_frame a (c\<lparr>cio := l\<rparr>) = con_frame a c"
  "con_frame a (c\<lparr>attrib := x\<rparr>) = con_frame a c" "con_frame a (c\<lparr>shift := w\<rparr>) = con_frame a c"
  "con_frame a (c\<lparr>kb_pending := p\<rparr>) = con_frame a c" "con_frame a (c\<lparr>kb_stale := b\<rparr>) = con_frame a c"
  "con_frame a (move_csr c) = con_frame a c"
  by (simp_all add: con_frame_def move_csr_def Let_def)

lemma vga_index_less: "vga_index i s = Inr k \<Longrightarrow> k < length (vga s)"
  by (auto simp: vga_index_def Let_def split: if_splits)

lemma vga_indexD:
  assumes "vga_index i s = Inr k"
  shows "int k = (uint (textmemptr s) + 2 * i - 0xB8000) div 2"
proof -
  define a where "a = uint (textmemptr s) + 2 * i - 0xB8000"
  have "0 \<le> a" "k = nat (a div 2)"
    using assms unfolding vga_index_def Let_def a_def by (auto split: if_splits)
  then show ?thesis unfolding a_def[symmetric] by (simp add: pos_imp_zdiv_nonneg_iff)
qed

lemma vga_index_diff:
  assumes "vga_index i s = Inr k" "vga_index (i + n) s = Inr m"
  shows "int m = int k + n"
proof -
  have "uint (textmemptr s) + 2 * (i + n) - 0xB8000 = uint (textmemptr s) + 2 * i - 0xB8000 + n * 2" by simp
  then show ?thesis unfolding vga_indexD[OF assms(1)] vga_indexD[OF assms(2)] by (simp only: div_mult_self1)
qed

lemma vga_store_frame: "vga_store i v s = Inr s' \<Longrightarrow> con_frame s s'"
  by (auto simp: vga_store_def rbind_Inr_iff con_frame_def con_typed_def)

lemma vga_window:
  assumes "vga_index i s = Inr k" "vga_index (i + n - 1) s = Inr m" "0 < n"
  shows "k + nat n \<le> length (vga s)"
  using vga_index_diff[OF assms(1), of "n - 1" m] vga_index_less[OF assms(2)] assms(2,3) by (simp add: algebra_simps)

lemma vga_splice_frame:
  "d + n \<le> length (vga s) \<Longrightarrow> length x = n \<Longrightarrow> con_frame s (s\<lparr>vga := take d (vga s) @ x @ drop (d + n) (vga s)\<rparr>)"
  by (simp add: con_frame_def con_typed_def)

lemma vga_copy_frame: "vga_copy d k n s = Inr s' \<Longrightarrow> con_frame s s'"
proof (cases "0 < n")
  case True
  assume "vga_copy d k n s = Inr s'"
  then obtain a b x y where "vga_index d s = Inr a" "vga_index (d + n - 1) s = Inr x" "vga_index k s = Inr b" "vga_index (k + n - 1) s = Inr y"
    "s' = s\<lparr>vga := take a (vga s) @ take (nat n) (drop b (vga s)) @ drop (a + nat n) (vga s)\<rparr>"
    using True by (auto simp: vga_copy_def rbind_Inr_iff)
  with True show ?thesis using vga_window[of d s a n x] vga_window[of k s b n y] by (simp add: vga_splice_frame)
qed (auto simp: vga_copy_def split: if_splits)

lemma vga_fill_frame: "vga_fill d v n s = Inr s' \<Longrightarrow> con_frame s s'"
proof (cases "0 < n")
  case True
  assume "vga_fill d v n s = Inr s'"
  then obtain a x w where "vga_index d s = Inr a" "vga_index (d + n - 1) s = Inr x"
    "s' = s\<lparr>vga := take a (vga s) @ replicate (nat n) w @ drop (a + nat n) (vga s)\<rparr>"
    using True by (auto simp: vga_fill_def rbind_Inr_iff Let_def)
  with True show ?thesis using vga_window[of d s a n x] by (simp add: vga_splice_frame)
qed (auto simp: vga_fill_def split: if_splits)

lemma scroll_frame: "scroll s = Inr s' \<Longrightarrow> con_frame s s'"
  by (auto simp: scroll_def rbind_Inr_iff Let_def split: if_splits dest!: vga_copy_frame vga_fill_frame intro: con_frame_trans)

lemma k_putch_frame: "k_putch c s = Inr s' \<Longrightarrow> con_frame s s'"
proof -
  have "con_frame s s1" if "put_char c s = Inr s1" for s1
    using that by (auto simp: put_char_def rbind_Inr_iff Let_def split: if_splits dest!: vga_store_frame)
  moreover assume "k_putch c s = Inr s'"
  then obtain s1 s2 where "put_char c s = Inr s1" "s' = move_csr s2"
    "scroll (if csr_x s1 \<ge> 80 then s1\<lparr>csr_x := 0, csr_y := csr_y s1 + 1\<rparr> else s1) = Inr s2"
    by (auto simp: k_putch_def rbind_Inr_iff Let_def)
  ultimately show "con_frame s s'"
    using scroll_frame[of "if csr_x s1 \<ge> 80 then s1\<lparr>csr_x := 0, csr_y := csr_y s1 + 1\<rparr> else s1" s2]
    by (auto simp: con_frame_def move_csr_def Let_def split: if_splits)
qed

lemma sys_cls_frame: "sys_cls s = Inr s' \<Longrightarrow> con_frame s s'"
proof -
  have "con_frame s s'" if "kfor 0 n (\<lambda>i s. vga_fill (int i * 80) b 80 s) s = Inr s'" for n b s s'
    by (rule kfor_keeps[OF _ _ _ that]) (auto dest: vga_fill_frame intro: con_frame_trans)
  then show "sys_cls s = Inr s' \<Longrightarrow> con_frame s s'"
    by (auto simp: sys_cls_def rbind_Inr_iff Let_def)
qed

text \<open>Printing: the kernel's sink follows itself and keeps the console typed.\<close>

interpretation con_keeps: sink_pair putch_kernel putch_kernel "\<lambda>a b. a = b \<and> con_frame c (fst a)"
  by standard (auto simp: follows_def putch_kernel_def rbind_Inr_iff dest!: k_putch_frame intro: con_frame_trans)

lemma printk_frame: "printk fmt ap s = Inr (n, s') \<Longrightarrow> con_frame s s'"
proof -
  assume "printk fmt ap s = Inr (n, s')"
  then have "vprintfmt putch_kernel fmt ap (s, 0) = Inr (s', n)" by (auto simp: printk_def vprintk_def rbind_Inr_iff)
  with con_keeps.vprintfmt_arrives[of s fmt ap] have "(s', n) = (s', n) \<and> con_frame s (fst (s', n))"
    unfolding follows_def by (metis con_frame_refl fst_conv sum.inject(2))
  then show "con_frame s s'" by simp
qed

lemma kbd_proc_data_frame: "kbd_proc_data s = Inr (c, s') \<Longrightarrow> con_frame s s'"
proof -
  have k: "con_frame s s'" if "kbd_key d s = Inr (c, s')" for d s c s'
    using that by (auto simp: kbd_key_def rbind_Inr_iff Let_def split: if_splits dest!: printk_frame)
       (auto simp: con_frame_def)
  show "kbd_proc_data s = Inr (c, s') \<Longrightarrow> con_frame s s'"
    by (auto simp: kbd_proc_data_def inb_data_def rbind_Inr_iff Let_def split: if_splits list.splits dest!: k)
      (auto simp: con_frame_def)
qed

lemma inc_wrap:
  assumes "w < (512 :: u32)"
  shows "(if w + 1 = 512 then 0 else w + 1) < 512"
proof -
  have "unat (w + 1) = Suc (unat w)" using assms by (simp add: unat_word_ariths word_less_nat_alt)
  then show ?thesis using assms by (auto simp: word_less_nat_alt word_unat_eq_iff)
qed

lemma cons_put_frame: "cons_put c s = Inr s' \<Longrightarrow> con_frame s s'"
  using inc_wrap[of "wpos s"]
  by (auto simp: cons_put_def rbind_Inr_iff Let_def aset_def con_frame_def con_typed_def CONSBUFSIZE_def split: if_splits)

lemma cons_intr_frame: "cons_intr s = Inr s' \<Longrightarrow> con_frame s s'"
proof (induction s rule: cons_intr.induct)
  case (1 s)
  then obtain c s1 where s1: "kbd_proc_data s = Inr (c, s1)" by (auto simp: cons_intr.simps[of s] rbind_Inr_iff)
  with "1.prems" have "c = -1 \<and> s' = s1 \<or> c = 0 \<and> cons_intr s1 = Inr s' \<or> cons_put (word_of_int c) s1 = Inr s'"
    by (auto simp: cons_intr.simps[of s] split: if_splits)
  then have "con_frame s1 s'" using "1.IH"[OF s1 refl] cons_put_frame by fastforce
  with kbd_proc_data_frame[OF s1] show ?case by (rule con_frame_trans)
qed

lemma cons_getc_frame: "cons_getc s = Inr (c, s') \<Longrightarrow> con_frame s s'"
  using inc_wrap[of "rpos s"]
  by (auto simp: cons_getc_def rbind_Inr_iff Let_def con_frame_def con_typed_def CONSBUFSIZE_def split: if_splits)

section \<open>The file system\<close>

definition vfs_typed :: "'f vfs \<Rightarrow> bool" where
  "vfs_typed v \<longleftrightarrow> table_raw v \<and> con_typed (vcon v)"

definition vfs_frame :: "'f vfs \<Rightarrow> 'f vfs \<Rightarrow> bool" where
  "vfs_frame v v' \<longleftrightarrow> (vfs_typed v \<longrightarrow> vfs_typed v')"

lemma vfs_frame_refl [simp]: "vfs_frame v v" by (simp add: vfs_frame_def)

lemma vfs_frame_trans: "vfs_frame a b \<Longrightarrow> vfs_frame b c \<Longrightarrow> vfs_frame a c" by (simp add: vfs_frame_def)

lemma vfs_frame_vfat [simp]: "vfs_frame a (v\<lparr>vfat := f\<rparr>) = vfs_frame a v" "vfs_frame (v\<lparr>vfat := f\<rparr>) a = vfs_frame v a"
  by (simp_all add: vfs_frame_def vfs_typed_def table_raw_def)

lemma set_fd_frame:
  assumes "set_fd i g v = Inr v'" "\<And>d. get_fd i v = Inr d \<Longrightarrow> length (fd_path d) = 64 \<Longrightarrow> length (fd_path (g d)) = 64"
  shows "vfs_frame v v'"
  using assms
  by (auto simp: set_fd_def get_fd_def rbind_Inr_iff aget_Inr_iff vfs_frame_def vfs_typed_def table_raw_def list_all_length nth_list_update)

lemma printk_v_frame: "printk_v fmt ap v = Inr v' \<Longrightarrow> vfs_frame v v'"
  by (auto simp: printk_v_def rbind_Inr_iff vfs_frame_def vfs_typed_def table_raw_def con_frame_def dest!: printk_frame)

lemma printInfo_frame: "printInfo fno v = Inr v' \<Longrightarrow> vfs_frame v v'"
  by (auto simp: printInfo_def rbind_Inr_iff dest!: printk_v_frame) (meson vfs_frame_trans)+

lemma ls_loop_frame: "ls_loop F n dp v = Inr (r, d, v') \<Longrightarrow> vfs_frame v v'"
proof (induction n arbitrary: dp v)
  case (Suc n)
  obtain res fno dp' f where x: "f_readdir F dp (vfat v) = (res, fno, dp', f)" by (metis prod_cases4)
  show ?case
  proof (cases "res = FR_OK")
    case True
    then obtain c where c: "aget (fi_fname fno) 0 = Inr c" using Suc.prems x by (auto simp: Let_def rbind_Inr_iff)
    show ?thesis
    proof (cases "c = 0")
      case True
      then show ?thesis using Suc.prems x c \<open>res = FR_OK\<close> by (auto simp: Let_def split_beta)
    next
      case False
      then obtain v1 where "printInfo fno (v\<lparr>vfat := f\<rparr>) = Inr v1" "ls_loop F n dp' v1 = Inr (r, d, v')"
        using Suc.prems x c True by (auto simp: Let_def rbind_Inr_iff)
      with Suc.IH printInfo_frame have "vfs_frame (v\<lparr>vfat := f\<rparr>) v1" "vfs_frame v1 v'" by blast+
      then show ?thesis using vfs_frame_trans[of v v1 v'] by simp
    qed
  qed (use Suc.prems x in \<open>auto simp: Let_def\<close>)
qed simp

lemma fat_ls_frame: "fat_ls F n p v = Inr (r, v') \<Longrightarrow> vfs_frame v v'"
  by (auto simp: fat_ls_def Let_def split_beta rbind_Inr_iff split: if_splits dest!: printInfo_frame ls_loop_frame)

lemma strcpy_length: "strcpy dst src = Inr r \<Longrightarrow> length r = length dst"
  by (induction dst src arbitrary: r rule: strcpy.induct) (auto simp: rbind_Inr_iff split: if_splits)

lemma fd_new_frame: "fd_new v = Inr (r, v') \<Longrightarrow> vfs_frame v v'"
  by (auto simp: fd_new_def rbind_Inr_iff split: option.splits dest!: set_fd_frame)

lemma fd_get_frame: "fd_get fd v = Inr (r, v') \<Longrightarrow> vfs_frame v v'"
  by (auto simp: fd_get_def rbind_Inr_iff split: if_splits dest!: set_fd_frame)

lemma fd_put_frame: "fd_put F i v = Inr v' \<Longrightarrow> vfs_frame v v'"
  by (auto simp: fd_put_def rbind_Inr_iff split: if_splits dest!: set_fd_frame)

lemma fat_ops_frame:
  "op_open (elmfat_ops F n) i v = Inr (r, v') \<Longrightarrow> vfs_frame v v'" "op_close (elmfat_ops F n) i v = Inr (r, v') \<Longrightarrow> vfs_frame v v'"
  "op_read (elmfat_ops F n) i len v = Inr (r, bs, v') \<Longrightarrow> vfs_frame v v'" "op_write (elmfat_ops F n) i b v = Inr (r, v') \<Longrightarrow> vfs_frame v v'"
  "op_lseek (elmfat_ops F n) i off v = Inr (r, v') \<Longrightarrow> vfs_frame v v'" "op_unlink (elmfat_ops F n) p v = Inr (r, v') \<Longrightarrow> vfs_frame v v'"
  "op_ls (elmfat_ops F n) p v = Inr (r, v') \<Longrightarrow> vfs_frame v v'" "op_rm (elmfat_ops F n) p v = Inr (r, v') \<Longrightarrow> vfs_frame v v'"
  "op_touch (elmfat_ops F n) p v = Inr (r, v') \<Longrightarrow> vfs_frame v v'"
  by (auto simp: elmfat_ops_def fat_open_def fat_close_def fat_read_def fat_write_def fat_lseek_def fat_unlink_def fat_rm_def
      fat_touch_def rbind_Inr_iff Let_def split_beta dest!: set_fd_frame fat_ls_frame)

lemma file_open_frame: "file_open (elmfat_ops F n) i p fl v = Inr (r, v') \<Longrightarrow> vfs_frame v v'"
proof -
  assume "file_open (elmfat_ops F n) i p fl v = Inr (r, v')"
  then obtain d q v1 where d: "get_fd i v = Inr d" "strcpy (fd_path d) p = Inr q"
    "set_fd i (\<lambda>d. d\<lparr>fd_path := q, fd_flags := fl, fd_fs := True\<rparr>) v = Inr v1" "op_open (elmfat_ops F n) i v1 = Inr (r, v')"
    by (auto simp: file_open_def rbind_Inr_iff)
  have "vfs_frame v v1"
    by (rule set_fd_frame[OF d(3)]) (use d(1) strcpy_length[OF d(2)] in simp)
  with fat_ops_frame(1)[OF d(4)] show ?thesis by (rule vfs_frame_trans[rotated])
qed

lemma file_ops_frame:
  "file_close (elmfat_ops F n) i v = Inr (r, v') \<Longrightarrow> vfs_frame v v'" "file_read (elmfat_ops F n) i len v = Inr (r, bs, v') \<Longrightarrow> vfs_frame v v'"
  "file_write (elmfat_ops F n) i b v = Inr (r, v') \<Longrightarrow> vfs_frame v v'" "file_lseek (elmfat_ops F n) i off v = Inr (r, v') \<Longrightarrow> vfs_frame v v'"
  by (auto simp: file_close_def file_read_def file_write_def file_lseek_def rbind_Inr_iff dest: fat_ops_frame)

lemma sys_files_frame:
  "sys_open F (elmfat_ops F n) p fl v = Inr (x, v') \<Longrightarrow> vfs_frame v v'"
  "sys_close F (elmfat_ops F n) fd v = Inr (r, v') \<Longrightarrow> vfs_frame v v'"
  "sys_read F (elmfat_ops F n) fd nn len v = Inr (r, bs, v') \<Longrightarrow> vfs_frame v v'"
  "sys_write F (elmfat_ops F n) fd ob len v = Inr (r, v') \<Longrightarrow> vfs_frame v v'"
  "sys_lseek F (elmfat_ops F n) fd off wh v = Inr (r, v') \<Longrightarrow> vfs_frame v v'"
proof -
  show "sys_open F (elmfat_ops F n) p fl v = Inr (x, v') \<Longrightarrow> vfs_frame v v'"
    by (auto simp: sys_open_def rbind_Inr_iff split: if_splits dest!: fd_new_frame fd_get_frame file_open_frame fd_put_frame)
      (meson vfs_frame_trans)+
  show "sys_close F (elmfat_ops F n) fd v = Inr (r, v') \<Longrightarrow> vfs_frame v v'"
  proof -
    assume h: "sys_close F (elmfat_ops F n) fd v = Inr (r, v')"
    then obtain p v1 where g: "fd_get fd v = Inr (p, v1)" by (auto simp: sys_close_def rbind_Inr_iff)
    have "vfs_frame v1 v'"
      using h g by (cases p) (auto simp: sys_close_def rbind_Inr_iff Let_def split: if_splits option.splits
        dest!: file_ops_frame(1) fd_put_frame intro: vfs_frame_trans)
    with fd_get_frame[OF g] show "vfs_frame v v'" by (rule vfs_frame_trans)
  qed
  show "sys_read F (elmfat_ops F n) fd nn len v = Inr (r, bs, v') \<Longrightarrow> vfs_frame v v'"
  proof -
    assume h: "sys_read F (elmfat_ops F n) fd nn len v = Inr (r, bs, v')"
    then obtain p v1 where g: "fd_get fd v = Inr (p, v1)" by (auto simp: sys_read_def rbind_Inr_iff)
    have "vfs_frame v1 v'"
      using h g by (cases p) (auto simp: sys_read_def rbind_Inr_iff Let_def split: if_splits option.splits
        dest!: file_ops_frame(2) fd_put_frame intro: vfs_frame_trans)
    with fd_get_frame[OF g] show "vfs_frame v v'" by (rule vfs_frame_trans)
  qed
  show "sys_write F (elmfat_ops F n) fd ob len v = Inr (r, v') \<Longrightarrow> vfs_frame v v'"
  proof -
    assume h: "sys_write F (elmfat_ops F n) fd ob len v = Inr (r, v')"
    then obtain p v1 where g: "fd_get fd v = Inr (p, v1)" by (auto simp: sys_write_def rbind_Inr_iff)
    have "vfs_frame v1 v'"
      using h g by (cases p) (auto simp: sys_write_def rbind_Inr_iff Let_def split: if_splits option.splits
        dest!: file_ops_frame(3) fd_put_frame intro: vfs_frame_trans)
    with fd_get_frame[OF g] show "vfs_frame v v'" by (rule vfs_frame_trans)
  qed
  show "sys_lseek F (elmfat_ops F n) fd off wh v = Inr (r, v') \<Longrightarrow> vfs_frame v v'"
  proof -
    assume h: "sys_lseek F (elmfat_ops F n) fd off wh v = Inr (r, v')"
    then obtain p v1 where g: "fd_get fd v = Inr (p, v1)" by (auto simp: sys_lseek_def rbind_Inr_iff)
    have "vfs_frame v1 v'"
      using h g by (cases p) (auto simp: sys_lseek_def rbind_Inr_iff Let_def split: if_splits option.splits
        dest!: file_ops_frame(4) fd_put_frame intro: vfs_frame_trans)
    with fd_get_frame[OF g] show "vfs_frame v v'" by (rule vfs_frame_trans)
  qed
qed

lemma sys_paths_frame:
  "sys_unlink (elmfat_ops F n) p v = Inr (r, v') \<Longrightarrow> vfs_frame v v'" "sys_ls (elmfat_ops F n) p v = Inr (r, v') \<Longrightarrow> vfs_frame v v'"
  "sys_rm (elmfat_ops F n) p v = Inr (r, v') \<Longrightarrow> vfs_frame v v'" "sys_touch (elmfat_ops F n) p v = Inr (r, v') \<Longrightarrow> vfs_frame v v'"
  by (auto simp: sys_unlink_def sys_ls_def sys_rm_def sys_touch_def file_unlink_def file_ls_def file_rm_def file_touch_def rbind_Inr_iff
      dest: fat_ops_frame)

end
