(* ===== verification/Trap.thy ===== *)
theory Trap
  imports Kernel_Types
begin

text \<open>
  Traps and system calls: \<^verbatim>\<open>kernel/trap.c\<close>, \<^verbatim>\<open>kernel/trap_entry.S\<close>, \<^verbatim>\<open>kernel/syscall.c\<close>, the handler
  registration of \<^verbatim>\<open>kernel/timer.c\<close> and \<^verbatim>\<open>kernel/kbd.c\<close>, and the user side \<^verbatim>\<open>lib/syscall.c\<close>.

  The state of the whole kernel extends that of the tasks by the file system and console, the
  console lock and the interrupt descriptor table. A handler in \<open>trap_hnd\<close> is the name of the
  function the pointer refers to. A \<open>Trapframe *\<close> points to the frame on the kernel stack or to the
  \<open>tf\<close> of a task. A pointer of the user program is followed through the page directory in \<open>cr3\<close>.
  The flag that masks interrupts is not part of the state.
\<close>

section \<open>Constants (inc/trap.h, inc/syscall.h)\<close>

definition T_STACK :: nat where "T_STACK = 12"
definition T_GPFLT :: nat where "T_GPFLT = 13"
definition T_PGFLT :: nat where "T_PGFLT = 14"
definition T_SYSCALL :: nat where "T_SYSCALL = 48"
definition T_DEFAULT :: nat where "T_DEFAULT = 500"

definition SYS_puts :: u32 where "SYS_puts = 0"
definition SYS_getc :: u32 where "SYS_getc = 1"
definition SYS_getpid :: u32 where "SYS_getpid = 2"
definition SYS_getcid :: u32 where "SYS_getcid = 3"
definition SYS_fork :: u32 where "SYS_fork = 4"
definition SYS_kill :: u32 where "SYS_kill = 5"
definition SYS_sleep :: u32 where "SYS_sleep = 6"
definition SYS_get_num_used_page :: u32 where "SYS_get_num_used_page = 7"
definition SYS_get_num_free_page :: u32 where "SYS_get_num_free_page = 8"
definition SYS_get_ticks :: u32 where "SYS_get_ticks = 9"
definition SYS_settextcolor :: u32 where "SYS_settextcolor = 10"
definition SYS_cls :: u32 where "SYS_cls = 11"
definition SYS_open :: u32 where "SYS_open = 12"
definition SYS_close :: u32 where "SYS_close = 13"
definition SYS_read :: u32 where "SYS_read = 14"
definition SYS_write :: u32 where "SYS_write = 15"
definition SYS_lseek :: u32 where "SYS_lseek = 16"
definition SYS_unlink :: u32 where "SYS_unlink = 17"
definition SYS_ls :: u32 where "SYS_ls = 18"
definition SYS_rm :: u32 where "SYS_rm = 19"
definition SYS_touch :: u32 where "SYS_touch = 20"
definition NSYSCALLS :: u32 where "NSYSCALLS = 21"

lemmas sys_numbers = SYS_puts_def SYS_getc_def SYS_getpid_def SYS_getcid_def SYS_fork_def SYS_kill_def
  SYS_sleep_def SYS_get_num_used_page_def SYS_get_num_free_page_def SYS_get_ticks_def SYS_settextcolor_def
  SYS_cls_def SYS_open_def SYS_close_def SYS_read_def SYS_write_def SYS_lseek_def SYS_unlink_def SYS_ls_def
  SYS_rm_def SYS_touch_def

section \<open>State\<close>

datatype trap_handler = H_page_fault_handler | H_timer_handler | H_kbd_intr | H_syscall_handler

record 'f kernel_state = task_state +
  kvfs :: "'f vfs"
  console_lock :: spinlock
  idt :: "Gatedesc list"
  trap_hnd :: "trap_handler option list"
  idtr :: "nat \<Rightarrow> bool"          \<comment> \<open>\<open>idt_pd\<close> was loaded, by processor\<close>
  cr2 :: "nat \<Rightarrow> u32"
  hw_eax :: u32                 \<comment> \<open>what a function that returns no value leaves in \<open>%eax\<close>\<close>

datatype isr = Default_ISR | KBD_Input | TIM_ISR | GPFLT | STACK_ISR | PGFLT | SYS_CALL

text \<open>What the kernel is linked with: the FatFs module, the bound on directory listings, the
  addresses of the image and of the entry points.\<close>

record ('f, 'd) kernel_env =
  env_fat :: "('f, 'd) fatfs"
  env_ls :: nat
  env_image :: kernel_image
  env_user :: user_image
  isr_addr :: "isr \<Rightarrow> u32"

abbreviation env_ops :: "('f, 'd) kernel_env \<Rightarrow> 'f fs_ops" where
  "env_ops E \<equiv> elmfat_ops (env_fat E) (env_ls E)"

datatype tf_ptr = OnStack Trapframe | OfTask nat

definition get_frame :: "tf_ptr \<Rightarrow> 'a task_state_scheme \<Rightarrow> Trapframe result" where
  "get_frame p s = (case p of OnStack f \<Rightarrow> Inr f | OfTask t \<Rightarrow> rbind (aget (tasks s) t) (\<lambda>T. Inr (tf T)))"

definition set_frame :: "(Trapframe \<Rightarrow> Trapframe) \<Rightarrow> tf_ptr \<Rightarrow> 'a task_state_scheme \<Rightarrow> (tf_ptr \<times> 'a task_state_scheme) result" where
  "set_frame g p s = (case p of OnStack f \<Rightarrow> Inr (OnStack (g f), s)
     | OfTask t \<Rightarrow> rbind (set_task t (tf_update g) s) (\<lambda>s. Inr (OfTask t, s)))"

definition set_con :: "(console \<Rightarrow> ('v \<times> console) result) \<Rightarrow> 'f kernel_state \<Rightarrow> ('v \<times> 'f kernel_state) result" where
  "set_con f s = rbind (f (vcon (kvfs s))) (\<lambda>(v, c). Inr (v, s\<lparr>kvfs := (kvfs s)\<lparr>vcon := c\<rparr>\<rparr>))"

definition set_vfs :: "('f vfs \<Rightarrow> ('v \<times> 'f vfs) result) \<Rightarrow> 'f kernel_state \<Rightarrow> ('v \<times> 'f kernel_state) result" where
  "set_vfs f s = rbind (f (kvfs s)) (\<lambda>(v, x). Inr (v, s\<lparr>kvfs := x\<rparr>))"

definition kprint :: "u8 list \<Rightarrow> vararg list \<Rightarrow> 'f kernel_state \<Rightarrow> 'f kernel_state result" where
  "kprint fmt ap s = rbind (set_con (printk fmt ap) s) (\<lambda>(_, s). Inr s)"

abbreviation line :: "string \<Rightarrow> u8 list" where
  "line t \<equiv> bytes_of t @ [0x0A, 0]"

section \<open>Memory as the processor sees it\<close>

text \<open>The translation of a page: a cached one, or the entries the page directory leads to. The
  result is the page table entry, restricted by the rights of the directory entry.\<close>

definition translate :: "u32 \<Rightarrow> 'a task_state_scheme \<Rightarrow> u32 option" where
  "translate va s = (case tlb s (PGNUM va) of Some e \<Rightarrow> Some e
     | None \<Rightarrow>
       let pde = phys s (unat (PGNUM (cr3 s (hw_cpu s)))) (unat (PDX va)) in
       if \<not> present pde then None
       else let pte = phys s (frame_of pde) (unat (PTX va)) in
         if \<not> present pte then None
         else Some (if pde AND PTE_W = 0 then pte AND NOT PTE_W else pte))"

definition load_byte :: "u32 \<Rightarrow> 'a task_state_scheme \<Rightarrow> u8 result" where
  "load_byte va s = (case translate va s of None \<Rightarrow> Inl Fault
     | Some pte \<Rightarrow> Inr (ucast (drop_bit (8 * (unat va mod 4)) (phys s (frame_of pte) (unat va mod 4096 div 4)))))"

definition put_byte :: "nat \<Rightarrow> u8 \<Rightarrow> u32 \<Rightarrow> u32" where
  "put_byte k b w = (w AND NOT (push_bit (8 * k) 0xFF)) OR push_bit (8 * k) (ucast b)"

definition store_byte :: "u32 \<Rightarrow> u8 \<Rightarrow> 'a task_state_scheme \<Rightarrow> 'a task_state_scheme result" where
  "store_byte va b s = (case translate va s of None \<Rightarrow> Inl Fault
     | Some pte \<Rightarrow>
       if pte AND PTE_W = 0 then Inl Fault
       else let f = frame_of pte; i = unat va mod 4096 div 4 in
         Inr (s\<lparr>phys := (phys s)(f := (phys s f)(i := put_byte (unat va mod 4) b (phys s f i)))\<rparr>))"

fun load_bytes :: "u32 \<Rightarrow> nat \<Rightarrow> 'a task_state_scheme \<Rightarrow> u8 list result" where
  "load_bytes va 0 s = Inr []"
| "load_bytes va (Suc n) s = rbind (load_byte va s) (\<lambda>b. rbind (load_bytes (va + 1) n s) (\<lambda>bs. Inr (b # bs)))"

fun store_bytes :: "u32 \<Rightarrow> u8 list \<Rightarrow> 'a task_state_scheme \<Rightarrow> 'a task_state_scheme result" where
  "store_bytes va [] s = Inr s"
| "store_bytes va (b # bs) s = rbind (store_byte va b s) (store_bytes (va + 1) bs)"

text \<open>The bytes of a string, up to its terminator or to the first address that cannot be read.\<close>

function string_at :: "u32 \<Rightarrow> 'a task_state_scheme \<Rightarrow> u8 list" where
  "string_at va s = (case load_byte va s of Inl _ \<Rightarrow> []
     | Inr b \<Rightarrow> if b = 0 \<or> va = 0xFFFFFFFF then [b] else b # string_at (va + 1) s)"
  by pat_completeness auto
termination string_at
proof (relation "measure (\<lambda>(va, _). 2 ^ 32 - unat va)")
  fix va :: u32 and b :: u8
  assume "\<not> (b = 0 \<or> va = 0xFFFFFFFF)"
  then have "va \<noteq> - 1" by auto
  then have "unat (va + 1) = Suc (unat va)" using unatSuc[of va] by (metis add.commute add_eq_0_iff)
  moreover have "unat (va + 1) < 2 ^ 32" using unat_lt_2p32[of "va + 1"] by simp
  ultimately show "((va + 1, s), va, s) \<in> measure (\<lambda>(va, _). 2 ^ 32 - unat va)" for s :: "'a task_state_scheme" by simp
qed auto

declare string_at.simps [simp del]

section \<open>System calls (kernel/syscall.c)\<close>

definition lock_console :: "'f kernel_state \<Rightarrow> 'f kernel_state result" where
  "lock_console s = rbind (spin_lock (hw_frames s) (hw_cpu s) (console_lock s)) (\<lambda>l. Inr (s\<lparr>console_lock := l\<rparr>))"

definition unlock_console :: "'f kernel_state \<Rightarrow> 'f kernel_state result" where
  "unlock_console s = rbind (spin_unlock (hw_cpu s) (console_lock s)) (\<lambda>l. Inr (s\<lparr>console_lock := l\<rparr>))"

definition do_puts :: "u32 \<Rightarrow> u32 \<Rightarrow> 'f kernel_state \<Rightarrow> 'f kernel_state result" where
  "do_puts str len s =
     rbind (lock_console s) (\<lambda>s.
     rbind (kfor 0 (unat len) (\<lambda>i s. rbind (load_byte (str + of_nat i) s) (\<lambda>c.
       rbind (set_con (\<lambda>k. rbind (k_putch c k) (\<lambda>k. Inr ((), k))) s) (\<lambda>(_, s). Inr s))) s)
     unlock_console)"

definition do_getc :: "'f kernel_state \<Rightarrow> (int \<times> 'f kernel_state) result" where
  "do_getc s = set_con k_getc s"

text \<open>The task that runs on this processor.\<close>

definition cur_task :: "'a task_state_scheme \<Rightarrow> nat result" where
  "cur_task s = rbind (thiscpu s) (\<lambda>c. nonnull (cpu_task c))"

text \<open>The bytes \<open>sys_write\<close> is going to read; a call it refuses reads none.\<close>

definition write_buffer :: "u32 \<Rightarrow> u32 \<Rightarrow> u32 \<Rightarrow> 'a task_state_scheme \<Rightarrow> u8 list option result" where
  "write_buffer fd buf len s =
     (if buf = 0 then Inr None
      else if sint fd < 0 \<or> sint fd > int FS_FD_MAX \<or> sint len < 0 then Inr (Some [])
      else rbind (load_bytes buf (unat len) s) (\<lambda>bs. Inr (Some bs)))"

definition ret :: "('v \<Rightarrow> int) \<Rightarrow> ('v \<times> 's) result \<Rightarrow> (int, 's) flow result" where
  "ret f r = rbind r (\<lambda>(v, s). Inr (Return (f v) s))"

definition do_syscall ::
    "('f, 'd) kernel_env \<Rightarrow> u32 \<Rightarrow> u32 \<Rightarrow> u32 \<Rightarrow> u32 \<Rightarrow> u32 \<Rightarrow> u32 \<Rightarrow> 'f kernel_state \<Rightarrow> (int, 'f kernel_state) flow result" where
  "do_syscall E syscallno a1 a2 a3 a4 a5 s =
     (let F = env_fat E; ops = env_ops E in
      if syscallno = SYS_fork then ret id (sys_fork (env_image E) (env_user E) s)
      else if syscallno = SYS_getc then ret id (do_getc s)
      else if syscallno = SYS_puts then rbind (do_puts a1 a2 s) (\<lambda>s. Inr (Return 0 s))
      else if syscallno = SYS_getpid then
        rbind (cur_task s) (\<lambda>t. rbind (aget (tasks s) t) (\<lambda>T. Inr (Return (task_id T) s)))
      else if syscallno = SYS_getcid then rbind (thiscpu s) (\<lambda>c. Inr (Return (uint (cpu_id c)) s))
      else if syscallno = SYS_sleep then
        rbind (cur_task s) (\<lambda>t.
        rbind (set_task t (\<lambda>T. T\<lparr>state := TASK_SLEEP, remind_ticks := a1\<rparr>) s) sched_yield)
      else if syscallno = SYS_kill then
        rbind (cur_task s) (\<lambda>t. rbind (aget (tasks s) t) (\<lambda>T.
        rbind (sys_kill (task_id T) s) (\<lambda>f. Inr (case f of Return _ s \<Rightarrow> Return 0 s | Resume r s \<Rightarrow> Resume r s))))
      else if syscallno = SYS_get_num_free_page then Inr (Return (sys_get_num_free_page s) s)
      else if syscallno = SYS_get_num_used_page then Inr (Return (sys_get_num_used_page s) s)
      else if syscallno = SYS_get_ticks then Inr (Return (sint (sys_get_ticks s)) s)
      else if syscallno = SYS_settextcolor then
        ret (\<lambda>_. 0) (set_con (\<lambda>k. Inr ((), sys_settextcolor (ucast a1) (ucast a2) k)) s)
      else if syscallno = SYS_cls then ret (\<lambda>_. 0) (set_con (\<lambda>k. rbind (sys_cls k) (\<lambda>k. Inr ((), k))) s)
      else if syscallno = SYS_open then
        ret (case_option (sint (hw_eax s)) id) (set_vfs (sys_open F ops (string_at a1 s) a2) s)
      else if syscallno = SYS_read then
        rbind (set_vfs (\<lambda>v. rbind (sys_read F ops (sint a1) (a2 \<noteq> 0) a3 v) (\<lambda>(r, bs, v). Inr ((r, bs), v))) s) (\<lambda>((r, bs), s).
        rbind (store_bytes a2 bs s) (\<lambda>s. Inr (Return r s)))
      else if syscallno = SYS_write then
        rbind (write_buffer a1 a2 a3 s) (\<lambda>bs. ret id (set_vfs (sys_write F ops (sint a1) bs a3) s))
      else if syscallno = SYS_close then ret id (set_vfs (sys_close F ops (sint a1)) s)
      else if syscallno = SYS_lseek then ret id (set_vfs (sys_lseek F ops (sint a1) a2 (sint a3)) s)
      else if syscallno = SYS_unlink then ret id (set_vfs (sys_unlink ops (string_at a1 s)) s)
      else if syscallno = SYS_ls then ret id (set_vfs (sys_ls ops (string_at a1 s)) s)
      else if syscallno = SYS_rm then ret id (set_vfs (sys_rm ops (string_at a1 s)) s)
      else if syscallno = SYS_touch then ret id (set_vfs (sys_touch ops (string_at a1 s)) s)
      else Inr (Return (-1) s))"

definition syscall_handler ::
    "('f, 'd) kernel_env \<Rightarrow> tf_ptr \<Rightarrow> 'f kernel_state \<Rightarrow> (tf_ptr, 'f kernel_state) flow result" where
  "syscall_handler E p s =
     rbind (get_frame p s) (\<lambda>f. let r = tf_regs f in
     rbind (do_syscall E (reg_eax r) (reg_edx r) (reg_ecx r) (reg_ebx r) (reg_edi r) (reg_esi r) s) (\<lambda>fl.
     case fl of Resume g s \<Rightarrow> Inr (Resume g s)
     | Return v s \<Rightarrow>
       rbind (set_frame (tf_regs_update (reg_eax_update (\<lambda>_. word_of_int v))) p s) (\<lambda>(p, s). Inr (Return p s))))"

section \<open>Trap handling (kernel/trap.c)\<close>

definition excnames :: "string list" where
  "excnames = [''Divide error'', ''Debug'', ''Non-Maskable Interrupt'', ''Breakpoint'', ''Overflow'',
     ''BOUND Range Exceeded'', ''Invalid Opcode'', ''Device Not Available'', ''Double Fault'',
     ''Coprocessor Segment Overrun'', ''Invalid TSS'', ''Segment Not Present'', ''Stack Fault'',
     ''General Protection'', ''Page Fault'', ''(unknown trap)'', ''x87 FPU Floating-Point Error'',
     ''Alignment Check'', ''Machine-Check'', ''SIMD Floating-Point Exception'']"

text \<open>The comparison with \<open>sizeof\<close> is unsigned.\<close>

definition trapname :: "u32 \<Rightarrow> string" where
  "trapname trapno =
     (if unat trapno < length excnames then excnames ! unat trapno
      else if trapno = of_nat T_SYSCALL then ''System call''
      else if sint trapno \<ge> int IRQ_OFFSET \<and> sint trapno < int IRQ_OFFSET + 16 then ''Hardware Interrupt''
      else ''(unknown trap)'')"

fun kprints :: "(u8 list \<times> vararg list) list \<Rightarrow> 'f kernel_state \<Rightarrow> 'f kernel_state result" where
  "kprints [] s = Inr s"
| "kprints ((fmt, ap) # ps) s = rbind (kprint fmt ap s) (kprints ps)"

text \<open>A string argument: a pointer that is not null, with the bytes of the literal.\<close>

abbreviation lit :: "string \<Rightarrow> vararg" where
  "lit t \<equiv> VStr 1 (ascii t)"

definition print_regs :: "PushRegs \<Rightarrow> 'f kernel_state \<Rightarrow> 'f kernel_state result" where
  "print_regs r = kprints
     [(line ''  edi  0x%08x'', [VWord (reg_edi r)]), (line ''  esi  0x%08x'', [VWord (reg_esi r)]),
      (line ''  ebp  0x%08x'', [VWord (reg_ebp r)]), (line ''  oesp 0x%08x'', [VWord (reg_oesp r)]),
      (line ''  ebx  0x%08x'', [VWord (reg_ebx r)]), (line ''  edx  0x%08x'', [VWord (reg_edx r)]),
      (line ''  ecx  0x%08x'', [VWord (reg_ecx r)]), (line ''  eax  0x%08x'', [VWord (reg_eax r)])]"

text \<open>\<open>addr\<close> is the address of the frame; \<open>is_last\<close> tells whether it is \<open>last_tf\<close>.\<close>

definition print_trapframe :: "u32 \<Rightarrow> bool \<Rightarrow> Trapframe \<Rightarrow> 'f kernel_state \<Rightarrow> 'f kernel_state result" where
  "print_trapframe addr is_last f s =
     rbind (kprint (line ''TRAP frame at %p '') [VWord addr] s) (\<lambda>s.
     rbind (print_regs (tf_regs f) s) (\<lambda>s.
     rbind (kprints
       [(line ''  es   0x----%04x'', [VWord (ucast (tf_es f))]),
        (line ''  ds   0x----%04x'', [VWord (ucast (tf_ds f))]),
        (line ''  trap 0x%08x %s'', [VWord (tf_trapno f), lit (trapname (tf_trapno f))])] s) (\<lambda>s.
     rbind (if is_last \<and> tf_trapno f = of_nat T_PGFLT then kprint (line ''  cr2  0x%08x'') [VWord (cr2 s (hw_cpu s))] s else Inr s) (\<lambda>s.
     rbind (kprint (ascii ''  err  0x%08x'') [VWord (tf_err f)] s) (\<lambda>s.
     rbind (if tf_trapno f = of_nat T_PGFLT
            then kprint (line '' [%s, %s, %s]'')
              [lit (if tf_err f AND 4 \<noteq> 0 then ''user'' else ''kernel''),
               lit (if tf_err f AND 2 \<noteq> 0 then ''write'' else ''read''),
               lit (if tf_err f AND 1 \<noteq> 0 then ''protection'' else ''not-present'')] s
            else kprint (line '''') [] s) (\<lambda>s.
     rbind (kprints
       [(line ''  eip  0x%08x'', [VWord (tf_eip f)]),
        (line ''  cs   0x----%04x'', [VWord (ucast (tf_cs f))]),
        (line ''  flag 0x%08x'', [VWord (tf_eflags f)])] s) (\<lambda>s.
     if tf_cs f AND 3 \<noteq> 0
     then kprints
       [(line ''  esp  0x%08x'', [VWord (tf_esp f)]),
        (line ''  ss   0x----%04x'', [VWord (ucast (tf_ss f))])] s
     else Inr s)))))))"

definition register_handler :: "int \<Rightarrow> trap_handler \<Rightarrow> u32 \<Rightarrow> bool \<Rightarrow> 2 word \<Rightarrow> 'f kernel_state \<Rightarrow> 'f kernel_state result" where
  "register_handler trapno hnd trap_entry isTrap dpl s =
     (if trapno \<ge> 0 \<and> trapno < 256 \<and> trap_entry \<noteq> 0 then
        rbind (aset (trap_hnd s) (nat trapno) (Some hnd)) (\<lambda>h.
        rbind (aset (idt s) (nat trapno) (SETGATE isTrap GD_KT trap_entry dpl)) (\<lambda>g.
        Inr (s\<lparr>trap_hnd := h, idt := g\<rparr>)))
      else Inr s)"

text \<open>\<open>page_fault_handler\<close> reports the address and loops for ever.\<close>

definition page_fault_handler :: "'f kernel_state \<Rightarrow> 'v result" where
  "page_fault_handler s = rbind (kprint (line ''Page fault @ %p'') [VWord (cr2 s (hw_cpu s))] s) (\<lambda>_. Inl Spin)"

definition call_handler ::
    "('f, 'd) kernel_env \<Rightarrow> trap_handler \<Rightarrow> tf_ptr \<Rightarrow> 'f kernel_state \<Rightarrow> (tf_ptr, 'f kernel_state) flow result" where
  "call_handler E h p s = (case h of
     H_page_fault_handler \<Rightarrow> page_fault_handler s
   | H_timer_handler \<Rightarrow> rbind (timer_handler (env_image E) s) (\<lambda>f. Inr (case f of Return _ s \<Rightarrow> Return p s | Resume g s \<Rightarrow> Resume g s))
   | H_kbd_intr \<Rightarrow> rbind (set_con (\<lambda>k. rbind (kbd_intr k) (\<lambda>k. Inr ((), k))) s) (\<lambda>(_, s). Inr (Return p s))
   | H_syscall_handler \<Rightarrow> syscall_handler E p s)"

text \<open>\<open>Return\<close> is the return from a spurious interrupt; every other way out is \<open>env_pop_tf\<close>.\<close>

definition trap_dispatch ::
    "('f, 'd) kernel_env \<Rightarrow> u32 \<Rightarrow> Trapframe \<Rightarrow> 'f kernel_state \<Rightarrow> (unit, 'f kernel_state) flow result" where
  "trap_dispatch E addr f s =
     (if tf_trapno f = of_nat (IRQ_OFFSET + IRQ_SPURIOUS) then
        rbind (kprint (line ''Spurious interrupt on irq 7'') [] s) (\<lambda>s.
        rbind (print_trapframe addr True f s) (\<lambda>s. Inr (Return () s)))
      else rbind (aget (trap_hnd s) (unat (tf_trapno f))) (\<lambda>hnd.
        case hnd of
          None \<Rightarrow> rbind (print_trapframe addr True f s) (\<lambda>s. Inl (Panic ''Unexpected trap!''))
        | Some h \<Rightarrow>
          rbind (if tf_cs f AND 3 = 3
                 then rbind (cur_task s) (\<lambda>t. rbind (set_task t (tf_update (\<lambda>_. f)) s) (\<lambda>s. Inr (OfTask t, s)))
                 else Inr (OnStack f, s)) (\<lambda>(p, s).
          rbind (call_handler E h p s) (\<lambda>fl.
          case fl of Resume g s \<Rightarrow> Inr (Resume g s)
          | Return p s \<Rightarrow> rbind (get_frame p s) (\<lambda>g. Inr (Resume g s))))))"

definition default_trap_handler ::
    "('f, 'd) kernel_env \<Rightarrow> u32 \<Rightarrow> Trapframe \<Rightarrow> 'f kernel_state \<Rightarrow> (unit, 'f kernel_state) flow result" where
  "default_trap_handler E addr f s = trap_dispatch E addr f s"

definition set_gate :: "isr \<Rightarrow> ('f, 'd) kernel_env \<Rightarrow> nat \<Rightarrow> 'f kernel_state \<Rightarrow> 'f kernel_state result" where
  "set_gate e E i s = rbind (aset (idt s) i (SETGATE True GD_KT (isr_addr E e) 0)) (\<lambda>g. Inr (s\<lparr>idt := g\<rparr>))"

definition trap_init :: "('f, 'd) kernel_env \<Rightarrow> 'f kernel_state \<Rightarrow> 'f kernel_state result" where
  "trap_init E s =
     rbind (kfor 0 256 (\<lambda>i s. rbind (set_gate Default_ISR E i s) (\<lambda>s.
       rbind (aset (trap_hnd s) i None) (\<lambda>h. Inr (s\<lparr>trap_hnd := h\<rparr>)))) s) (\<lambda>s.
     rbind (set_gate GPFLT E T_GPFLT s) (\<lambda>s.
     rbind (set_gate STACK_ISR E T_STACK s) (\<lambda>s.
     rbind (register_handler (int T_PGFLT) H_page_fault_handler (isr_addr E PGFLT) True 0 s) (\<lambda>s.
     Inr (s\<lparr>idtr := (idtr s)(hw_cpu s := True)\<rparr>)))))"

definition syscall_init :: "('f, 'd) kernel_env \<Rightarrow> 'f kernel_state \<Rightarrow> 'f kernel_state result" where
  "syscall_init E = register_handler (int T_SYSCALL) H_syscall_handler (isr_addr E SYS_CALL) True 3"

definition unmask_irq :: "nat \<Rightarrow> 'a task_state_scheme \<Rightarrow> 'a task_state_scheme" where
  "unmask_irq n s = (let (p, l) = irq_setmask_8259A (irq_mask_8259A (pic s) AND NOT (push_bit n 1)) (pic s, io s) in
     s\<lparr>pic := p, io := l\<rparr>)"

definition timer_init :: "('f, 'd) kernel_env \<Rightarrow> 'f kernel_state \<Rightarrow> 'f kernel_state result" where
  "timer_init E s =
     register_handler (int (IRQ_OFFSET + IRQ_TIMER)) H_timer_handler (isr_addr E TIM_ISR) False 0
       (unmask_irq IRQ_TIMER (s\<lparr>io := set_timer TIME_HZ (io s)\<rparr>))"

definition kbd_init :: "('f, 'd) kernel_env \<Rightarrow> 'f kernel_state \<Rightarrow> 'f kernel_state result" where
  "kbd_init E s =
     rbind (set_con (\<lambda>k. rbind (kbd_intr k) (\<lambda>k. Inr ((), k))) s) (\<lambda>(_, s).
     register_handler (int (IRQ_OFFSET + IRQ_KBD)) H_kbd_intr (isr_addr E KBD_Input) False 0 (unmask_irq IRQ_KBD s))"

section \<open>Entry points (kernel/trap_entry.S)\<close>

text \<open>Every entry point pushes a zero and its number, so that the processor's own error code, where
  there is one, ends up in the place of \<open>eip\<close>.\<close>

definition isr_num :: "isr \<Rightarrow> nat" where
  "isr_num e = (case e of Default_ISR \<Rightarrow> T_DEFAULT | KBD_Input \<Rightarrow> IRQ_OFFSET + IRQ_KBD | TIM_ISR \<Rightarrow> IRQ_OFFSET + IRQ_TIMER
     | GPFLT \<Rightarrow> T_GPFLT | STACK_ISR \<Rightarrow> T_STACK | PGFLT \<Rightarrow> T_PGFLT | SYS_CALL \<Rightarrow> T_SYSCALL)"

definition isr_push :: "isr \<Rightarrow> u32 list \<Rightarrow> u32 list" where
  "isr_push e stk = of_nat (isr_num e) # 0 # stk"

definition low16 :: "u32 \<Rightarrow> u16" where "low16 w = ucast w"
definition high16 :: "u32 \<Rightarrow> u16" where "high16 w = ucast (drop_bit 16 w)"

text \<open>The frame \<open>_alltraps\<close> builds on the stack; \<open>stk\<close> lists the words from \<open>%esp\<close> upwards.\<close>

fun alltraps_frame :: "PushRegs \<Rightarrow> u32 \<Rightarrow> u32 \<Rightarrow> u32 list \<Rightarrow> Trapframe result" where
  "alltraps_frame r es ds (trapno # err # eip # cs # eflags # esp # ss # _) =
     Inr \<lparr>tf_regs = r, tf_es = low16 es, tf_padding1 = high16 es, tf_ds = low16 ds, tf_padding2 = high16 ds, tf_trapno = trapno, tf_err = err,
       tf_eip = eip, tf_cs = low16 cs, tf_padding3 = high16 cs, tf_eflags = eflags, tf_esp = esp,
       tf_ss = low16 ss, tf_padding4 = high16 ss\<rparr>"
| "alltraps_frame r es ds _ = Inl Fault"

definition alltraps ::
    "('f, 'd) kernel_env \<Rightarrow> isr \<Rightarrow> u32 \<Rightarrow> PushRegs \<Rightarrow> u32 \<Rightarrow> u32 \<Rightarrow> u32 list \<Rightarrow> 'f kernel_state \<Rightarrow> (Trapframe \<times> 'f kernel_state) result" where
  "alltraps E e addr r es ds stk s =
     rbind (alltraps_frame r es ds (isr_push e stk)) (\<lambda>f.
     rbind (default_trap_handler E addr f s) (\<lambda>fl.
     Inr (case fl of Return _ s \<Rightarrow> (f, s) | Resume g s \<Rightarrow> (g, s))))"

section \<open>The user side (lib/syscall.c)\<close>

datatype user_call =
    U_open u32 u32 u32 | U_close u32 | U_read u32 u32 u32 | U_write u32 u32 u32 | U_lseek u32 u32 u32
  | U_unlink u32 | U_ls u32 | U_rm u32 | U_touch u32 | U_getc | U_getcid | U_puts u32 u32
  | U_get_num_used_page | U_cls | U_get_num_free_page | U_get_ticks | U_settextcolor u8 u8
  | U_fork | U_getpid | U_kill_self | U_sleep u32

text \<open>The number and the five arguments each stub passes on.\<close>

fun syscall_args :: "user_call \<Rightarrow> u32 \<times> u32 \<times> u32 \<times> u32 \<times> u32 \<times> u32" where
  "syscall_args (U_open a1 a2 a3) = (SYS_open, a1, a2, a3, 0, 0)"
| "syscall_args (U_close a1) = (SYS_close, a1, 0, 0, 0, 0)"
| "syscall_args (U_read a1 a2 a3) = (SYS_read, a1, a2, a3, 0, 0)"
| "syscall_args (U_write a1 a2 a3) = (SYS_write, a1, a2, a3, 0, 0)"
| "syscall_args (U_lseek a1 a2 a3) = (SYS_lseek, a1, a2, a3, 0, 0)"
| "syscall_args (U_unlink a1) = (SYS_unlink, a1, 0, 0, 0, 0)"
| "syscall_args (U_ls a1) = (SYS_ls, a1, 0, 0, 0, 0)"
| "syscall_args (U_rm a1) = (SYS_rm, a1, 0, 0, 0, 0)"
| "syscall_args (U_touch a1) = (SYS_touch, a1, 0, 0, 0, 0)"
| "syscall_args U_getc = (SYS_getc, 0, 0, 0, 0, 0)"
| "syscall_args U_getcid = (SYS_getcid, 0, 0, 0, 0, 0)"
| "syscall_args (U_puts s len) = (SYS_puts, s, len, 0, 0, 0)"
| "syscall_args U_get_num_used_page = (SYS_get_num_used_page, 0, 0, 0, 0, 0)"
| "syscall_args U_cls = (SYS_cls, 0, 0, 0, 0, 0)"
| "syscall_args U_get_num_free_page = (SYS_get_num_free_page, 0, 0, 0, 0, 0)"
| "syscall_args U_get_ticks = (SYS_get_ticks, 0, 0, 0, 0, 0)"
| "syscall_args (U_settextcolor f b) = (SYS_settextcolor, ucast f, ucast b, 0, 0, 0)"
| "syscall_args U_fork = (SYS_fork, 0, 0, 0, 0, 0)"
| "syscall_args U_getpid = (SYS_getpid, 0, 0, 0, 0, 0)"
| "syscall_args U_kill_self = (SYS_kill, 0, 0, 0, 0, 0)"
| "syscall_args (U_sleep n) = (SYS_sleep, n, 0, 0, 0, 0)"

text \<open>The registers \<open>syscall\<close> loads before the \<open>int\<close> instruction; \<open>r\<close> holds the others.\<close>

definition syscall_regs :: "user_call \<Rightarrow> PushRegs \<Rightarrow> PushRegs" where
  "syscall_regs c r = (case syscall_args c of (num, a1, a2, a3, a4, a5) \<Rightarrow>
     r\<lparr>reg_eax := num, reg_edx := a1, reg_ecx := a2, reg_ebx := a3, reg_edi := a4, reg_esi := a5\<rparr>)"

end
