(* ===== verification/Kernel_Contract.thy ===== *)
theory Kernel_Contract
  imports Trap
begin

text \<open>
  What the trap and system call layer promises: the contract of a system call as a user program
  sees it, the contents of the interrupt descriptor table, and that no trap breaks the types of the
  kernel state.
\<close>

section \<open>What a system call does\<close>

text \<open>The kernel function each user call stands for, applied to the arguments of the call.\<close>

fun serve :: "('f, 'd) kernel_env \<Rightarrow> user_call \<Rightarrow> 'f kernel_state \<Rightarrow> (int, 'f kernel_state) flow result" where
  "serve E (U_open p fl m) s = ret (case_option (sint (hw_eax s)) id) (set_vfs (sys_open (env_fat E) (env_ops E) (string_at p s) fl) s)"
| "serve E (U_close d) s = ret id (set_vfs (sys_close (env_fat E) (env_ops E) (sint d)) s)"
| "serve E (U_read d buf n) s =
     rbind (set_vfs (\<lambda>v. rbind (sys_read (env_fat E) (env_ops E) (sint d) (buf \<noteq> 0) n v) (\<lambda>(r, bs, v). Inr ((r, bs), v))) s) (\<lambda>((r, bs), s).
     rbind (store_bytes buf bs s) (\<lambda>s. Inr (Return r s)))"
| "serve E (U_write d buf n) s =
     rbind (write_buffer d buf n s) (\<lambda>bs. ret id (set_vfs (sys_write (env_fat E) (env_ops E) (sint d) bs n) s))"
| "serve E (U_lseek d off wh) s = ret id (set_vfs (sys_lseek (env_fat E) (env_ops E) (sint d) off (sint wh)) s)"
| "serve E (U_unlink p) s = ret id (set_vfs (sys_unlink (env_ops E) (string_at p s)) s)"
| "serve E (U_ls p) s = ret id (set_vfs (sys_ls (env_ops E) (string_at p s)) s)"
| "serve E (U_rm p) s = ret id (set_vfs (sys_rm (env_ops E) (string_at p s)) s)"
| "serve E (U_touch p) s = ret id (set_vfs (sys_touch (env_ops E) (string_at p s)) s)"
| "serve E U_getc s = ret id (set_con k_getc s)"
| "serve E U_getcid s = rbind (thiscpu s) (\<lambda>c. Inr (Return (uint (cpu_id c)) s))"
| "serve E (U_puts p n) s = rbind (do_puts p n s) (\<lambda>s. Inr (Return 0 s))"
| "serve E U_get_num_used_page s = Inr (Return (sys_get_num_used_page s) s)"
| "serve E U_cls s = ret (\<lambda>_. 0) (set_con (\<lambda>k. rbind (sys_cls k) (\<lambda>k. Inr ((), k))) s)"
| "serve E U_get_num_free_page s = Inr (Return (sys_get_num_free_page s) s)"
| "serve E U_get_ticks s = Inr (Return (sint (jiffies s)) s)"
| "serve E (U_settextcolor fg bg) s = ret (\<lambda>_. 0) (set_con (\<lambda>k. Inr ((), sys_settextcolor fg bg k)) s)"
| "serve E U_fork s = ret id (sys_fork (env_image E) (env_user E) s)"
| "serve E U_getpid s = rbind (cur_task s) (\<lambda>t. rbind (aget (tasks s) t) (\<lambda>T. Inr (Return (task_id T) s)))"
| "serve E U_kill_self s = rbind (cur_task s) (\<lambda>t. rbind (aget (tasks s) t) (\<lambda>T.
     rbind (sys_kill (task_id T) s) (\<lambda>f. Inr (case f of Return _ s \<Rightarrow> Return 0 s | Resume r s \<Rightarrow> Resume r s))))"
| "serve E (U_sleep n) s = rbind (cur_task s) (\<lambda>t.
     rbind (set_task t (\<lambda>T. T\<lparr>state := TASK_SLEEP, remind_ticks := n\<rparr>) s) sched_yield)"

lemma ucast_u8: "ucast (ucast (x :: u8) :: u32) = x"
  by (intro bit_word_eqI) (simp add: bit_ucast_iff)

lemma do_syscall_serves:
  "syscall_args c = (num, a1, a2, a3, a4, a5) \<Longrightarrow> do_syscall E num a1 a2 a3 a4 a5 s = serve E c s"
  by (cases c) (auto simp: do_syscall_def sys_numbers do_getc_def sys_get_ticks_def ucast_u8)

lemma syscall_regs_args:
  "syscall_args c = (reg_eax (syscall_regs c r), reg_edx (syscall_regs c r), reg_ecx (syscall_regs c r),
     reg_ebx (syscall_regs c r), reg_edi (syscall_regs c r), reg_esi (syscall_regs c r))"
  by (cases "syscall_args c") (simp add: syscall_regs_def)

text \<open>A task that is not free keeps its entry while another one is created or forked.\<close>

definition others_kept :: "Task list \<Rightarrow> Task list \<Rightarrow> bool" where
  "others_kept ts ts' \<longleftrightarrow> length ts' = length ts \<and> (\<forall>u<length ts. state (ts ! u) \<noteq> TASK_FREE \<longrightarrow> ts' ! u = ts ! u)"

lemma others_kept_refl [simp]: "others_kept ts ts" by (simp add: others_kept_def)

lemma others_kept_set:
  assumes "others_kept ts (tasks s)" "set_task p f s = Inr s'" "p < length ts" "state (ts ! p) = TASK_FREE"
  shows "others_kept ts (tasks s')"
  using assms by (auto simp: others_kept_def set_task_def rbind_Inr_iff nth_list_update)

lemma task_create_others:
  assumes "task_create img s = Inr (r, s')"
  shows "others_kept (tasks s) (tasks s') \<and> (r \<noteq> -1 \<longrightarrow> nat r < length (tasks s) \<and> state (tasks s ! nat r) = TASK_FREE)"
proof -
  obtain s1 where s1: "lock_tasks s = Inr s1" using assms by (auto simp: task_create_def rbind_Inr_iff)
  have ts: "tasks s1 = tasks s" using s1 by (auto simp: lock_tasks_def rbind_Inr_iff)
  show ?thesis
  proof (cases "find_free_task (tasks s1)")
    case None
    with assms s1 ts show ?thesis by (simp add: task_create_def)
  next
    case (Some p)
    then have p: "p < length (tasks s)" "state (tasks s ! p) = TASK_FREE" using find_free_taskD ts by auto
    obtain d s2 s3 ok s4 where k: "setupkvm img s1 = Inr (Some d, s2)" "set_task p (pgdir_update (\<lambda>_. Some d)) s2 = Inr s3"
      "alloc_ustack d ustack_pages (USTACKTOP - USR_STACK_SIZE) s3 = Inr (ok, s4)"
      using assms s1 Some by (fastforce simp: task_create_def rbind_Inr_iff split: option.splits)
    have o2: "others_kept (tasks s) (tasks s2)" using ts task_frameD(1)[OF setupkvm_frame[OF k(1)]] by simp
    have o4: "others_kept (tasks s) (tasks s4)"
      using others_kept_set[OF o2 k(2) p] task_frameD(1)[OF alloc_ustack_frame[OF k(3)]] by simp
    show ?thesis
    proof (cases ok)
      case False
      then show ?thesis using assms s1 Some k o4 by (simp add: task_create_def)
    next
      case True
      then obtain s5 par s6 where "set_task p (\<lambda>T. T\<lparr>tf := new_frame, task_id := int p\<rparr>) s4 = Inr s5"
        "set_task p (\<lambda>T. T\<lparr>parent_id := par, remind_ticks := TIME_QUANT, state := TASK_RUNNABLE\<rparr>) s5 = Inr s6" "unlock_tasks s6 = Inr s'" "r = int p"
        using assms s1 Some k by (auto simp: task_create_def rbind_Inr_iff)
      moreover have "tasks s' = tasks s6" using calculation(3) by (auto simp: unlock_tasks_def rbind_Inr_iff)
      ultimately show ?thesis using others_kept_set[OF others_kept_set[OF o4 _ p] _ p] p by fastforce
    qed
  qed
qed

lemma sys_fork_others: "sys_fork img u s = Inr (r, s') \<Longrightarrow> others_kept (tasks s) (tasks s')"
proof (erule sys_fork_cases)
  fix P :: Task and me s1 s2 src dst s3 s4 s5 s6 c
  assume s: "task_create img s = Inr (r, s1)" "r \<noteq> -1" "set_task (nat r) (tf_update (\<lambda>_. tf P)) s1 = Inr s2"
    "remove_seq (copy_stack_page src dst) ustack_vas s2 = Inr s3" "setup_user u dst s3 = Inr s4"
    "set_task (nat r) (tf_update (tf_regs_update (reg_eax_update (\<lambda>_. 0)))) s4 = Inr s5"
    "enqueue_task (nextCPU s5) (nat r) s5 = Inr s6" "s' = s6\<lparr>nextCPU := (nextCPU s6 + 1) mod ncpu s6\<rparr>"
  note c = task_create_others[OF s(1)]
  have "mem_frame s2 s3"
    by (rule remove_seq_keeps[OF _ _ _ s(4)]) (auto dest: copy_stack_page_frame intro: mem_frame_trans)
  then have "tasks s4 = tasks s2"
    using task_frameD(1)[of s2 s3] task_frameD(1)[OF setup_user_frame[OF s(5)]] by simp
  moreover have "others_kept (tasks s) (tasks s2)" using others_kept_set[OF _ s(3)] c s(2) by blast
  ultimately have "others_kept (tasks s) (tasks s5)" using others_kept_set[OF _ s(6)] c s(2) by simp
  moreover have "tasks s' = tasks s5" using s(7,8) by (auto simp: enqueue_task_def set_cpu_def rbind_Inr_iff)
  ultimately show ?thesis by simp
qed (use task_create_others in blast)

lemma set_con_tasks: "set_con f s = Inr (v, s') \<Longrightarrow> tasks s' = tasks s"
  by (auto simp: set_con_def rbind_Inr_iff)

lemma set_vfs_tasks: "set_vfs f s = Inr (v, s') \<Longrightarrow> tasks s' = tasks s"
  by (auto simp: set_vfs_def rbind_Inr_iff)

lemma store_byte_frame: "store_byte va b s = Inr s' \<Longrightarrow> mem_frame s s'"
  by (auto simp: store_byte_def Let_def mem_frame_def split: option.splits if_splits)

lemma store_bytes_frame: "store_bytes va bs s = Inr s' \<Longrightarrow> mem_frame s s'"
proof (induction bs arbitrary: va s)
  case (Cons b bs)
  then show ?case using store_byte_frame mem_frame_trans by (auto simp: rbind_Inr_iff) blast
qed simp

lemma do_puts_tasks: "do_puts p n s = Inr s' \<Longrightarrow> tasks s' = tasks s"
proof -
  assume "do_puts p n s = Inr s'"
  then obtain s1 s2 where s: "lock_console s = Inr s1" "unlock_console s2 = Inr s'"
    "kfor 0 (unat n) (\<lambda>i s. rbind (load_byte (p + of_nat i) s) (\<lambda>c.
       rbind (set_con (\<lambda>k. rbind (k_putch c k) (\<lambda>k. Inr ((), k))) s) (\<lambda>(_, s). Inr s))) s1 = Inr s2"
    by (auto simp: do_puts_def rbind_Inr_iff)
  have "tasks s2 = tasks s1"
    by (rule kfor_keeps[OF _ _ _ s(3)]) (auto simp: rbind_Inr_iff dest: set_con_tasks)
  then show ?thesis using s(1,2) by (auto simp: lock_console_def unlock_console_def rbind_Inr_iff)
qed

lemma sched_yield_no_return: "sched_yield s \<noteq> Inr (Return v s')"
  by (auto simp: sched_yield_def rbind_Inr_iff split: option.splits)

lemma sys_kill_return: "sys_kill pid s = Inr (Return v s') \<Longrightarrow> s' = s"
  by (auto simp: sys_kill_def rbind_Inr_iff sched_yield_no_return split: if_splits)

lemma serve_tasks:
  assumes "serve E c s = Inr (Return v s')" "c \<noteq> U_fork"
  shows "tasks s' = tasks s"
proof (cases "c = U_kill_self")
  case True
  then obtain pid f where "sys_kill pid s = Inr f" "(case f of Return _ s \<Rightarrow> Return 0 s | Resume r s \<Rightarrow> Resume r s) = Return v s'"
    using assms(1) by (auto simp: rbind_Inr_iff)
  then show ?thesis by (cases f) (auto dest: sys_kill_return)
next
  case False
  with assms show ?thesis
    by (cases c)
      (auto simp: ret_def rbind_Inr_iff sched_yield_no_return
        dest!: set_vfs_tasks set_con_tasks do_puts_tasks store_bytes_frame[THEN task_frameD(1)])
qed

lemma serve_keeps_frame:
  assumes "serve E c s = Inr (Return v s')" "t < length (tasks s)" "state (tasks s ! t) \<noteq> TASK_FREE"
  shows "t < length (tasks s') \<and> tasks s' ! t = tasks s ! t"
proof (cases "c = U_fork")
  case True
  then have "others_kept (tasks s) (tasks s')" using assms(1) sys_fork_others by (auto simp: ret_def rbind_Inr_iff)
  then show ?thesis using assms(2,3) by (simp add: others_kept_def)
next
  case False
  have "tasks s' = tasks s" using serve_tasks[OF assms(1) False] .
  then show ?thesis using assms(2) by simp
qed

lemma syscall_trap:
  assumes "trap_hnd s ! T_SYSCALL = Some H_syscall_handler" "length (trap_hnd s) = 256" "cur_task s = Inr t" "t < length (tasks s)"
    "tf_trapno f = of_nat T_SYSCALL" "tf_cs f AND 3 = 3" "tf_regs f = syscall_regs c r" "state (tasks s ! t) \<noteq> TASK_FREE"
  shows "default_trap_handler E addr f s =
    rbind (serve E c (s\<lparr>tasks := (tasks s)[t := (tasks s ! t)\<lparr>tf := f\<rparr>]\<rparr>)) (\<lambda>fl. Inr (case fl of
      Resume g s1 \<Rightarrow> Resume g s1
    | Return v s1 \<Rightarrow> let g = tf_regs_update (reg_eax_update (\<lambda>_. word_of_int v)) f in
        Resume g (s1\<lparr>tasks := (tasks s1)[t := (tasks s1 ! t)\<lparr>tf := g\<rparr>]\<rparr>)))"
proof -
  let ?s = "s\<lparr>tasks := (tasks s)[t := (tasks s ! t)\<lparr>tf := f\<rparr>]\<rparr>"
  have n: "unat (tf_trapno f) = 48" "tf_trapno f \<noteq> of_nat (IRQ_OFFSET + IRQ_SPURIOUS)"
    using assms(5) by (simp_all add: T_SYSCALL_def IRQ_OFFSET_def IRQ_SPURIOUS_def)
  have d: "do_syscall E (reg_eax (tf_regs f)) (reg_edx (tf_regs f)) (reg_ecx (tf_regs f)) (reg_ebx (tf_regs f))
      (reg_edi (tf_regs f)) (reg_esi (tf_regs f)) ?s = serve E c ?s"
    unfolding assms(7) by (rule do_syscall_serves[OF syscall_regs_args])
  have e: "default_trap_handler E addr f s = rbind (syscall_handler E (OfTask t) ?s) (\<lambda>fl. case fl of Resume g s \<Rightarrow> Inr (Resume g s)
          | Return p s \<Rightarrow> rbind (get_frame p s) (\<lambda>g. Inr (Resume g s)))"
    using assms(1-4,6) n
    by (simp add: default_trap_handler_def trap_dispatch_def call_handler_def set_task_def T_SYSCALL_def)
  show ?thesis
    unfolding e syscall_handler_def
    using assms(4) d
    serve_keeps_frame[of E c ?s _ _ t] assms(8)
    by (cases "serve E c ?s")
      (auto simp: get_frame_def set_frame_def set_task_def Let_def o_def split: flow.splits)
qed

section \<open>The interrupt descriptor table\<close>

abbreviation gate0 :: "('f, 'd) kernel_env \<Rightarrow> isr \<Rightarrow> Gatedesc" where
  "gate0 E e \<equiv> SETGATE True GD_KT (isr_addr E e) 0"

lemma gate_offset_SETGATE: "gate_offset (SETGATE k sel off dpl) = off"
  by (simp add: gate_offset_def SETGATE_def half_bits del: push_bit_or)

lemma fill_step: "i < length xs \<Longrightarrow> (replicate i x @ drop i xs)[i := x] = replicate (Suc i) x @ drop (Suc i) xs"
  by (simp add: list_update_append Cons_nth_drop_Suc[symmetric] replicate_app_Cons_same)

lemma trap_init_result:
  assumes "length (idt s) = 256" "length (trap_hnd s) = 256" "isr_addr E PGFLT \<noteq> 0"
  shows "trap_init E s = Inr (s\<lparr>
    idt := (replicate 256 (gate0 E Default_ISR))[T_GPFLT := gate0 E GPFLT, T_STACK := gate0 E STACK_ISR, T_PGFLT := gate0 E PGFLT],
    trap_hnd := (replicate 256 None)[T_PGFLT := Some H_page_fault_handler],
    idtr := (idtr s)(hw_cpu s := True)\<rparr>)"
proof -
  let ?g = "gate0 E Default_ISR"
  let ?body = "\<lambda>i s. rbind (set_gate Default_ISR E i s) (\<lambda>s. rbind (aset (trap_hnd s) i None) (\<lambda>h. Inr (s\<lparr>trap_hnd := h\<rparr>)))"
  let ?P = "\<lambda>i s'. s' = s\<lparr>idt := replicate i ?g @ drop i (idt s), trap_hnd := replicate i None @ drop i (trap_hnd s)\<rparr>"
  have "\<exists>s'. kfor 0 256 ?body s = Inr s' \<and> ?P (0 + 256) s'"
  proof (rule kfor_inv[where P = ?P])
    fix i s' assume "0 \<le> i" "i < 0 + (256 :: nat)" "?P i s'"
    then show "\<exists>s''. ?body i s' = Inr s'' \<and> ?P (Suc i) s''"
      using assms(1,2) by (simp add: set_gate_def fill_step del: replicate_Suc)
  qed simp
  then have "kfor 0 256 ?body s = Inr (s\<lparr>idt := replicate 256 ?g, trap_hnd := replicate 256 None\<rparr>)"
    using assms(1,2) by simp
  then show ?thesis
    using assms(3)
    by (simp add: trap_init_def set_gate_def register_handler_def T_GPFLT_def T_STACK_def T_PGFLT_def)
qed

text \<open>The entry point and the handler of each vector.\<close>

definition vector_isr :: "nat \<Rightarrow> isr" where
  "vector_isr v = (if v = 12 then STACK_ISR else if v = 13 then GPFLT else if v = 14 then PGFLT else if v = 32 then TIM_ISR
     else if v = 33 then KBD_Input else if v = 48 then SYS_CALL else Default_ISR)"

definition vector_handler :: "nat \<Rightarrow> trap_handler option" where
  "vector_handler v = (if v = 14 then Some H_page_fault_handler else if v = 32 then Some H_timer_handler
     else if v = 33 then Some H_kbd_intr else if v = 48 then Some H_syscall_handler else None)"

definition vector_gate :: "('f, 'd) kernel_env \<Rightarrow> nat \<Rightarrow> Gatedesc" where
  "vector_gate E v = SETGATE (v \<noteq> 32 \<and> v \<noteq> 33) GD_KT (isr_addr E (vector_isr v)) (if v = 48 then 3 else 0)"

lemma kbd_init_tables:
  assumes "kbd_init E s = Inr s'" "length (idt s) = 256" "length (trap_hnd s) = 256" "isr_addr E KBD_Input \<noteq> 0"
  shows "idt s' = (idt s)[33 := SETGATE False GD_KT (isr_addr E KBD_Input) 0] \<and> trap_hnd s' = (trap_hnd s)[33 := Some H_kbd_intr]"
  using assms
  by (auto simp: kbd_init_def rbind_Inr_iff set_con_def register_handler_def unmask_irq_def Let_def split_beta IRQ_OFFSET_def IRQ_KBD_def)

lemma timer_init_tables:
  assumes "timer_init E s = Inr s'" "length (idt s) = 256" "length (trap_hnd s) = 256" "isr_addr E TIM_ISR \<noteq> 0"
  shows "idt s' = (idt s)[32 := SETGATE False GD_KT (isr_addr E TIM_ISR) 0] \<and> trap_hnd s' = (trap_hnd s)[32 := Some H_timer_handler]"
  using assms
  by (auto simp: timer_init_def register_handler_def unmask_irq_def Let_def split_beta IRQ_OFFSET_def IRQ_TIMER_def)

lemma syscall_init_tables:
  assumes "syscall_init E s = Inr s'" "length (idt s) = 256" "length (trap_hnd s) = 256" "isr_addr E SYS_CALL \<noteq> 0"
  shows "idt s' = (idt s)[48 := SETGATE True GD_KT (isr_addr E SYS_CALL) 3] \<and> trap_hnd s' = (trap_hnd s)[48 := Some H_syscall_handler]"
  using assms by (auto simp: syscall_init_def register_handler_def T_SYSCALL_def)

lemma boot_tables:
  assumes "length (idt s) = 256" "length (trap_hnd s) = 256" "\<And>e. isr_addr E e \<noteq> 0"
    "trap_init E s = Inr s1" "kbd_init E s1 = Inr s2" "timer_init E s2 = Inr s3" "syscall_init E s3 = Inr s4"
  shows "idt s4 = map (vector_gate E) [0..<256] \<and> trap_hnd s4 = map vector_handler [0..<256]"
proof -
  have 1: "idt s1 = (replicate 256 (gate0 E Default_ISR))[13 := gate0 E GPFLT, 12 := gate0 E STACK_ISR, 14 := gate0 E PGFLT]"
    "trap_hnd s1 = (replicate 256 None)[14 := Some H_page_fault_handler]"
    using assms(4) trap_init_result[OF assms(1,2,3)] by (auto simp: T_GPFLT_def T_STACK_def T_PGFLT_def)
  note 2 = kbd_init_tables[OF assms(5) _ _ assms(3)] and 3 = timer_init_tables[OF assms(6) _ _ assms(3)]
    and 4 = syscall_init_tables[OF assms(7) _ _ assms(3)]
  have "idt s4 = (idt s1)[33 := SETGATE False GD_KT (isr_addr E KBD_Input) 0, 32 := SETGATE False GD_KT (isr_addr E TIM_ISR) 0,
      48 := SETGATE True GD_KT (isr_addr E SYS_CALL) 3]"
    "trap_hnd s4 = (trap_hnd s1)[33 := Some H_kbd_intr, 32 := Some H_timer_handler, 48 := Some H_syscall_handler]"
    using 1 2 3 4 by simp_all
  then show ?thesis unfolding 1
    by (intro conjI nth_equalityI) (auto simp: nth_list_update vector_gate_def vector_isr_def vector_handler_def)
qed

text \<open>A vector without an entry point of its own leads to an access behind the table of handlers.\<close>

lemma default_isr_faults:
  assumes "length (trap_hnd s) = 256" "5 \<le> length stk"
  shows "alltraps E Default_ISR addr r es ds stk s = Inl Fault"
proof -
  obtain a b c d e rest where "stk = a # b # c # d # e # rest"
    using assms(2) by (cases stk; cases "tl stk"; cases "tl (tl stk)"; cases "tl (tl (tl stk))"; cases "tl (tl (tl (tl stk)))") auto
  then show ?thesis
    using assms(1)
    by (simp add: alltraps_def isr_push_def isr_num_def T_DEFAULT_def default_trap_handler_def trap_dispatch_def
        IRQ_OFFSET_def IRQ_SPURIOUS_def)
qed

section \<open>Typing of the whole state\<close>

definition kernel_typed :: "'f kernel_state \<Rightarrow> bool" where
  "kernel_typed s \<longleftrightarrow> task_typed s \<and> vfs_typed (kvfs s) \<and> length (idt s) = 256 \<and> length (trap_hnd s) = 256"

lemma task_frame_typed: "task_frame s s' \<Longrightarrow> kernel_typed s \<Longrightarrow> kernel_typed (s' :: 'f kernel_state)"
  by (cases s; cases s') (simp add: task_frame_def kernel_typed_def)

lemma set_con_typed:
  "set_con f s = Inr (v, s') \<Longrightarrow> kernel_typed s \<Longrightarrow> (\<And>c v c'. f c = Inr (v, c') \<Longrightarrow> con_frame c c') \<Longrightarrow> kernel_typed s'"
  by (auto simp: set_con_def rbind_Inr_iff kernel_typed_def vfs_typed_def table_raw_def con_frame_def task_typed_def)

lemma set_vfs_typed:
  "set_vfs f s = Inr (v, s') \<Longrightarrow> kernel_typed s \<Longrightarrow> (\<And>x v x'. f x = Inr (v, x') \<Longrightarrow> vfs_frame x x') \<Longrightarrow> kernel_typed s'"
  by (auto simp: set_vfs_def rbind_Inr_iff kernel_typed_def vfs_frame_def task_typed_def)

lemma do_puts_typed: "do_puts p n s = Inr s' \<Longrightarrow> kernel_typed s \<Longrightarrow> kernel_typed s'"
proof -
  assume k: "kernel_typed s" and "do_puts p n s = Inr s'"
  then obtain s1 s2 where s: "lock_console s = Inr s1" "unlock_console s2 = Inr s'"
    "kfor 0 (unat n) (\<lambda>i s. rbind (load_byte (p + of_nat i) s) (\<lambda>c.
       rbind (set_con (\<lambda>k. rbind (k_putch c k) (\<lambda>k. Inr ((), k))) s) (\<lambda>(_, s). Inr s))) s1 = Inr s2"
    by (auto simp: do_puts_def rbind_Inr_iff)
  have "kernel_typed s1 \<longrightarrow> kernel_typed s2"
    by (rule kfor_keeps[OF _ _ _ s(3)]) (auto simp: rbind_Inr_iff dest!: k_putch_frame elim!: set_con_typed)
  then show "kernel_typed s'"
    using k s(1,2) by (auto simp: lock_console_def unlock_console_def rbind_Inr_iff kernel_typed_def task_typed_def)
qed

lemma sys_read_typed:
  assumes "set_vfs (\<lambda>v. rbind (sys_read F (elmfat_ops F n) d nn len v) (\<lambda>(r, bs, v). Inr ((r, bs), v))) s = Inr (x, s1)"
    "store_bytes p bs s1 = Inr s'" "kernel_typed s"
  shows "kernel_typed s'"
proof -
  have "kernel_typed s1"
    by (rule set_vfs_typed[OF assms(1,3)]) (auto simp: rbind_Inr_iff dest: sys_files_frame)
  then show ?thesis by (rule task_frame_typed[OF mem_task_frame[OF store_bytes_frame[OF assms(2)]]])
qed

lemma sleep_typed:
  "set_task t f s = Inr s1 \<Longrightarrow> sched_yield s1 = Inr g \<Longrightarrow> kernel_typed s \<Longrightarrow> kernel_typed (flow_state g)"
  using set_task_frame sched_yield_frame task_frame_trans task_frame_typed by metis

lemma con_calls_frame:
  "k_getc c = Inr (v, c') \<Longrightarrow> con_frame c c'" "con_frame c (sys_settextcolor a b c)"
  by (auto simp: k_getc_def sys_settextcolor_def dest: cons_getc_frame)

lemma serve_typed:
  assumes "serve E c s = Inr f" "kernel_typed s"
  shows "kernel_typed (flow_state f)"
proof (cases "c = U_kill_self")
  case True
  then obtain pid g where g: "sys_kill pid s = Inr g" "f = (case g of Return _ s \<Rightarrow> Return 0 s | Resume r s \<Rightarrow> Resume r s)"
    using assms(1) by (auto simp: rbind_Inr_iff)
  have "kernel_typed (flow_state g)" by (rule task_frame_typed[OF sys_kill_frame[OF g(1)] assms(2)])
  with g(2) show ?thesis by (cases g) (auto simp: flow_state_def)
next
  case False
  with assms show ?thesis
    by (cases c)
      (auto simp: ret_def rbind_Inr_iff flow_state_def con_calls_frame elim!: set_vfs_typed set_con_typed
        elim: sys_read_typed do_puts_typed sleep_typed[unfolded flow_state_def] task_frame_typed[OF sys_fork_frame]
        dest: sys_files_frame sys_paths_frame con_calls_frame(1) dest!: sys_cls_frame)
qed

text \<open>The call a system call number stands for.\<close>

definition decode :: "u32 \<Rightarrow> u32 \<Rightarrow> u32 \<Rightarrow> u32 \<Rightarrow> user_call option" where
  "decode n a1 a2 a3 =
    (if n = SYS_fork then Some (U_fork)
     else if n = SYS_getc then Some (U_getc)
     else if n = SYS_puts then Some (U_puts a1 a2)
     else if n = SYS_getpid then Some (U_getpid)
     else if n = SYS_getcid then Some (U_getcid)
     else if n = SYS_sleep then Some (U_sleep a1)
     else if n = SYS_kill then Some (U_kill_self)
     else if n = SYS_get_num_free_page then Some (U_get_num_free_page)
     else if n = SYS_get_num_used_page then Some (U_get_num_used_page)
     else if n = SYS_get_ticks then Some (U_get_ticks)
     else if n = SYS_settextcolor then Some (U_settextcolor (ucast a1) (ucast a2))
     else if n = SYS_cls then Some (U_cls)
     else if n = SYS_open then Some (U_open a1 a2 a3)
     else if n = SYS_read then Some (U_read a1 a2 a3)
     else if n = SYS_write then Some (U_write a1 a2 a3)
     else if n = SYS_close then Some (U_close a1)
     else if n = SYS_lseek then Some (U_lseek a1 a2 a3)
     else if n = SYS_unlink then Some (U_unlink a1)
     else if n = SYS_ls then Some (U_ls a1)
     else if n = SYS_rm then Some (U_rm a1)
     else if n = SYS_touch then Some (U_touch a1)
     else None)"

lemma do_syscall_decode:
  "do_syscall E n a1 a2 a3 a4 a5 s = (case decode n a1 a2 a3 of None \<Rightarrow> Inr (Return (-1) s) | Some c \<Rightarrow> serve E c s)"
  by (simp add: do_syscall_def decode_def do_getc_def sys_get_ticks_def Let_def)

lemma syscall_handler_typed:
  assumes "syscall_handler E p s = Inr f" "kernel_typed s"
  shows "kernel_typed (flow_state f)"
proof -
  obtain n a1 a2 a3 a4 a5 fl where fl: "do_syscall E n a1 a2 a3 a4 a5 s = Inr fl"
    "(case fl of Resume g s \<Rightarrow> Inr (Resume g s) | Return v s \<Rightarrow>
       rbind (set_frame (tf_regs_update (reg_eax_update (\<lambda>_. word_of_int v))) p s) (\<lambda>(p, s). Inr (Return p s))) = Inr f"
    using assms(1) by (auto simp: syscall_handler_def rbind_Inr_iff Let_def)
  have "kernel_typed (flow_state fl)"
    using fl(1) serve_typed assms(2) by (auto simp: do_syscall_decode flow_state_def split: option.splits)
  then show ?thesis
    using fl(2)
    by (cases fl) (auto simp: flow_state_def rbind_Inr_iff set_frame_def split: tf_ptr.splits
        elim: task_frame_typed[OF set_task_frame])
qed

lemma call_handler_typed:
  assumes "call_handler E h p s = Inr f" "kernel_typed s"
  shows "kernel_typed (flow_state f)"
proof (cases h)
  case H_page_fault_handler
  then show ?thesis using assms(1) by (auto simp: call_handler_def page_fault_handler_def rbind_Inr_iff)
next
  case H_timer_handler
  then obtain g where g: "timer_handler (env_image E) s = Inr g" "f = (case g of Return _ s \<Rightarrow> Return p s | Resume g s \<Rightarrow> Resume g s)"
    using assms(1) by (auto simp: call_handler_def rbind_Inr_iff)
  have "kernel_typed (flow_state g)" by (rule task_frame_typed[OF timer_handler_frame[OF g(1)] assms(2)])
  with g(2) show ?thesis by (cases g) (auto simp: flow_state_def)
next
  case H_kbd_intr
  then show ?thesis
    using assms by (auto simp: call_handler_def rbind_Inr_iff flow_state_def kbd_intr_def elim!: set_con_typed dest!: cons_intr_frame)
next
  case H_syscall_handler
  then show ?thesis using assms syscall_handler_typed by (simp add: call_handler_def)
qed

lemma kprint_typed: "kprint fmt ap s = Inr s' \<Longrightarrow> kernel_typed s \<Longrightarrow> kernel_typed s'"
  by (auto simp: kprint_def rbind_Inr_iff elim!: set_con_typed dest: printk_frame)

lemma kprints_typed: "kprints ps s = Inr s' \<Longrightarrow> kernel_typed s \<Longrightarrow> kernel_typed s'"
  by (induction ps arbitrary: s) (auto simp: rbind_Inr_iff kprint_typed)

lemma print_trapframe_typed: "print_trapframe a b f s = Inr s' \<Longrightarrow> kernel_typed s \<Longrightarrow> kernel_typed s'"
  unfolding print_trapframe_def print_regs_def
  by (auto simp del: kprints.simps simp: rbind_Inr_iff split: if_splits dest!: kprint_typed kprints_typed)

lemma trap_typed:
  assumes "default_trap_handler E addr f s = Inr fl" "kernel_typed s"
  shows "kernel_typed (flow_state fl)"
proof (cases "tf_trapno f = of_nat (IRQ_OFFSET + IRQ_SPURIOUS)")
  case True
  then show ?thesis
    using assms
    by (auto simp: default_trap_handler_def trap_dispatch_def rbind_Inr_iff flow_state_def dest!: kprint_typed print_trapframe_typed)
next
  case False
  then obtain h where h: "aget (trap_hnd s) (unat (tf_trapno f)) = Inr (Some h)"
    using assms(1) by (auto simp: default_trap_handler_def trap_dispatch_def rbind_Inr_iff split: option.splits)
  with False assms(1) obtain p s1 g where g:
    "(if tf_cs f AND 3 = 3 then rbind (cur_task s) (\<lambda>t. rbind (set_task t (tf_update (\<lambda>_. f)) s) (\<lambda>s. Inr (OfTask t, s)))
      else Inr (OnStack f, s)) = Inr (p, s1)"
    "call_handler E h p s1 = Inr g" "(case g of Resume g s \<Rightarrow> Inr (Resume g s) | Return p s \<Rightarrow> rbind (get_frame p s) (\<lambda>g. Inr (Resume g s))) = Inr fl"
    by (auto simp: default_trap_handler_def trap_dispatch_def rbind_Inr_iff)
  have "kernel_typed s1"
    using g(1) assms(2) task_frame_typed[OF set_task_frame] by (auto simp: rbind_Inr_iff split: if_splits)
  with call_handler_typed[OF g(2)] g(3) show ?thesis by (cases g) (auto simp: flow_state_def rbind_Inr_iff)
qed

section \<open>Theorems\<close>

text \<open>A small machine: one task, running on the first of eight processors.\<close>

definition idle_cpu :: CpuInfo where
  "idle_cpu = \<lparr>cpu_id = 0, cpu_status = 0, cpu_task = None, cpu_rq = \<lparr>cnt = 0, rq = replicate 32 None\<rparr>, cpu_tss = zero_tss\<rparr>"

definition one_task_kernel :: "unit kernel_state" where
  "one_task_kernel = \<lparr>npages = 0, npages_basemem = 0, nextfree = 0, kern_pgdir = 0, pages = [], pages_kva = 0,
     page_free_list = None, num_free_pages = 0, page_lock = zero_lock, phys = \<lambda>_ _. 0, mmio_base = 0, tlb = \<lambda>_. None,
     hw_cpu = 0, hw_frames = (0, \<lambda>_. 0), tasks = (replicate 32 zero_task)[5 := zero_task\<lparr>task_id := 5, state := TASK_RUNNING\<rparr>],
     task_lock = zero_lock, cpus = (replicate 8 idle_cpu)[0 := idle_cpu\<lparr>cpu_task := Some 5, cpu_id := 3\<rparr>], ncpu = 1,
     bootcpu = 0, nextCPU = 0, gdt = gdt0, jiffies = 0, UTEXT_SZ = 0, UDATA_SZ = 0, UBSS_SZ = 0, URODATA_SZ = 0,
     cr3 = \<lambda>_. 0, tr = \<lambda>_. 0, ldtr = \<lambda>_. 0, gdtr = \<lambda>_. False, pic = pic0, io = [], kvfs = raw_vfs, console_lock = zero_lock,
     idt = replicate 256 (SETGATE True 0 0 0), trap_hnd = (replicate 256 None)[48 := Some H_syscall_handler],
     idtr = \<lambda>_. False, cr2 = \<lambda>_. 0, hw_eax = 0\<rparr>"

definition user0 :: user_image where
  "user0 = \<lparr>UTEXT_start = 0, UTEXT_end = 0, UDATA_start = 0, UDATA_end = 0, UBSS_start = 0, UBSS_end = 0,
     URODATA_start = 0, URODATA_end = 0, user_entry = 0, idle_entry = 0, tss_addr = \<lambda>_. 0\<rparr>"

definition empty_env :: "(unit, unit) kernel_env" where
  "empty_env = \<lparr>env_fat = empty_volume, env_ls = 0, env_image = image0, env_user = user0, isr_addr = \<lambda>_. 0xF0100000\<rparr>"

text \<open>C33. A system call through the \<open>int\<close> instruction does what its name says. When a user program
  calls a stub of the C library, the trap entry, the dispatcher and the decoding of the registers
  apply the kernel function of that name to the arguments the program gave; if that function
  returns, the program goes on with the result in \<open>%eax\<close> and every other register, segment,
  stack pointer and flag as they were, and if another task is chosen, that task goes on.\<close>

theorem syscall_contract:
  assumes "trap_hnd s ! T_SYSCALL = Some H_syscall_handler" "length (trap_hnd s) = 256" "cur_task s = Inr t"
    "t < length (tasks s)" "state (tasks s ! t) \<noteq> TASK_FREE" "low16 cs AND 3 = 3"
    "alltraps_frame (syscall_regs c r) es ds (isr_push SYS_CALL (eip # cs # eflags # esp # ss # stk)) = Inr f"
    "s0 = s\<lparr>tasks := (tasks s)[t := (tasks s ! t)\<lparr>tf := f\<rparr>]\<rparr>"
  shows "alltraps E SYS_CALL addr (syscall_regs c r) es ds (eip # cs # eflags # esp # ss # stk) s =
    (case serve E c s0 of
       Inl e \<Rightarrow> Inl e
     | Inr (Resume g s1) \<Rightarrow> Inr (g, s1)
     | Inr (Return v s1) \<Rightarrow>
         let g = f\<lparr>tf_regs := (syscall_regs c r)\<lparr>reg_eax := word_of_int v\<rparr>\<rparr> in
         Inr (g, s1\<lparr>tasks := (tasks s1)[t := (tasks s1 ! t)\<lparr>tf := g\<rparr>]\<rparr>))"
proof -
  have f: "tf_trapno f = of_nat T_SYSCALL" "tf_cs f = low16 cs" "tf_regs f = syscall_regs c r"
    using assms(7) by (auto simp: isr_push_def isr_num_def)
  have u: "tf_regs_update h f = f\<lparr>tf_regs := h (syscall_regs c r)\<rparr>" for h
    using f(3) by (cases f) simp
  show ?thesis
    using syscall_trap[OF assms(1-4) f(1) _ f(3) assms(5), of E addr] f(2) assms(6,7,8) u
    by (cases "serve E c s0") (auto simp: alltraps_def Let_def split: flow.splits)
qed

theorem syscall_contract_witness:
  "\<exists>f s'. alltraps empty_env SYS_CALL 0 (syscall_regs U_getpid zero_regs) 0x23 0x23 [0x800020, 0x1B, 0x202, 0xEEBFD000, 0x23] one_task_kernel
     = Inr (f, s') \<and> reg_eax (tf_regs f) = 5 \<and> tf_eip f = 0x800020 \<and> tf_esp f = 0xEEBFD000"
proof -
  let ?c = U_getpid and ?stk = "[0x800020, 0x1B, 0x202, 0xEEBFD000, 0x23] :: u32 list"
  obtain f where f: "alltraps_frame (syscall_regs ?c zero_regs) 0x23 0x23 (isr_push SYS_CALL ?stk) = Inr f" "tf_eip f = 0x800020" "tf_esp f = 0xEEBFD000"
    by (simp add: isr_push_def)
  have h: "trap_hnd one_task_kernel ! T_SYSCALL = Some H_syscall_handler" "length (trap_hnd one_task_kernel) = 256"
    "cur_task one_task_kernel = Inr 5" "5 < length (tasks one_task_kernel)" "state (tasks one_task_kernel ! 5) \<noteq> TASK_FREE" "low16 0x1B AND 3 = 3"
    by (simp_all add: one_task_kernel_def T_SYSCALL_def cur_task_def thiscpu_def nonnull_def low16_def)
  show ?thesis
    using syscall_contract[OF h f(1) refl, of empty_env 0] f(2,3)
    by (auto simp: one_task_kernel_def cur_task_def thiscpu_def nonnull_def Let_def)
qed

text \<open>C34. After the initialisation of the trap, keyboard, timer and system call modules every one of the
  256 gates is present, runs in the kernel's code segment and leads to an entry point of
  \<open>trap_entry.S\<close>; the only gate a user program may enter with the \<open>int\<close> instruction is that of the
  system calls; the timer and keyboard gates, and only these, turn interrupts off; and exactly the
  page fault, timer, keyboard and system call vectors have a handler.\<close>

theorem idt_gates:
  assumes "length (idt s) = 256" "length (trap_hnd s) = 256" "\<And>e. isr_addr E e \<noteq> 0"
    "trap_init E s = Inr s1" "kbd_init E s1 = Inr s2" "timer_init E s2 = Inr s3" "syscall_init E s3 = Inr s4" "v < 256"
  shows "let g = idt s4 ! v in gd_p g = 1 \<and> gd_sel g = GD_KT \<and> gate_offset g = isr_addr E (vector_isr v) \<and>
      (gd_dpl g = 3 \<longleftrightarrow> v = T_SYSCALL) \<and> (gd_type g = STS_IG32 \<longleftrightarrow> v = IRQ_OFFSET + IRQ_TIMER \<or> v = IRQ_OFFSET + IRQ_KBD) \<and>
      trap_hnd s4 ! v = vector_handler v"
proof -
  have "idt s4 ! v = vector_gate E v" "trap_hnd s4 ! v = vector_handler v"
    using boot_tables[OF assms(1-7)] assms(8) by simp_all
  then show ?thesis
    using gate_offset_SETGATE[of _ GD_KT "isr_addr E (vector_isr v)"]
    by (auto simp: Let_def vector_gate_def SETGATE_def T_SYSCALL_def IRQ_OFFSET_def IRQ_TIMER_def IRQ_KBD_def STS_IG32_def STS_TG32_def)
qed

theorem idt_gates_witness:
  "\<exists>s1 s2 s3 s4. trap_init empty_env one_task_kernel = Inr s1 \<and> kbd_init empty_env s1 = Inr s2 \<and> timer_init empty_env s2 = Inr s3 \<and>
     syscall_init empty_env s3 = Inr s4 \<and> gd_dpl (idt s4 ! 48) = 3 \<and> gd_dpl (idt s4 ! 14) \<noteq> 3"
proof -
  have l: "length (idt one_task_kernel) = 256" "length (trap_hnd one_task_kernel) = 256" "\<And>e. isr_addr empty_env e \<noteq> 0"
    by (simp_all add: one_task_kernel_def empty_env_def)
  obtain s1 where s1: "trap_init empty_env one_task_kernel = Inr s1" "length (idt s1) = 256" "length (trap_hnd s1) = 256"
    "kvfs s1 = raw_vfs"
    using trap_init_result[OF l] by (simp add: one_task_kernel_def)
  have "kb_pending blank_console = []" by (simp add: blank_console_def)
  then have "kbd_intr blank_console = Inr blank_console"
    by (simp add: kbd_intr_def cons_intr.simps[of blank_console] kbd_proc_data_def)
  then obtain s2 where s2: "kbd_init empty_env s1 = Inr s2" "length (idt s2) = 256" "length (trap_hnd s2) = 256"
    using s1(2-4) l(3)
    by (auto simp: kbd_init_def set_con_def raw_vfs_def register_handler_def unmask_irq_def split_beta Let_def IRQ_OFFSET_def IRQ_KBD_def)
  then obtain s3 where s3: "timer_init empty_env s2 = Inr s3" "length (idt s3) = 256" "length (trap_hnd s3) = 256"
    using l(3) by (auto simp: timer_init_def register_handler_def unmask_irq_def split_beta Let_def IRQ_OFFSET_def IRQ_TIMER_def)
  then obtain s4 where s4: "syscall_init empty_env s3 = Inr s4"
    using l(3) by (auto simp: syscall_init_def register_handler_def T_SYSCALL_def)
  show ?thesis
    using idt_gates[OF l s1(1) s2(1) s3(1) s4, of 48] idt_gates[OF l s1(1) s2(1) s3(1) s4, of 14] s1(1) s2(1) s3(1) s4
    by (simp add: Let_def T_SYSCALL_def)
qed


lemma one_task_kernel_typed: "kernel_typed one_task_kernel"
proof -
  have "vfs_typed raw_vfs" using raw_vfs_ok(1) by (simp add: vfs_typed_def con_typed_def raw_vfs_def blank_console_def)
  moreover have "task_typed one_task_kernel"
    by (auto simp: task_typed_def one_task_kernel_def NR_TASKS_def NCPU_def gdt0_def cpu_typed_def idle_cpu_def
        dest!: set_update_subset_insert[THEN subsetD])
  ultimately show ?thesis by (simp add: kernel_typed_def one_task_kernel_def)
qed


end
