(* ===== verification/Mp.thy ===== *)
theory Mp
  imports Kernel_Contract
begin

text \<open>
  Multiprocessor start-up: the search for the configuration tables of the firmware
  (\<^verbatim>\<open>kernel/mpconfig.c\<close>), the local APIC (\<^verbatim>\<open>kernel/lapic.c\<close>) and the processors it starts
  (\<open>boot_aps\<close> and \<open>mp_main\<close> of \<^verbatim>\<open>kernel/main.c\<close>).

  The global variables of these files that are not part of the kernel state are the record
  \<open>mp_vars\<close>. A pointer into the mapping of physical memory at \<open>KERNBASE\<close> is the physical address.
  What the APIC and the interrupt mode register answer is a parameter.
\<close>

section \<open>Constants and global variables\<close>

definition MPPROC_BOOT :: u8 where "MPPROC_BOOT = 0x02"
definition MPPROC :: u8 where "MPPROC = 0x00"
definition MPBUS :: u8 where "MPBUS = 0x01"
definition MPIOAPIC :: u8 where "MPIOAPIC = 0x02"
definition MPIOINTR :: u8 where "MPIOINTR = 0x03"
definition MPLINTR :: u8 where "MPLINTR = 0x04"
definition CPU_STARTED :: u32 where "CPU_STARTED = 1"

definition ENABLE :: u32 where "ENABLE = 0x100"
definition INIT :: u32 where "INIT = 0x500"
definition STARTUP :: u32 where "STARTUP = 0x600"
definition DELIVS :: u32 where "DELIVS = 0x1000"
definition ASSERT :: u32 where "ASSERT = 0x4000"
definition LEVEL :: u32 where "LEVEL = 0x8000"
definition BCAST :: u32 where "BCAST = 0x80000"
definition OTHERS :: u32 where "OTHERS = 0xC0000"
definition FIXED :: u32 where "FIXED = 0"
definition X1 :: u32 where "X1 = 0xB"
definition PERIODIC :: u32 where "PERIODIC = 0x20000"
definition MASKED :: u32 where "MASKED = 0x10000"

record mp_vars =
  ismp :: bool
  lapicaddr_v :: u32
  lapic_v :: u32
  mpentry_kstack :: u32

section \<open>The configuration tables (kernel/mpconfig.c)\<close>

definition phys_byte :: "u32 \<Rightarrow> 'a mem_state_scheme \<Rightarrow> u8" where
  "phys_byte pa s = ucast (drop_bit (8 * (unat pa mod 4)) (phys s (unat pa div 4096) (unat pa mod 4096 div 4)))"

definition phys_bytes :: "u32 \<Rightarrow> nat \<Rightarrow> 'a mem_state_scheme \<Rightarrow> u8 list" where
  "phys_bytes pa n s = map (\<lambda>i. phys_byte (pa + of_nat i) s) [0..<n]"

definition phys_half :: "u32 \<Rightarrow> 'a mem_state_scheme \<Rightarrow> u16" where
  "phys_half pa s = ucast (phys_byte pa s) OR push_bit 8 (ucast (phys_byte (pa + 1) s))"

definition phys_word :: "u32 \<Rightarrow> 'a mem_state_scheme \<Rightarrow> u32" where
  "phys_word pa s = ucast (phys_half pa s) OR push_bit 16 (ucast (phys_half (pa + 2) s))"

definition mp_sum :: "u8 list \<Rightarrow> u8" where
  "mp_sum bs = word_of_int (foldl (\<lambda>sum b. sum + uint b) 0 bs)"

text \<open>The loop of \<open>mpsearch1\<close> over \<open>n\<close> structures of 16 bytes.\<close>

fun mp_scan :: "nat \<Rightarrow> u32 \<Rightarrow> 'a mem_state_scheme \<Rightarrow> u32 option result" where
  "mp_scan 0 p s = Inr None"
| "mp_scan (Suc n) p s =
     rbind (memcmp (phys_bytes p 4 s) (bytes_of ''_MP_'') 4) (\<lambda>c.
     if c = 0 \<and> mp_sum (phys_bytes p 16 s) = 0 then Inr (Some p) else mp_scan n (p + 16) s)"

definition mpsearch1 :: "u32 \<Rightarrow> u32 \<Rightarrow> 'a mem_state_scheme \<Rightarrow> u32 option result" where
  "mpsearch1 a len s =
     rbind (KADDR a s) (\<lambda>_. rbind (KADDR (a + len) s) (\<lambda>_. mp_scan ((unat len + 15) div 16) a s))"

definition mpsearch :: "'a mem_state_scheme \<Rightarrow> u32 option result" where
  "mpsearch s =
     rbind (KADDR (push_bit 4 0x40) s) (\<lambda>_.
     let bda = push_bit 4 0x40; p = ucast (phys_half (bda + 0x0E) s) :: u32 in
     rbind (if p \<noteq> 0 then mpsearch1 (push_bit 4 p) 1024 s
            else mpsearch1 (ucast (phys_half (bda + 0x13) s) * 1024 - 1024) 1024 s) (\<lambda>mp.
     case mp of Some mp \<Rightarrow> Inr (Some mp) | None \<Rightarrow> mpsearch1 0xF0000 0x10000 s))"

text \<open>\<open>mpconfig\<close> returns the table and stores the floating pointer structure in \<open>pmp\<close>.\<close>

definition mpconfig :: "'f kernel_state \<Rightarrow> ((u32 \<times> u32) option \<times> 'f kernel_state) result" where
  "mpconfig s =
     rbind (mpsearch s) (\<lambda>mp.
     case mp of None \<Rightarrow> Inr (None, s)
     | Some mp \<Rightarrow>
       if phys_word (mp + 4) s = 0 \<or> phys_byte (mp + 11) s \<noteq> 0
       then rbind (kprint (line ''SMP: Default configurations not implemented'') [] s) (\<lambda>s. Inr (None, s))
       else
         let conf = phys_word (mp + 4) s; len = phys_half (conf + 4) s; version = phys_byte (conf + 6) s in
         rbind (KADDR conf s) (\<lambda>_.
         rbind (memcmp (phys_bytes conf 4 s) (bytes_of ''PCMP'') 4) (\<lambda>c.
         if c \<noteq> 0 then rbind (kprint (line ''SMP: Incorrect MP configuration table signature'') [] s) (\<lambda>s. Inr (None, s))
         else if mp_sum (phys_bytes conf (unat len) s) \<noteq> 0
         then rbind (kprint (line ''SMP: Bad MP configuration checksum'') [] s) (\<lambda>s. Inr (None, s))
         else if version \<noteq> 1 \<and> version \<noteq> 4
         then rbind (kprint (line ''SMP: Unsupported MP version %d'') [VWord (ucast version)] s) (\<lambda>s. Inr (None, s))
         else if mp_sum (phys_bytes (conf + ucast len) (unat (phys_half (conf + 40) s)) s) \<noteq> phys_byte (conf + 42) s
         then rbind (kprint (line ''SMP: Bad MP configuration extended checksum'') [] s) (\<lambda>s. Inr (None, s))
         else Inr (Some (conf, mp), s))))"

text \<open>The loop over the \<open>n\<close> remaining entries of the table.\<close>

fun mp_entries :: "nat \<Rightarrow> u32 \<Rightarrow> mp_vars \<times> 'f kernel_state \<Rightarrow> (mp_vars \<times> 'f kernel_state) result" where
  "mp_entries 0 p (v, s) = Inr (v, s)"
| "mp_entries (Suc n) p (v, s) =
     (let kind = phys_byte p s in
      if kind = MPPROC then
        let s = (if phys_byte (p + 3) s AND MPPROC_BOOT \<noteq> 0 then s\<lparr>bootcpu := ncpu s\<rparr> else s) in
        rbind (if ncpu s < NCPU
               then rbind (set_cpu (ncpu s) (cpu_id_update (\<lambda>_. of_nat (ncpu s))) s) (\<lambda>s. Inr (s\<lparr>ncpu := ncpu s + 1\<rparr>))
               else kprint (line ''SMP: too many CPUs, CPU %d disabled'') [VWord (ucast (phys_byte (p + 1) s))] s) (\<lambda>s.
        mp_entries n (p + 20) (v, s))
      else if kind = MPBUS \<or> kind = MPIOAPIC \<or> kind = MPIOINTR \<or> kind = MPLINTR then mp_entries n (p + 8) (v, s)
      else rbind (kprint (line ''mpinit: unknown config type %x'') [VWord (ucast kind)] s) (\<lambda>s. Inr (v\<lparr>ismp := False\<rparr>, s)))"

text \<open>\<open>imcr\<close> is what reading port \<open>0x23\<close> gives.\<close>

definition mp_init :: "u8 \<Rightarrow> mp_vars \<times> 'f kernel_state \<Rightarrow> (mp_vars \<times> 'f kernel_state) result" where
  "mp_init imcr = (\<lambda>(v, s).
     let s = s\<lparr>bootcpu := 0\<rparr> in
     rbind (mpconfig s) (\<lambda>(r, s).
     case r of None \<Rightarrow> Inr (v, s)
     | Some (conf, mp) \<Rightarrow>
       let v = v\<lparr>ismp := True, lapicaddr_v := phys_word (conf + 36) s\<rparr>; imcrp = phys_byte (mp + 12) s in
       rbind (mp_entries (unat (phys_half (conf + 34) s)) (conf + 44) (v, s)) (\<lambda>(v, s).
       rbind (set_cpu (bootcpu s) (cpu_status_update (\<lambda>_. CPU_STARTED)) s) (\<lambda>s.
       if \<not> ismp v then
         rbind (kprint (line ''SMP: configuration not found, SMP disabled'') [] (s\<lparr>ncpu := 1\<rparr>)) (\<lambda>s. Inr (v\<lparr>lapicaddr_v := 0\<rparr>, s))
       else
         rbind (aget (cpus s) (bootcpu s)) (\<lambda>c.
         rbind (kprint (line ''SMP: CPU %d found %d CPU(s)'') [VWord (ucast (cpu_id c)), VWord (of_nat (ncpu s))] s) (\<lambda>s.
         if imcrp \<noteq> 0 then
           rbind (kprint (line ''SMP: Setting IMCR to switch from PIC mode to symmetric I/O mode'') [] s) (\<lambda>s.
           Inr (v, s\<lparr>io := outb 0x23 (imcr OR 1) (outb 0x22 0x70 (io s))\<rparr>))
         else Inr (v, s)))))))"

section \<open>The local APIC (kernel/lapic.c)\<close>

text \<open>The loop that waits for the delivery of an interrupt: \<open>icr k\<close> is what the \<open>k\<close>-th read of the
  command register gives. It may run for ever.\<close>

partial_function (option) wait_delivery :: "(nat \<Rightarrow> u32) \<Rightarrow> nat \<Rightarrow> nat option" where
  "wait_delivery icr k = (if icr k AND DELIVS \<noteq> 0 then wait_delivery icr (k + 1) else Some (k + 1))"

declare wait_delivery.simps [code]

definition delivered :: "(nat \<Rightarrow> u32) \<Rightarrow> 's \<Rightarrow> 's result" where
  "delivered icr s = (case wait_delivery icr 0 of None \<Rightarrow> Inl Spin | Some _ \<Rightarrow> Inr s)"

text \<open>The register writes of \<open>lapic_init\<close>; \<open>boot\<close> tells whether this is the boot processor, \<open>ver\<close> is
  the version register.\<close>

definition lapic_setup :: "bool \<Rightarrow> u32 \<Rightarrow> iolog \<Rightarrow> iolog" where
  "lapic_setup boot ver l =
     (let l = lapicw LAPIC_SVR (ENABLE OR of_nat (IRQ_OFFSET + IRQ_SPURIOUS)) l;
          l = lapicw LAPIC_TDCR X1 l;
          l = lapicw LAPIC_TIMER (PERIODIC OR of_nat (IRQ_OFFSET + IRQ_TIMER)) l;
          l = lapicw LAPIC_TICR 10000000 l;
          l = (if \<not> boot then lapicw LAPIC_LINT0 MASKED l else l);
          l = lapicw LAPIC_LINT1 MASKED l;
          l = (if drop_bit 16 ver AND 0xFF \<ge> 4 then lapicw LAPIC_PCINT MASKED l else l);
          l = lapicw LAPIC_ERROR (of_nat (IRQ_OFFSET + IRQ_ERROR)) l;
          l = lapicw LAPIC_ESR 0 l;
          l = lapicw LAPIC_ESR 0 l;
          l = lapicw LAPIC_EOI 0 l;
          l = lapicw LAPIC_ICRHI 0 l in
      lapicw LAPIC_ICRLO (BCAST OR INIT OR LEVEL) l)"

definition lapic_init :: "u32 \<Rightarrow> (nat \<Rightarrow> u32) \<Rightarrow> mp_vars \<times> 'a task_state_scheme \<Rightarrow> (mp_vars \<times> 'a task_state_scheme) result" where
  "lapic_init ver icr = (\<lambda>(v, s).
     if lapicaddr_v v = 0 then Inr (v, s)
     else
       rbind (if lapic_v v = 0
              then rbind (mmio_map_region (lapicaddr_v v) 4096 s) (\<lambda>(p, s). Inr (v\<lparr>lapic_v := p\<rparr>, s))
              else Inr (v, s)) (\<lambda>(v, s).
       let s = s\<lparr>io := lapic_setup (hw_cpu s = bootcpu s) ver (io s)\<rparr> in
       rbind (delivered icr s) (\<lambda>s. Inr (v, s\<lparr>io := lapicw LAPIC_TPR 0 (io s)\<rparr>))))"

definition lapic_ipi :: "u32 \<Rightarrow> (nat \<Rightarrow> u32) \<Rightarrow> 'a task_state_scheme \<Rightarrow> 'a task_state_scheme result" where
  "lapic_ipi vector icr s = delivered icr (s\<lparr>io := lapicw LAPIC_ICRLO (OTHERS OR FIXED OR vector) (io s)\<rparr>)"

text \<open>The two 16-bit words of the warm reset vector, at physical address \<open>0x467\<close>.\<close>

definition store_phys :: "u32 \<Rightarrow> u8 \<Rightarrow> 'a mem_state_scheme \<Rightarrow> 'a mem_state_scheme" where
  "store_phys pa b s = (let f = unat pa div 4096; i = unat pa mod 4096 div 4 in
     s\<lparr>phys := (phys s)(f := (phys s f)(i := put_byte (unat pa mod 4) b (phys s f i)))\<rparr>)"

definition store_half :: "u32 \<Rightarrow> u16 \<Rightarrow> 'a mem_state_scheme \<Rightarrow> 'a mem_state_scheme" where
  "store_half pa w s = store_phys (pa + 1) (ucast (drop_bit 8 w)) (store_phys pa (ucast w) s)"

definition lapic_startap :: "u8 \<Rightarrow> u32 \<Rightarrow> 'a task_state_scheme \<Rightarrow> 'a task_state_scheme result" where
  "lapic_startap apicid addr s =
     (let s = s\<lparr>io := outb (IO_RTC + 1) 0x0A (outb IO_RTC 0xF (io s))\<rparr>; wrv = push_bit 4 0x40 OR 0x67 in
      rbind (KADDR wrv s) (\<lambda>_.
      let s = store_half (wrv + 2) (ucast (drop_bit 4 addr)) (store_half wrv 0 s);
          hi = push_bit 24 (ucast apicid); start = STARTUP OR drop_bit 12 addr;
          l = lapicw LAPIC_ICRHI hi (io s);
          l = lapicw LAPIC_ICRLO (INIT OR LEVEL OR ASSERT) l;
          l = lapicw LAPIC_ICRLO (INIT OR LEVEL) l;
          l = lapicw LAPIC_ICRLO start (lapicw LAPIC_ICRHI hi l);
          l = lapicw LAPIC_ICRLO start (lapicw LAPIC_ICRHI hi l) in
      Inr (s\<lparr>io := l\<rparr>)))"

section \<open>Starting the other processors (kernel/main.c)\<close>

text \<open>The addresses of the image once the APIC is known.\<close>

definition smp_image :: "('f, 'd) kernel_env \<Rightarrow> mp_vars \<Rightarrow> kernel_image" where
  "smp_image E v = (env_image E)\<lparr>lapic := lapic_v v, lapicaddr := lapicaddr_v v\<rparr>"

text \<open>The end of \<open>kernel_main\<close> and \<open>mp_main\<close>: the address space of the current task is loaded, and
  \<open>iret\<close> enters user mode with the instruction and stack pointers of its frame.\<close>

definition enter_user :: "'a task_state_scheme \<Rightarrow> ((u32 \<times> u32) \<times> 'a task_state_scheme) result" where
  "enter_user s =
     rbind (cur_task s) (\<lambda>t. rbind (aget (tasks s) t) (\<lambda>T.
     case pgdir T of None \<Rightarrow> Inl (Panic ''PADDR called with invalid kva'')
     | Some d \<Rightarrow> Inr ((tf_eip (tf T), tf_esp (tf T)), lcr3 (page2pa d) s)))"

text \<open>\<open>mp_main\<close> up to the announcement that the processor has started.\<close>

definition mp_main_setup ::
    "('f, 'd) kernel_env \<Rightarrow> u32 \<Rightarrow> (nat \<Rightarrow> u32) \<Rightarrow> mp_vars \<times> 'f kernel_state \<Rightarrow> (mp_vars \<times> 'f kernel_state) result" where
  "mp_main_setup E ver icr = (\<lambda>(v, s).
     let s = lcr3 (page2pa (kern_pgdir s)) s in
     rbind (kprint (line ''SMP: CPU %d starting'') [VWord (of_nat (hw_cpu s))] s) (\<lambda>s.
     rbind (lapic_init ver icr (v, s)) (\<lambda>(v, s).
     rbind (task_init_percpu (smp_image E v) (env_user E) s) (\<lambda>s.
     let s = s\<lparr>idtr := (idtr s)(hw_cpu s := True)\<rparr> in
     rbind (set_cpu (hw_cpu s) (cpu_status_update (\<lambda>_. CPU_STARTED)) s) (\<lambda>s. Inr (v, s))))))"

definition mp_main ::
    "('f, 'd) kernel_env \<Rightarrow> u32 \<Rightarrow> (nat \<Rightarrow> u32) \<Rightarrow> mp_vars \<times> 'f kernel_state \<Rightarrow> ((u32 \<times> u32) \<times> mp_vars \<times> 'f kernel_state) result" where
  "mp_main E ver icr vs = rbind (mp_main_setup E ver icr vs) (\<lambda>(v, s). rbind (enter_user s) (\<lambda>(u, s). Inr (u, v, s)))"

fun store_code :: "u32 \<Rightarrow> u8 list \<Rightarrow> 'a mem_state_scheme \<Rightarrow> 'a mem_state_scheme" where
  "store_code pa [] s = s"
| "store_code pa (b # bs) s = store_code (pa + 1) bs (store_phys pa b s)"

text \<open>One iteration of \<open>boot_aps\<close>. While the boot processor spins, the started one runs \<open>mp_main\<close>; it
  is the processor whose APIC has the number the start-up interrupt was sent to.\<close>

definition boot_ap ::
    "('f, 'd) kernel_env \<Rightarrow> u32 \<Rightarrow> (nat \<Rightarrow> u32) \<Rightarrow> nat \<Rightarrow> mp_vars \<times> 'f kernel_state \<Rightarrow> (mp_vars \<times> 'f kernel_state) result" where
  "boot_ap E ver icr i = (\<lambda>(v, s).
     rbind (aget (cpus s) i) (\<lambda>c. rbind (aget (cpus s) (bootcpu s)) (\<lambda>b.
     if cpu_id c = cpu_id b then Inr (v, s)
     else
       let v = v\<lparr>mpentry_kstack := percpu_kstack (env_image E) i + KSTKSIZE\<rparr>; me = hw_cpu s in
       rbind (lapic_startap (cpu_id c) MPENTRY_PADDR s) (\<lambda>s.
       rbind (mp_main_setup E ver icr (v, s\<lparr>hw_cpu := unat (cpu_id c)\<rparr>)) (\<lambda>(v, s).
       let s = s\<lparr>hw_cpu := me\<rparr> in
       rbind (aget (cpus s) i) (\<lambda>c. if cpu_status c = CPU_STARTED then Inr (v, s) else Inl Spin))))))"

definition boot_aps ::
    "('f, 'd) kernel_env \<Rightarrow> u8 list \<Rightarrow> u32 \<Rightarrow> (nat \<Rightarrow> u32) \<Rightarrow> mp_vars \<times> 'f kernel_state \<Rightarrow> (mp_vars \<times> 'f kernel_state) result" where
  "boot_aps E mpentry ver icr = (\<lambda>(v, s).
     rbind (KADDR MPENTRY_PADDR s) (\<lambda>_.
     let s = store_code MPENTRY_PADDR mpentry s in
     kfor 0 (ncpu s) (boot_ap E ver icr) (v, s)))"

section \<open>What the search finds\<close>

definition mp_valid :: "u32 \<Rightarrow> 'a mem_state_scheme \<Rightarrow> bool" where
  "mp_valid p s \<longleftrightarrow> phys_bytes p 4 s = bytes_of ''_MP_'' \<and> mp_sum (phys_bytes p 16 s) = 0"

lemma length_phys_bytes [simp]: "length (phys_bytes p n s) = n"
  by (simp add: phys_bytes_def)

lemma memcmp_equal:
  assumes "length a = n" "length b = n"
  shows "\<exists>c. memcmp_loop a b n = Inr c \<and> (c = 0 \<longleftrightarrow> a = b)"
  using assms
proof (induction n arbitrary: a b)
  case (Suc n)
  then obtain x a' y b' where "a = x # a'" "b = y # b'" by (metis length_Suc_conv)
  with Suc show ?case by (auto simp: byte_uint)
qed simp

lemma memcmp4: "length a = 4 \<Longrightarrow> length b = 4 \<Longrightarrow> \<exists>c. memcmp a b 4 = Inr c \<and> (c = 0 \<longleftrightarrow> a = b)"
  using memcmp_equal[of a 4 b] by (simp add: memcmp_def)

lemma length_sigs [simp]: "length (bytes_of ''_MP_'') = 4" "length (bytes_of ''PCMP'') = 4"
  by (simp_all add: bytes_of_def)

lemma mp_scan_first:
  "mp_scan n p s = Inr (map_option (\<lambda>k. p + 16 * of_nat k) (List.find (\<lambda>k. mp_valid (p + 16 * of_nat k) s) [0..<n]))"
proof (induction n arbitrary: p)
  case (Suc n)
  obtain c where c: "memcmp (phys_bytes p 4 s) (bytes_of ''_MP_'') 4 = Inr c" "c = 0 \<longleftrightarrow> phys_bytes p 4 s = bytes_of ''_MP_''"
    using memcmp4[of "phys_bytes p 4 s" "bytes_of ''_MP_''"] by auto
  have up: "[0..<Suc n] = 0 # map Suc [0..<n]" by (simp add: upt_conv_Cons map_Suc_upt del: upt_Suc)
  have fm: "List.find P (map f xs) = map_option f (List.find (P \<circ> f) xs)" for P :: "nat \<Rightarrow> bool" and f :: "nat \<Rightarrow> nat" and xs
    by (induction xs) auto
  have eq: "p + 16 + 16 * of_nat k = p + 16 * of_nat (Suc k)" for k :: nat by (simp add: algebra_simps)
  show ?case
  proof (cases "mp_valid p s")
    case True
    then show ?thesis using c by (simp add: up mp_valid_def del: upt_Suc)
  next
    case False
    then have "mp_scan (Suc n) p s = mp_scan n (p + 16) s" using c by (auto simp: mp_valid_def)
    also have "\<dots> = Inr (map_option (\<lambda>k. p + 16 * of_nat (Suc k)) (List.find (\<lambda>k. mp_valid (p + 16 * of_nat (Suc k)) s) [0..<n]))"
      unfolding Suc.IH eq by simp
    finally show ?thesis using False unfolding up by (simp add: fm o_def option.map_comp del: upt_Suc mp_scan.simps)
  qed
qed simp

section \<open>What the tables say\<close>

datatype mp_entry = Proc u8 bool | Other u8

text \<open>The entries \<open>es\<close> are in memory at \<open>p\<close>.\<close>

fun entries_at :: "u32 \<Rightarrow> mp_entry list \<Rightarrow> 'a mem_state_scheme \<Rightarrow> bool" where
  "entries_at p [] s \<longleftrightarrow> True"
| "entries_at p (Proc apicid boot # es) s \<longleftrightarrow> phys_byte p s = 0 \<and> phys_byte (p + 1) s = apicid \<and>
     (phys_byte (p + 3) s AND 2 \<noteq> 0 \<longleftrightarrow> boot) \<and> entries_at (p + 20) es s"
| "entries_at p (Other k # es) s \<longleftrightarrow> k \<in> {1, 2, 3, 4} \<and> phys_byte p s = k \<and> entries_at (p + 8) es s"

fun nprocs :: "mp_entry list \<Rightarrow> nat" where
  "nprocs [] = 0"
| "nprocs (Proc _ _ # es) = Suc (nprocs es)"
| "nprocs (Other _ # es) = nprocs es"

text \<open>The number of the last processor marked as boot processor, counting from \<open>n\<close>.\<close>

fun boot_index :: "nat \<Rightarrow> nat \<Rightarrow> mp_entry list \<Rightarrow> nat" where
  "boot_index b n [] = b"
| "boot_index b n (Proc _ boot # es) = boot_index (if boot then n else b) (Suc n) es"
| "boot_index b n (Other _ # es) = boot_index b n es"

fun number_cpus :: "nat \<Rightarrow> nat \<Rightarrow> CpuInfo list \<Rightarrow> CpuInfo list" where
  "number_cpus n 0 cs = cs"
| "number_cpus n (Suc k) cs = number_cpus (Suc n) k (cs[n := (cs ! n)\<lparr>cpu_id := of_nat n\<rparr>])"

lemma phys_byte_cong: "phys s' = phys s \<Longrightarrow> phys_byte p s' = phys_byte p s"
  by (simp add: phys_byte_def)

lemma entries_at_cong: "phys s' = phys s \<Longrightarrow> entries_at p es s' = entries_at p es s"
proof (induction es arbitrary: p)
  case (Cons e es)
  then show ?case using phys_byte_cong[OF Cons.prems] by (cases e) simp_all
qed simp

lemma mp_entries_all:
  assumes "entries_at p es s" "ncpu s + nprocs es \<le> NCPU" "length (cpus s) = NCPU"
  shows "mp_entries (length es) p (v, s) = Inr (v, s\<lparr>ncpu := ncpu s + nprocs es, bootcpu := boot_index (bootcpu s) (ncpu s) es,
    cpus := number_cpus (ncpu s) (nprocs es) (cpus s)\<rparr>)"
  using assms
proof (induction es arbitrary: p s)
  case (Cons e es)
  show ?case
  proof (cases e)
    case (Proc a b)
    let ?s = "s\<lparr>bootcpu := if b then ncpu s else bootcpu s, cpus := (cpus s)[ncpu s := (cpus s ! ncpu s)\<lparr>cpu_id := of_nat (ncpu s)\<rparr>], ncpu := ncpu s + 1\<rparr>"
    have f: "phys_byte p s = MPPROC" "phys_byte (p + 3) s AND MPPROC_BOOT \<noteq> 0 \<longleftrightarrow> b" "ncpu s < NCPU" "ncpu s < length (cpus s)"
      using Cons.prems Proc by (simp_all add: MPPROC_def MPPROC_BOOT_def)
    have "mp_entries (length (e # es)) p (v, s) = mp_entries (length es) (p + 20) (v, ?s)"
      by (cases b) (use f in \<open>simp_all add: Let_def set_cpu_def\<close>)
    moreover have "entries_at (p + 20) es ?s" using Cons.prems(1) Proc entries_at_cong[of ?s s] by simp
    ultimately show ?thesis using Cons.IH[of "p + 20" ?s] Cons.prems(2,3) Proc by simp
  next
    case (Other k)
    then have "mp_entries (length (e # es)) p (v, s) = mp_entries (length es) (p + 8) (v, s)"
      using Cons.prems(1) by (auto simp: Let_def MPPROC_def MPBUS_def MPIOAPIC_def MPIOINTR_def MPLINTR_def)
    then show ?thesis using Cons.IH[of "p + 8" s] Cons.prems Other by simp
  qed
qed simp

lemma number_cpus_nth:
  assumes "n + k \<le> length cs" "i < length cs"
  shows "length (number_cpus n k cs) = length cs \<and>
    number_cpus n k cs ! i = (if n \<le> i \<and> i < n + k then (cs ! i)\<lparr>cpu_id := of_nat i\<rparr> else cs ! i)"
  using assms
proof (induction k arbitrary: n cs)
  case (Suc k)
  then show ?case by (auto simp: nth_list_update)
qed auto

lemma boot_index_less: "b < n + nprocs es \<Longrightarrow> boot_index b n es < n + nprocs es"
proof (induction b n es rule: boot_index.induct)
  case (2 b n a boot es)
  then show ?case by (cases boot; cases "b < n") auto
qed simp_all

text \<open>Printing on a screen that is in order succeeds and changes nothing but the console.\<close>

lemma kprint_ok:
  assumes "screen_ok (vcon (kvfs s))" "vprintfmt emit fmt ap [] = Inr out"
  obtains c where "kprint fmt ap s = Inr (s\<lparr>kvfs := (kvfs s)\<lparr>vcon := c\<rparr>\<rparr>)" "screen_ok c"
  using printk_screen[OF assms] that by (auto simp: kprint_def set_con_def)

text \<open>Correct tables: a floating pointer structure \<open>mp\<close> the search finds, and a configuration table
  \<open>conf\<close> with the entries \<open>es\<close>.\<close>

definition mp_tables :: "u32 \<Rightarrow> u32 \<Rightarrow> mp_entry list \<Rightarrow> 'a mem_state_scheme \<Rightarrow> bool" where
  "mp_tables mp conf es s \<longleftrightarrow>
     mpsearch s = Inr (Some mp) \<and> phys_word (mp + 4) s = conf \<and> conf \<noteq> 0 \<and> phys_byte (mp + 11) s = 0 \<and> PGNUM conf < npages s \<and>
     phys_bytes conf 4 s = bytes_of ''PCMP'' \<and> mp_sum (phys_bytes conf (unat (phys_half (conf + 4) s)) s) = 0 \<and>
     phys_byte (conf + 6) s \<in> {1, 4} \<and>
     mp_sum (phys_bytes (conf + ucast (phys_half (conf + 4) s)) (unat (phys_half (conf + 40) s)) s) = phys_byte (conf + 42) s \<and>
     unat (phys_half (conf + 34) s) = length es \<and> entries_at (conf + 44) es s"

lemma mpconfig_tables:
  assumes "mp_tables mp conf es s"
  shows "mpconfig s = Inr (Some (conf, mp), s)"
proof -
  obtain c where c: "memcmp (phys_bytes conf 4 s) (bytes_of ''PCMP'') 4 = Inr c" "c = 0"
    using memcmp4[of "phys_bytes conf 4 s" "bytes_of ''PCMP''"] assms by (auto simp: mp_tables_def)
  then show ?thesis using assms by (auto simp: mpconfig_def mp_tables_def KADDR_def)
qed

lemma mp_cong:
  assumes "phys s' = phys s" "npages s' = npages s"
  shows "mp_tables mp conf es s' = mp_tables mp conf es s" "phys_word p s' = phys_word p s" "phys_byte p s' = phys_byte p s"
    "phys_half p s' = phys_half p s"
proof -
  show b: "phys_byte p s' = phys_byte p s" for p using phys_byte_cong[OF assms(1)] .
  show h: "phys_half p s' = phys_half p s" for p by (simp add: phys_half_def b)
  show w: "phys_word p s' = phys_word p s" for p by (simp add: phys_word_def h)
  have l: "phys_bytes p n s' = phys_bytes p n s" for p n by (simp add: phys_bytes_def b)
  have "mp_scan n p s' = mp_scan n p s" for n p by (induction n arbitrary: p) (simp_all add: l cong: if_cong)
  moreover have k: "KADDR p s' = KADDR p s" for p using assms(2) by (simp add: KADDR_def)
  ultimately have "mpsearch1 a n s' = mpsearch1 a n s" for a n by (simp add: mpsearch1_def)
  then have "mpsearch s' = mpsearch s" by (simp add: mpsearch_def h k Let_def cong: if_cong)
  then show "mp_tables mp conf es s' = mp_tables mp conf es s"
    using entries_at_cong[OF assms(1)] assms(2) by (simp add: mp_tables_def w b h l)
qed

section \<open>Waiting for the APIC\<close>

lemma wait_delivery_ends: "icr m AND DELIVS = 0 \<Longrightarrow> k \<le> m \<Longrightarrow> wait_delivery icr k \<noteq> None"
proof (induction "m - k" arbitrary: k)
  case 0
  then show ?case by (subst wait_delivery.simps) simp
next
  case (Suc n)
  then have "wait_delivery icr (Suc k) \<noteq> None" by (cases "k = m") auto
  then show ?case by (subst wait_delivery.simps) auto
qed

lemma wait_delivery_reads: "wait_delivery icr k = Some n \<Longrightarrow> \<exists>m. icr m AND DELIVS = 0"
proof (induction rule: wait_delivery.raw_induct[rotated 1, consumes 1])
  case (1 wd icr k n)
  then show ?case by (auto split: if_splits)
qed

lemma delivered_iff: "delivered icr s = (if \<exists>m. icr m AND DELIVS = 0 then Inr s else Inl Spin)"
  using wait_delivery_ends[of icr _ 0] wait_delivery_reads[of icr 0] by (auto simp: delivered_def split: option.splits)

section \<open>Theorems\<close>


text \<open>Tables of a machine with one processor, in the extended BIOS data area at \<open>0x9FC00\<close>.\<close>

definition rom_words :: "u32 list" where
  "rom_words = [0x5F504D5F, 0x0009FC10, 0x008B0401, 0, 0x504D4350, 0x8F040040, 0, 0, 0, 0, 0, 0, 0x00010000, 0xFEE00000, 0, 0x03140700, 0, 0, 0, 0]"

definition rom_phys :: "nat \<Rightarrow> nat \<Rightarrow> u32" where
  "rom_phys f i = (if f = 0 \<and> i = 259 then 0x9FC00000 else if f = 159 \<and> 768 \<le> i \<and> i < 788 then rom_words ! (i - 768) else 0)"

definition rom_kernel :: "unit kernel_state" where
  "rom_kernel = one_task_kernel\<lparr>phys := rom_phys, npages := 1024, ncpu := 0\<rparr>"

lemma rom_kernel_mem: "phys rom_kernel = rom_phys" "npages rom_kernel = 1024" by (simp_all add: rom_kernel_def)

lemmas rom_eval = phys_bytes_def phys_byte_def phys_half_def phys_word_def rom_kernel_mem rom_phys_def rom_words_def

lemma rom_valid: "mp_valid 0x9FC00 rom_kernel"
  by (simp add: mp_valid_def mp_sum_def rom_eval upt_rec bytes_of_def)

lemma rom_search: "mpsearch rom_kernel = Inr (Some 0x9FC00)"
proof -
  have "phys_half 0x40E rom_kernel = 0x9FC0" by (simp add: rom_eval)
  moreover have "mp_scan 64 0x9FC00 rom_kernel = Inr (Some 0x9FC00)"
    using rom_valid unfolding mp_scan_first by (simp add: upt_conv_Cons del: upt_Suc)
  ultimately show ?thesis by (simp add: mpsearch_def mpsearch1_def KADDR_def PGNUM_def rom_kernel_mem Let_def)
qed

lemma rom_tables: "mp_tables 0x9FC00 0x9FC10 [Proc 7 True] rom_kernel"
proof -
  have "phys_bytes 0x9FC10 4 rom_kernel = bytes_of ''PCMP''" by (simp add: rom_eval upt_rec bytes_of_def)
  moreover have h: "phys_half 0x9FC14 rom_kernel = 64" "phys_half 0x9FC32 rom_kernel = 1" "phys_half 0x9FC38 rom_kernel = 0"
    "phys_word 0x9FC04 rom_kernel = 0x9FC10" "phys_byte 0x9FC0B rom_kernel = 0" "phys_byte 0x9FC16 rom_kernel = 4" "phys_byte 0x9FC3A rom_kernel = 0"
    by (simp_all add: rom_eval)
  moreover have "mp_sum (phys_bytes 0x9FC10 64 rom_kernel) = 0" by (simp add: mp_sum_def rom_eval upt_rec)
  moreover have "mp_sum (phys_bytes p 0 rom_kernel) = 0" for p by (simp add: mp_sum_def phys_bytes_def)
  moreover have "entries_at 0x9FC3C [Proc 7 True] rom_kernel" by (simp add: rom_eval)
  ultimately show ?thesis using rom_search by (simp add: mp_tables_def PGNUM_def rom_kernel_mem)
qed




end
