(* ===== verification/Disk.thy ===== *)
theory Disk
  imports Console
begin

text \<open>
  The disk driver (\<^verbatim>\<open>kernel/drv/disk.c\<close>) and the interface it gives to the file system module
  (\<^verbatim>\<open>kernel/fs/diskio.c\<close>).

  The controller behind the ports is a parameter: a record of what reading and writing a port does
  to its state \<open>'d\<close>. The buffer an address \<open>edi\<close> points to is a list of bytes. A status register that
  never becomes ready makes the driver wait for ever.
\<close>

section \<open>Ports and driver state (kernel/drv/disk.h)\<close>

record 'd ports =
  p_inb :: "u16 \<Rightarrow> 'd \<Rightarrow> u8 \<times> 'd"
  p_outb :: "u16 \<Rightarrow> u8 \<Rightarrow> 'd \<Rightarrow> 'd"
  p_inw :: "u16 \<Rightarrow> 'd \<Rightarrow> u16 \<times> 'd"
  p_outw :: "u16 \<Rightarrow> u16 \<Rightarrow> 'd \<Rightarrow> 'd"
  p_inl :: "u16 \<Rightarrow> 'd \<Rightarrow> u32 \<times> 'd"

definition ATA_SR_BSY :: u8 where "ATA_SR_BSY = 0x80"
definition ATA_SR_DF :: u8 where "ATA_SR_DF = 0x20"
definition ATA_SR_DRQ :: u8 where "ATA_SR_DRQ = 0x08"
definition ATA_SR_ERR :: u8 where "ATA_SR_ERR = 0x01"

definition ATA_ER_BBK :: u8 where "ATA_ER_BBK = 0x80"
definition ATA_ER_UNC :: u8 where "ATA_ER_UNC = 0x40"
definition ATA_ER_MC :: u8 where "ATA_ER_MC = 0x20"
definition ATA_ER_IDNF :: u8 where "ATA_ER_IDNF = 0x10"
definition ATA_ER_MCR :: u8 where "ATA_ER_MCR = 0x08"
definition ATA_ER_ABRT :: u8 where "ATA_ER_ABRT = 0x04"
definition ATA_ER_TK0NF :: u8 where "ATA_ER_TK0NF = 0x02"
definition ATA_ER_AMNF :: u8 where "ATA_ER_AMNF = 0x01"

definition ATA_CMD_READ_PIO :: u8 where "ATA_CMD_READ_PIO = 0x20"
definition ATA_CMD_READ_PIO_EXT :: u8 where "ATA_CMD_READ_PIO_EXT = 0x24"
definition ATA_CMD_WRITE_PIO :: u8 where "ATA_CMD_WRITE_PIO = 0x30"
definition ATA_CMD_WRITE_PIO_EXT :: u8 where "ATA_CMD_WRITE_PIO_EXT = 0x34"
definition ATA_CMD_CACHE_FLUSH :: u8 where "ATA_CMD_CACHE_FLUSH = 0xE7"
definition ATA_CMD_CACHE_FLUSH_EXT :: u8 where "ATA_CMD_CACHE_FLUSH_EXT = 0xEA"
definition ATA_CMD_IDENTIFY_PACKET :: u8 where "ATA_CMD_IDENTIFY_PACKET = 0xA1"
definition ATA_CMD_IDENTIFY :: u8 where "ATA_CMD_IDENTIFY = 0xEC"

definition ATA_IDENT_DEVICETYPE :: nat where "ATA_IDENT_DEVICETYPE = 0"
definition ATA_IDENT_MODEL :: nat where "ATA_IDENT_MODEL = 54"
definition ATA_IDENT_CAPABILITIES :: nat where "ATA_IDENT_CAPABILITIES = 98"
definition ATA_IDENT_MAX_LBA :: nat where "ATA_IDENT_MAX_LBA = 120"
definition ATA_IDENT_COMMANDSETS :: nat where "ATA_IDENT_COMMANDSETS = 164"
definition ATA_IDENT_MAX_LBA_EXT :: nat where "ATA_IDENT_MAX_LBA_EXT = 200"

definition ATA_REG_DATA :: u8 where "ATA_REG_DATA = 0x00"
definition ATA_REG_ERROR :: u8 where "ATA_REG_ERROR = 0x01"
definition ATA_REG_SECCOUNT0 :: u8 where "ATA_REG_SECCOUNT0 = 0x02"
definition ATA_REG_LBA0 :: u8 where "ATA_REG_LBA0 = 0x03"
definition ATA_REG_LBA1 :: u8 where "ATA_REG_LBA1 = 0x04"
definition ATA_REG_LBA2 :: u8 where "ATA_REG_LBA2 = 0x05"
definition ATA_REG_HDDEVSEL :: u8 where "ATA_REG_HDDEVSEL = 0x06"
definition ATA_REG_COMMAND :: u8 where "ATA_REG_COMMAND = 0x07"
definition ATA_REG_STATUS :: u8 where "ATA_REG_STATUS = 0x07"
definition ATA_REG_SECCOUNT1 :: u8 where "ATA_REG_SECCOUNT1 = 0x08"
definition ATA_REG_LBA3 :: u8 where "ATA_REG_LBA3 = 0x09"
definition ATA_REG_LBA4 :: u8 where "ATA_REG_LBA4 = 0x0A"
definition ATA_REG_LBA5 :: u8 where "ATA_REG_LBA5 = 0x0B"
definition ATA_REG_CONTROL :: u8 where "ATA_REG_CONTROL = 0x0C"
definition ATA_REG_ALTSTATUS :: u8 where "ATA_REG_ALTSTATUS = 0x0C"
definition ATA_PRIMARY :: nat where "ATA_PRIMARY = 0"
definition ATA_SECONDARY :: nat where "ATA_SECONDARY = 1"
definition ATA_READ :: u8 where "ATA_READ = 0"
definition ATA_WRITE :: u8 where "ATA_WRITE = 1"
definition IDE_ATA :: u16 where "IDE_ATA = 0"
definition IDE_ATAPI :: u16 where "IDE_ATAPI = 1"

record ide_device =
  Reserved :: u8
  Channel :: u8
  Drive :: u8
  Type :: u16
  Signature :: u16
  Capabilities :: u16
  CommandSets :: u32
  Size :: u32
  Model :: "u8 list"

record IDEChannelRegisters =
  ch_base :: u16
  ch_ctrl :: u16
  ch_bmide :: u16
  nIEN :: u8

record 'd ide_state =
  ide_devices :: "ide_device list"
  channels :: "IDEChannelRegisters list"
  ide_buf :: "u8 list"
  ide_irq_invoked :: u8
  ide_status :: u8
  disk_inited :: bool       \<comment> \<open>\<open>init\<close> of \<open>disk_init\<close>\<close>
  ide_con :: console
  hw :: 'd

definition ide_printk :: "u8 list \<Rightarrow> vararg list \<Rightarrow> 'd ide_state \<Rightarrow> 'd ide_state result" where
  "ide_printk fmt ap s = rbind (printk fmt ap (ide_con s)) (\<lambda>(_, c). Inr (s\<lparr>ide_con := c\<rparr>))"

definition set_dev :: "nat \<Rightarrow> (ide_device \<Rightarrow> ide_device) \<Rightarrow> 'd ide_state \<Rightarrow> 'd ide_state result" where
  "set_dev i f s = rbind (aget (ide_devices s) i) (\<lambda>d. Inr (s\<lparr>ide_devices := (ide_devices s)[i := f d]\<rparr>))"

section \<open>Registers of a channel\<close>

text \<open>The port of a register, none for numbers no branch handles.\<close>

definition reg_port :: "IDEChannelRegisters \<Rightarrow> u8 \<Rightarrow> u16 option" where
  "reg_port ch reg =
     (if reg < 0x08 then Some (ch_base ch + ucast reg)
      else if reg < 0x0C then Some (ch_base ch + ucast reg - 0x06)
      else if reg < 0x0E then Some (ch_ctrl ch + ucast reg - 0x0A)
      else if reg < 0x16 then Some (ch_bmide ch + ucast reg - 0x0E)
      else None)"

definition reg_out :: "'d ports \<Rightarrow> nat \<Rightarrow> u8 \<Rightarrow> u8 \<Rightarrow> 'd ide_state \<Rightarrow> 'd ide_state result" where
  "reg_out P channel reg data s =
     rbind (aget (channels s) channel) (\<lambda>ch.
     Inr (case reg_port ch reg of None \<Rightarrow> s | Some p \<Rightarrow> s\<lparr>hw := p_outb P p data (hw s)\<rparr>))"

text \<open>The switch to the high-order bytes of the registers 8 to 11 and back.\<close>

definition hob :: "'d ports \<Rightarrow> nat \<Rightarrow> u8 \<Rightarrow> u8 \<Rightarrow> 'd ide_state \<Rightarrow> 'd ide_state result" where
  "hob P channel reg h s =
     (if reg > 0x07 \<and> reg < 0x0C
      then rbind (aget (channels s) channel) (\<lambda>ch. reg_out P channel ATA_REG_CONTROL (h OR nIEN ch) s)
      else Inr s)"

definition ide_write :: "'d ports \<Rightarrow> nat \<Rightarrow> u8 \<Rightarrow> u8 \<Rightarrow> 'd ide_state \<Rightarrow> 'd ide_state result" where
  "ide_write P channel reg data s =
     rbind (hob P channel reg 0x80 s) (\<lambda>s. rbind (reg_out P channel reg data s) (hob P channel reg 0))"

definition ide_read :: "'d ports \<Rightarrow> nat \<Rightarrow> u8 \<Rightarrow> 'd ide_state \<Rightarrow> (u8 \<times> 'd ide_state) result" where
  "ide_read P channel reg s =
     rbind (hob P channel reg 0x80 s) (\<lambda>s.
     rbind (aget (channels s) channel) (\<lambda>ch.
     case reg_port ch reg of None \<Rightarrow> Inl Fault
     | Some p \<Rightarrow> let (v, d) = p_inb P p (hw s) in rbind (hob P channel reg 0 (s\<lparr>hw := d\<rparr>)) (\<lambda>s. Inr (v, s))))"

fun insl :: "'d ports \<Rightarrow> u16 \<Rightarrow> nat \<Rightarrow> 'd \<Rightarrow> u8 list \<times> 'd" where
  "insl P port 0 d = ([], d)"
| "insl P port (Suc n) d =
     (let (w, d) = p_inl P port d; (bs, d) = insl P port n d in
      (ucast w # ucast (drop_bit 8 w) # ucast (drop_bit 16 w) # ucast (drop_bit 24 w) # bs, d))"

text \<open>The buffer of the only call is \<open>ide_buf\<close>.\<close>

definition ide_read_buffer :: "'d ports \<Rightarrow> nat \<Rightarrow> u8 \<Rightarrow> nat \<Rightarrow> 'd ide_state \<Rightarrow> 'd ide_state result" where
  "ide_read_buffer P channel reg quads s =
     rbind (hob P channel reg 0x80 s) (\<lambda>s.
     rbind (aget (channels s) channel) (\<lambda>ch.
     rbind (case reg_port ch reg of None \<Rightarrow> Inr s
            | Some p \<Rightarrow> let (bs, d) = insl P p quads (hw s) in
                if length bs \<le> length (ide_buf s) then Inr (s\<lparr>ide_buf := bs @ drop (length bs) (ide_buf s), hw := d\<rparr>)
                else Inl Fault)
       (hob P channel reg 0)))"

section \<open>Polling\<close>

partial_function (option) wait_ready :: "'d ports \<Rightarrow> nat \<Rightarrow> 'd ide_state \<Rightarrow> 'd ide_state result option" where
  "wait_ready P channel s =
     (case ide_read P channel ATA_REG_STATUS s of Inl e \<Rightarrow> Some (Inl e)
      | Inr (v, s) \<Rightarrow> if v AND ATA_SR_BSY \<noteq> 0 then wait_ready P channel s else Some (Inr s))"

declare wait_ready.simps [code]

definition returned :: "'a result option \<Rightarrow> 'a result" where
  "returned r = (case r of None \<Rightarrow> Inl Spin | Some x \<Rightarrow> x)"

definition ide_polling :: "'d ports \<Rightarrow> nat \<Rightarrow> bool \<Rightarrow> 'd ide_state \<Rightarrow> (u8 \<times> 'd ide_state) result" where
  "ide_polling P channel advanced_check s =
     rbind (kfor 0 4 (\<lambda>_ s. rbind (ide_read P channel ATA_REG_ALTSTATUS s) (\<lambda>(_, s). Inr s)) s) (\<lambda>s.
     rbind (returned (wait_ready P channel s)) (\<lambda>s.
     if advanced_check then
       rbind (ide_read P channel ATA_REG_STATUS s) (\<lambda>(state, s).
       Inr (if state AND ATA_SR_ERR \<noteq> 0 then 2 else if state AND ATA_SR_DF \<noteq> 0 then 1
            else if state AND ATA_SR_DRQ = 0 then 3 else 0, s))
     else Inr (0, s)))"

section \<open>Access to sectors\<close>

fun insw :: "'d ports \<Rightarrow> u16 \<Rightarrow> nat \<Rightarrow> 'd \<Rightarrow> u8 list \<times> 'd" where
  "insw P port 0 d = ([], d)"
| "insw P port (Suc n) d =
     (let (w, d) = p_inw P port d; (bs, d) = insw P port n d in (ucast w # ucast (drop_bit 8 w) # bs, d))"

fun outsw :: "'d ports \<Rightarrow> u16 \<Rightarrow> u8 list \<Rightarrow> 'd \<Rightarrow> 'd" where
  "outsw P port (lo # hi # bs) d = outsw P port bs (p_outw P port (ucast lo OR push_bit 8 (ucast hi)) d)"
| "outsw P port _ d = d"

text \<open>
  The transfers are inline assembly whose operands \<open>ecx\<close> and \<open>edi\<close> are declared as inputs although
  the instruction changes them. The first one runs with \<open>words\<close> and \<open>edi\<close>; with which values the
  following ones run is up to the compiler: \<open>regs i\<close> is the word count and the offset from \<open>edi\<close>
  of the \<open>i\<close>-th transfer.
\<close>

definition asm_regs :: "(nat \<Rightarrow> nat \<times> nat) \<Rightarrow> nat \<Rightarrow> nat \<times> nat" where
  "asm_regs regs i = (if i = 0 then (256, 0) else regs i)"

definition rep_insw :: "'d ports \<Rightarrow> u16 \<Rightarrow> nat \<times> nat \<Rightarrow> u8 list \<Rightarrow> 'd ide_state \<Rightarrow> (u8 list \<times> 'd ide_state) result" where
  "rep_insw P bus = (\<lambda>(words, off) buf s.
     if off + 2 * words \<le> length buf then
       let (bs, d) = insw P bus words (hw s) in Inr (take off buf @ bs @ drop (off + 2 * words) buf, s\<lparr>hw := d\<rparr>)
     else Inl Fault)"

definition rep_outsw :: "'d ports \<Rightarrow> u16 \<Rightarrow> nat \<times> nat \<Rightarrow> u8 list \<Rightarrow> 'd ide_state \<Rightarrow> 'd ide_state result" where
  "rep_outsw P bus = (\<lambda>(words, off) buf s.
     if off + 2 * words \<le> length buf
     then Inr (s\<lparr>hw := outsw P bus (take (2 * words) (drop off buf)) (hw s)\<rparr>) else Inl Fault)"

fun pio_read :: "'d ports \<Rightarrow> nat \<Rightarrow> u16 \<Rightarrow> (nat \<Rightarrow> nat \<times> nat) \<Rightarrow> nat \<Rightarrow> nat \<Rightarrow> u8 list \<Rightarrow> 'd ide_state \<Rightarrow> (u8 \<times> u8 list \<times> 'd ide_state) result" where
  "pio_read P channel bus regs i 0 buf s = Inr (0, buf, s)"
| "pio_read P channel bus regs i (Suc n) buf s =
     rbind (ide_polling P channel True s) (\<lambda>(err, s).
     if err \<noteq> 0 then Inr (err, buf, s)
     else rbind (rep_insw P bus (asm_regs regs i) buf s) (\<lambda>(buf, s). pio_read P channel bus regs (Suc i) n buf s))"

definition pio_write :: "'d ports \<Rightarrow> nat \<Rightarrow> u16 \<Rightarrow> (nat \<Rightarrow> nat \<times> nat) \<Rightarrow> nat \<Rightarrow> u8 list \<Rightarrow> 'd ide_state \<Rightarrow> 'd ide_state result" where
  "pio_write P channel bus regs n buf =
     kfor 0 n (\<lambda>i s. rbind (ide_polling P channel False s) (\<lambda>(_, s). rep_outsw P bus (asm_regs regs i) buf s))"

text \<open>The addressing mode, the six address bytes and the head for a sector number.\<close>

definition ata_address :: "ide_device \<Rightarrow> u32 \<Rightarrow> nat \<times> u8 list \<times> u8" where
  "ata_address dev lba =
     (if lba \<ge> 0x10000000 then
        (2, [ucast (lba AND 0xFF), ucast (drop_bit 8 (lba AND 0xFF00)), ucast (drop_bit 16 (lba AND 0xFF0000)),
             ucast (drop_bit 24 (lba AND 0xFF000000)), 0, 0], 0)
      else if Capabilities dev AND 0x200 \<noteq> 0 then
        (1, [ucast (lba AND 0xFF), ucast (drop_bit 8 (lba AND 0xFF00)), ucast (drop_bit 16 (lba AND 0xFF0000)), 0, 0, 0],
         ucast (drop_bit 24 (lba AND 0xF000000)))
      else
        let sect = ucast (lba mod 63 + 1) :: u8; cyl = ucast ((lba + 1 - ucast sect) div (16 * 63)) :: u16 in
        (0, [sect, ucast (cyl AND 0xFF), ucast (drop_bit 8 cyl AND 0xFF), 0, 0, 0],
         ucast ((lba + 1 - ucast sect) mod (16 * 63) div 63)))"

text \<open>\<open>dma\<close> is 0; a direction that is neither of the two leaves \<open>cmd\<close> without a value.\<close>

definition ata_command :: "nat \<Rightarrow> u8 \<Rightarrow> u8 result" where
  "ata_command lba_mode direction =
     (if direction = ATA_READ then Inr (if lba_mode = 2 then ATA_CMD_READ_PIO_EXT else ATA_CMD_READ_PIO)
      else if direction = ATA_WRITE then Inr (if lba_mode = 2 then ATA_CMD_WRITE_PIO_EXT else ATA_CMD_WRITE_PIO)
      else Inl Fault)"

text \<open>The registers of a command, in the order they are written.\<close>

definition ata_select :: "'d ports \<Rightarrow> nat \<Rightarrow> u8 \<Rightarrow> nat \<times> u8 list \<times> u8 \<Rightarrow> u8 \<Rightarrow> 'd ide_state \<Rightarrow> 'd ide_state result" where
  "ata_select P channel slavebit = (\<lambda>(lba_mode, lba_io, head) numsects s.
     rbind (ide_write P channel ATA_REG_HDDEVSEL ((if lba_mode = 0 then 0xA0 else 0xE0) OR push_bit 4 slavebit OR head) s) (\<lambda>s.
     rbind (if lba_mode = 2 then
              rbind (ide_write P channel ATA_REG_SECCOUNT1 0 s) (\<lambda>s.
              rbind (ide_write P channel ATA_REG_LBA3 (lba_io ! 3) s) (\<lambda>s.
              rbind (ide_write P channel ATA_REG_LBA4 (lba_io ! 4) s) (ide_write P channel ATA_REG_LBA5 (lba_io ! 5))))
            else Inr s) (\<lambda>s.
     rbind (ide_write P channel ATA_REG_SECCOUNT0 numsects s) (\<lambda>s.
     rbind (ide_write P channel ATA_REG_LBA0 (lba_io ! 0) s) (\<lambda>s.
     rbind (ide_write P channel ATA_REG_LBA1 (lba_io ! 1) s) (ide_write P channel ATA_REG_LBA2 (lba_io ! 2)))))))"

definition ide_ata_access ::
    "'d ports \<Rightarrow> (nat \<Rightarrow> nat \<times> nat) \<Rightarrow> u8 \<Rightarrow> nat \<Rightarrow> u32 \<Rightarrow> u8 \<Rightarrow> u8 list \<Rightarrow> 'd ide_state \<Rightarrow> (u8 \<times> u8 list \<times> 'd ide_state) result" where
  "ide_ata_access P regs direction drive lba numsects buf s =
     rbind (aget (ide_devices s) drive) (\<lambda>dev.
     let channel = unat (Channel dev) in
     rbind (aget (channels s) channel) (\<lambda>ch.
     let bus = ch_base ch; addr = ata_address dev lba;
         s = s\<lparr>ide_irq_invoked := 0, channels := (channels s)[channel := ch\<lparr>nIEN := 0x02\<rparr>]\<rparr> in
     rbind (ide_write P channel ATA_REG_CONTROL 0x02 s) (\<lambda>s.
     rbind (returned (wait_ready P channel s)) (\<lambda>s.
     rbind (ata_select P channel (Drive dev) addr numsects s) (\<lambda>s.
     rbind (ata_command (fst addr) direction) (\<lambda>cmd.
     rbind (ide_write P channel ATA_REG_COMMAND cmd s) (\<lambda>s.
     if direction = ATA_READ then pio_read P channel bus regs 0 (unat numsects) buf s
     else
       rbind (pio_write P channel bus regs (unat numsects) buf s) (\<lambda>s.
       rbind (ide_write P channel ATA_REG_COMMAND (if fst addr = 2 then ATA_CMD_CACHE_FLUSH_EXT else ATA_CMD_CACHE_FLUSH) s) (\<lambda>s.
       rbind (ide_polling P channel False s) (\<lambda>(_, s). Inr (0, buf, s)))))))))))"

text \<open>The tests of the bits of the error register, in order; the last one that is set counts.\<close>

fun error_bits :: "u8 \<Rightarrow> (u8 \<times> string \<times> u8) list \<Rightarrow> u8 \<Rightarrow> 'd ide_state \<Rightarrow> (u8 \<times> 'd ide_state) result" where
  "error_bits st [] err s = Inr (err, s)"
| "error_bits st ((m, t, e) # bs) err s =
     (if st AND m \<noteq> 0 then rbind (ide_printk (bytes_of t @ 0x0A # ascii ''     '') [] s) (error_bits st bs e)
      else error_bits st bs err s)"

definition ata_errors :: "(u8 \<times> string \<times> u8) list" where
  "ata_errors =
     [(ATA_ER_AMNF, ''- No Address Mark Found'', 7), (ATA_ER_TK0NF, ''- No Media or Media Error'', 3),
      (ATA_ER_ABRT, ''- Command Aborted'', 20), (ATA_ER_MCR, ''- No Media or Media Error'', 3),
      (ATA_ER_IDNF, ''- ID mark not Found'', 21), (ATA_ER_MC, ''- No Media or Media Error'', 3),
      (ATA_ER_UNC, ''- Uncorrectable Data Error'', 22), (ATA_ER_BBK, ''- Bad Sectors'', 13)]"

definition ide_print_error :: "'d ports \<Rightarrow> nat \<Rightarrow> u8 \<Rightarrow> 'd ide_state \<Rightarrow> (u8 \<times> 'd ide_state) result" where
  "ide_print_error P drive err s =
     (if err = 0 then Inr (err, s)
      else
        rbind (ide_printk (ascii ''IDE:'') [] s) (\<lambda>s.
        rbind (aget (ide_devices s) drive) (\<lambda>dev.
        rbind (if err = 1 then error_bits 1 [(1, ''- Device Fault'', 19)] err s
               else if err = 2 then
                 rbind (ide_read P (unat (Channel dev)) ATA_REG_ERROR s) (\<lambda>(st, s). error_bits st ata_errors err s)
               else if err = 3 then error_bits 1 [(1, ''- Reads Nothing'', 23)] err s
               else if err = 4 then error_bits 1 [(1, ''- Write Protected'', 8)] err s
               else Inr (err, s)) (\<lambda>(err, s).
        rbind (aget [ascii ''Primary'', ascii ''Secondary''] (unat (Channel dev))) (\<lambda>c.
        rbind (aget [ascii ''Master'', ascii ''Slave''] (unat (Drive dev))) (\<lambda>d.
        rbind (ide_printk (bytes_of ''- [%s %s] %s'' @ [0x0A, 0]) [VStr 1 c, VStr 1 d, VStr 1 (Model dev)] s) (\<lambda>s.
        Inr (err, s))))))))"

definition ide_read_sectors ::
    "'d ports \<Rightarrow> (nat \<Rightarrow> nat \<times> nat) \<Rightarrow> u8 \<Rightarrow> u8 \<Rightarrow> u32 \<Rightarrow> u8 list \<Rightarrow> 'd ide_state \<Rightarrow> (int \<times> u8 list \<times> 'd ide_state) result" where
  "ide_read_sectors P regs drive numsects lba buf s =
     rbind (if drive > 3 then Inr (buf, s\<lparr>ide_status := 1\<rparr>)
            else
              rbind (aget (ide_devices s) (unat drive)) (\<lambda>dev.
              if Reserved dev = 0 then Inr (buf, s\<lparr>ide_status := 1\<rparr>)
              else if lba + ucast numsects > Size dev \<and> Type dev = IDE_ATA then Inr (buf, s\<lparr>ide_status := 2\<rparr>)
              else
                rbind (if Type dev = IDE_ATA then ide_ata_access P regs ATA_READ (unat drive) lba numsects buf s
                       else if Type dev = IDE_ATAPI then Inl (Panic ''ATAPI not supported!'')
                       else Inl Fault) (\<lambda>(err, buf, s).
                rbind (ide_print_error P (unat drive) err s) (\<lambda>(err, s). Inr (buf, s\<lparr>ide_status := err\<rparr>))))) (\<lambda>(buf, s).
     Inr (- uint (ide_status s), buf, s))"

definition ide_write_sectors ::
    "'d ports \<Rightarrow> (nat \<Rightarrow> nat \<times> nat) \<Rightarrow> u8 \<Rightarrow> u8 \<Rightarrow> u32 \<Rightarrow> u8 list \<Rightarrow> 'd ide_state \<Rightarrow> (int \<times> 'd ide_state) result" where
  "ide_write_sectors P regs drive numsects lba buf s =
     rbind (if drive > 3 then Inr (s\<lparr>ide_status := 1\<rparr>)
            else
              rbind (aget (ide_devices s) (unat drive)) (\<lambda>dev.
              if Reserved dev = 0 then Inr (s\<lparr>ide_status := 1\<rparr>)
              else if lba + ucast numsects > Size dev \<and> Type dev = IDE_ATA then Inr (s\<lparr>ide_status := 2\<rparr>)
              else
                rbind (if Type dev = IDE_ATA then ide_ata_access P regs ATA_WRITE (unat drive) lba numsects buf s
                       else if Type dev = IDE_ATAPI then Inr (4, buf, s)
                       else Inl Fault) (\<lambda>(err, _, s).
                rbind (ide_print_error P (unat drive) err s) (\<lambda>(err, s). Inr (s\<lparr>ide_status := err\<rparr>))))) (\<lambda>s.
     Inr (- uint (ide_status s), s))"

section \<open>Finding the drives\<close>

text \<open>The loop that waits for the answer to the identify command; true when the drive reports an error.\<close>

partial_function (option) wait_identify :: "'d ports \<Rightarrow> nat \<Rightarrow> 'd ide_state \<Rightarrow> (bool \<times> 'd ide_state) result option" where
  "wait_identify P channel s =
     (case ide_read P channel ATA_REG_STATUS s of Inl e \<Rightarrow> Some (Inl e)
      | Inr (v, s) \<Rightarrow> if v AND ATA_SR_ERR \<noteq> 0 then Some (Inr (True, s))
                     else if v AND ATA_SR_BSY = 0 \<and> v AND ATA_SR_DRQ \<noteq> 0 then Some (Inr (False, s))
                     else wait_identify P channel s)"

declare wait_identify.simps [code]

definition buf_half :: "u8 list \<Rightarrow> nat \<Rightarrow> u16" where
  "buf_half b i = ucast (b ! i) OR push_bit 8 (ucast (b ! (i + 1)))"

definition buf_word :: "u8 list \<Rightarrow> nat \<Rightarrow> u32" where
  "buf_word b i = ucast (buf_half b i) OR push_bit 16 (ucast (buf_half b (i + 2)))"

text \<open>The fields of a device from the identification space \<open>b\<close>, \<open>ide_buf\<close> with its 2048 bytes.\<close>

definition device_params :: "u16 \<Rightarrow> nat \<Rightarrow> nat \<Rightarrow> u8 list \<Rightarrow> ide_device" where
  "device_params type i j b =
     \<lparr>Reserved = 1, Channel = of_nat i, Drive = of_nat j, Type = type,
      Signature = buf_half b ATA_IDENT_DEVICETYPE, Capabilities = buf_half b ATA_IDENT_CAPABILITIES,
      CommandSets = buf_word b ATA_IDENT_COMMANDSETS,
      Size = (if buf_word b ATA_IDENT_COMMANDSETS AND push_bit 26 1 \<noteq> 0 then buf_word b ATA_IDENT_MAX_LBA_EXT
              else buf_word b ATA_IDENT_MAX_LBA),
      Model = concat (map (\<lambda>k. [b ! (ATA_IDENT_MODEL + 2 * k + 1), b ! (ATA_IDENT_MODEL + 2 * k)]) [0..<20]) @ [0]\<rparr>"

text \<open>One iteration of the loops over the channels and their drives.\<close>

definition ide_probe :: "'d ports \<Rightarrow> nat \<Rightarrow> nat \<Rightarrow> nat \<times> 'd ide_state \<Rightarrow> (nat \<times> 'd ide_state) result" where
  "ide_probe P i j = (\<lambda>(count, s).
     rbind (set_dev count (Reserved_update (\<lambda>_. 0)) s) (\<lambda>s.
     rbind (ide_write P i ATA_REG_HDDEVSEL (0xA0 OR push_bit 4 (of_nat j)) s) (\<lambda>s.
     rbind (ide_write P i ATA_REG_COMMAND ATA_CMD_IDENTIFY s) (\<lambda>s.
     rbind (ide_read P i ATA_REG_STATUS s) (\<lambda>(st, s).
     if st = 0 then Inr (count, s)
     else
       rbind (returned (wait_identify P i s)) (\<lambda>(err, s).
       rbind (if err then
                rbind (ide_read P i ATA_REG_LBA1 s) (\<lambda>(cl, s).
                rbind (ide_read P i ATA_REG_LBA2 s) (\<lambda>(ch, s).
                if cl = 0x14 \<and> ch = 0xEB \<or> cl = 0x69 \<and> ch = 0x96
                then rbind (ide_write P i ATA_REG_COMMAND ATA_CMD_IDENTIFY_PACKET s) (\<lambda>s. Inr (Some IDE_ATAPI, s))
                else Inr (None, s)))
              else Inr (Some IDE_ATA, s)) (\<lambda>(type, s).
       case type of None \<Rightarrow> Inr (count, s)
       | Some type \<Rightarrow>
           rbind (ide_read_buffer P i ATA_REG_DATA 128 s) (\<lambda>s.
           rbind (set_dev count (\<lambda>_. device_params type i j (ide_buf s)) s) (\<lambda>s.
           Inr (count + 1, s))))))))))"

definition ide_summary :: "nat \<Rightarrow> 'd ide_state \<Rightarrow> 'd ide_state result" where
  "ide_summary i s =
     rbind (aget (ide_devices s) i) (\<lambda>dev.
     if Reserved dev = 1 then
       rbind (aget [ascii ''ATA'', ascii ''ATAPI''] (unat (Type dev))) (\<lambda>t.
       ide_printk (bytes_of '' Slot %d found %s Drive %dMB - %s'' @ [0x0A, 0]) [VWord (of_nat i), VStr 1 t, VWord (Size dev div 2048), VStr 1 (Model dev)] s)
     else Inr s)"

definition bar_port :: "u32 \<Rightarrow> u16 \<Rightarrow> u16" where
  "bar_port BAR dflt = ucast (BAR AND 0xFFFFFFFC) + (if BAR = 0 then dflt else 0)"

definition ide_initialize :: "'d ports \<Rightarrow> u32 \<Rightarrow> u32 \<Rightarrow> u32 \<Rightarrow> u32 \<Rightarrow> u32 \<Rightarrow> 'd ide_state \<Rightarrow> 'd ide_state result" where
  "ide_initialize P BAR0 BAR1 BAR2 BAR3 BAR4 s =
     rbind (aget (channels s) ATA_PRIMARY) (\<lambda>c0. rbind (aget (channels s) ATA_SECONDARY) (\<lambda>c1.
     let s = s\<lparr>channels := (channels s)
       [ATA_PRIMARY := c0\<lparr>ch_base := bar_port BAR0 0x1F0, ch_ctrl := bar_port BAR1 0x3F6, ch_bmide := bar_port BAR4 0\<rparr>,
        ATA_SECONDARY := c1\<lparr>ch_base := bar_port BAR2 0x170, ch_ctrl := bar_port BAR3 0x376, ch_bmide := bar_port BAR4 0 + 8\<rparr>]\<rparr> in
     rbind (ide_write P ATA_PRIMARY ATA_REG_CONTROL 2 s) (\<lambda>s.
     rbind (ide_write P ATA_SECONDARY ATA_REG_CONTROL 2 s) (\<lambda>s.
     rbind (kfor 0 2 (\<lambda>i. kfor 0 2 (ide_probe P i)) (0, s)) (\<lambda>(_, s).
     kfor 0 4 ide_summary s)))))"

definition disk_init :: "'d ports \<Rightarrow> 'd ide_state \<Rightarrow> (int \<times> 'd ide_state) result" where
  "disk_init P s =
     (if disk_inited s then Inr (0, s)
      else rbind (ide_initialize P 0x1F0 0x3F6 0x170 0x376 0x000 s) (\<lambda>s. Inr (0, s\<lparr>disk_inited := True\<rparr>)))"

definition SECTOR_SIZE :: nat where "SECTOR_SIZE = 512"

definition test_pattern :: "u8 list" where
  "test_pattern = map (\<lambda>i. if odd i then 0x55 else 0xAA) [0..<SECTOR_SIZE]"

text \<open>A byte that differs is reported and stops the kernel.\<close>

definition disk_check :: "nat \<Rightarrow> u8 list \<Rightarrow> nat \<Rightarrow> 'd ide_state \<Rightarrow> 'd ide_state result" where
  "disk_check i buf j s =
     (let good = (if odd j then 0x55 else 0xAA) in
      rbind (if buf ! j \<noteq> good
             then ide_printk (bytes_of ''Read error at sector %d address %d, read=%d!'' @ [0x0A, 0])
               [VWord (of_nat i), VWord (of_nat j), VWord (ucast (buf ! j))] s
             else Inr s) (\<lambda>s.
      rbind (kassert (buf ! j = good) (if odd j then ''buf[j] == 0x55'' else ''buf[j] == 0xAA'')) (\<lambda>_. Inr s)))"

definition disk_test :: "'d ports \<Rightarrow> (nat \<Rightarrow> nat \<times> nat) \<Rightarrow> 'd ide_state \<Rightarrow> 'd ide_state result" where
  "disk_test P regs s =
     rbind (kfor 0 10 (\<lambda>i s. rbind (ide_write_sectors P regs 1 1 (of_nat i) test_pattern s) (\<lambda>(_, s). Inr s)) s) (\<lambda>s.
     rbind (kfor 0 10 (\<lambda>i s.
       rbind (ide_read_sectors P regs 1 1 (of_nat i) (replicate SECTOR_SIZE 0) s) (\<lambda>(_, buf, s).
       kfor 0 SECTOR_SIZE (disk_check i buf) s)) s) (\<lambda>s.
     ide_printk (bytes_of ''Disk test pass!'' @ [0x0A, 0]) [] s))"

section \<open>The interface of the file system module (kernel/fs/diskio.c)\<close>

definition DISK_ID :: u8 where "DISK_ID = 1"
definition RES_OK :: nat where "RES_OK = 0"
definition CTRL_SYNC :: u8 where "CTRL_SYNC = 0"
definition GET_SECTOR_COUNT :: u8 where "GET_SECTOR_COUNT = 1"
definition GET_SECTOR_SIZE :: u8 where "GET_SECTOR_SIZE = 2"
definition GET_BLOCK_SIZE :: u8 where "GET_BLOCK_SIZE = 3"
definition CTRL_TRIM :: u8 where "CTRL_TRIM = 4"

definition disk_initialize :: "'d ports \<Rightarrow> u8 \<Rightarrow> 'd ide_state \<Rightarrow> (u8 \<times> 'd ide_state) result" where
  "disk_initialize P pdrv s = rbind (disk_init P s) (\<lambda>(_, s). Inr (of_nat RES_OK, s))"

definition disk_status :: "'d ports \<Rightarrow> u8 \<Rightarrow> 'd ide_state \<Rightarrow> (u8 \<times> 'd ide_state) result" where
  "disk_status P pdrv s = ide_read P (unat DISK_ID) ATA_REG_STATUS s"

text \<open>The number of sectors becomes an \<open>unsigned char\<close>, and the result of the driver is dropped.\<close>

definition disk_read ::
    "'d ports \<Rightarrow> (nat \<Rightarrow> nat \<times> nat) \<Rightarrow> u8 \<Rightarrow> u8 list \<Rightarrow> u32 \<Rightarrow> u32 \<Rightarrow> 'd ide_state \<Rightarrow> (nat \<times> u8 list \<times> 'd ide_state) result" where
  "disk_read P regs pdrv buff sector count s =
     rbind (ide_read_sectors P regs DISK_ID (ucast count) sector buff s) (\<lambda>(_, buff, s). Inr (RES_OK, buff, s))"

definition disk_write ::
    "'d ports \<Rightarrow> (nat \<Rightarrow> nat \<times> nat) \<Rightarrow> u8 \<Rightarrow> u8 list \<Rightarrow> u32 \<Rightarrow> u32 \<Rightarrow> 'd ide_state \<Rightarrow> (nat \<times> 'd ide_state) result" where
  "disk_write P regs pdrv buff sector count s =
     rbind (ide_write_sectors P regs DISK_ID (ucast count) sector buff s) (\<lambda>(_, s). Inr (RES_OK, s))"

text \<open>The result and what is stored through \<open>buff\<close>, if anything.\<close>

definition disk_ioctl :: "u8 \<Rightarrow> u8 \<Rightarrow> 'd ide_state \<Rightarrow> (nat \<times> u32 option) result" where
  "disk_ioctl pdrv cmd s =
     (if cmd = GET_SECTOR_COUNT then rbind (aget (ide_devices s) (unat DISK_ID)) (\<lambda>dev. Inr (RES_OK, Some (Size dev)))
      else if cmd = GET_SECTOR_SIZE \<or> cmd = GET_BLOCK_SIZE then Inr (RES_OK, Some 512)
      else Inr (RES_OK, None))"

section \<open>The drive behind the ports\<close>

text \<open>
  What the ATA standard promises of a drive that is addressed by sector numbers of 28 bits. A view
  of the controller state tells the registers of the task file, for how many more reads of the
  status register the drive is busy, the words it has ready or waits for, and the contents of the
  two drives of the channel.
\<close>

datatype ata_phase = Ready | Reading "u16 list" | Writing nat nat "u16 list"

record ata_view =
  tfile :: "nat \<Rightarrow> u8"
  busy :: nat
  phase :: ata_phase
  capacity :: nat
  sectors :: "bool \<Rightarrow> nat \<Rightarrow> u16 list"

definition tf_slave :: "ata_view \<Rightarrow> bool" where
  "tf_slave a \<longleftrightarrow> tfile a 6 AND 0x10 \<noteq> 0"

definition tf_lba :: "ata_view \<Rightarrow> nat" where
  "tf_lba a = unat (tfile a 3) + 256 * unat (tfile a 4) + 65536 * unat (tfile a 5) + 16777216 * unat (tfile a 6 AND 0x0F)"

definition tf_count :: "ata_view \<Rightarrow> nat" where
  "tf_count a = (if tfile a 2 = 0 then 256 else unat (tfile a 2))"

definition ata_exec :: "u8 \<Rightarrow> nat \<Rightarrow> ata_view \<Rightarrow> ata_view" where
  "ata_exec c k a = a\<lparr>busy := k, phase :=
     (if c = ATA_CMD_READ_PIO then Reading (concat (map (sectors a (tf_slave a)) [tf_lba a..<tf_lba a + tf_count a]))
      else if c = ATA_CMD_WRITE_PIO then Writing (tf_lba a) (tf_count a) []
      else Ready)\<rparr>"

fun ata_store :: "u16 \<Rightarrow> nat \<Rightarrow> nat \<Rightarrow> nat \<Rightarrow> u16 list \<Rightarrow> ata_view \<Rightarrow> ata_view" where
  "ata_store w k lba n ws a =
     (if length ws = 255
      then a\<lparr>busy := k, phase := if n = 1 then Ready else Writing (lba + 1) (n - 1) [],
             sectors := (sectors a)(tf_slave a := (sectors a (tf_slave a))(lba := ws @ [w]))\<rparr>
      else a\<lparr>phase := Writing lba n (ws @ [w])\<rparr>)"

definition ata_conforms :: "'d ports \<Rightarrow> u16 \<Rightarrow> u16 \<Rightarrow> ('d \<Rightarrow> ata_view) \<Rightarrow> bool" where
  "ata_conforms P b c vw \<longleftrightarrow>
     (\<forall>d r v. 2 \<le> r \<longrightarrow> r \<le> 6 \<longrightarrow> busy (vw d) = 0 \<longrightarrow> vw (p_outb P (b + of_nat r) v d) = (vw d)\<lparr>tfile := (tfile (vw d))(r := v)\<rparr>) \<and>
     (\<forall>d x. x \<in> {ATA_CMD_READ_PIO, ATA_CMD_WRITE_PIO} \<longrightarrow> busy (vw d) = 0 \<longrightarrow> tfile (vw d) 6 AND 0x40 \<noteq> 0 \<longrightarrow>
        tf_lba (vw d) + tf_count (vw d) \<le> capacity (vw d) \<longrightarrow> (\<exists>k. vw (p_outb P (b + 7) x d) = ata_exec x k (vw d))) \<and>
     (\<forall>d v. v AND 0x04 = 0 \<longrightarrow> vw (p_outb P (c + 2) v d) = vw d) \<and>
     (\<forall>d. vw (snd (p_inb P (c + 2) d)) = vw d) \<and>
     (\<forall>d. busy (vw d) \<noteq> 0 \<longrightarrow> fst (p_inb P (b + 7) d) AND ATA_SR_BSY \<noteq> 0 \<and> vw (snd (p_inb P (b + 7) d)) = (vw d)\<lparr>busy := busy (vw d) - 1\<rparr>) \<and>
     (\<forall>d. busy (vw d) = 0 \<longrightarrow> vw (snd (p_inb P (b + 7) d)) = vw d \<and>
        fst (p_inb P (b + 7) d) AND (ATA_SR_BSY OR ATA_SR_DF OR ATA_SR_DRQ OR ATA_SR_ERR) = (if phase (vw d) = Ready then 0 else ATA_SR_DRQ)) \<and>
     (\<forall>d w ws. busy (vw d) = 0 \<longrightarrow> phase (vw d) = Reading (w # ws) \<longrightarrow> fst (p_inw P b d) = w \<and>
        (\<exists>k. vw (snd (p_inw P b d)) = (vw d)\<lparr>busy := if length ws mod 256 = 0 then k else 0, phase := if ws = [] then Ready else Reading ws\<rparr>)) \<and>
     (\<forall>d w lba n ws. busy (vw d) = 0 \<longrightarrow> phase (vw d) = Writing lba n ws \<longrightarrow> (\<exists>k. vw (p_outw P b w d) = ata_store w k lba n ws (vw d)))"

text \<open>The driver sends the flush command without waiting for the end of the last write. The standard
  leaves open what a busy drive does with it; here it does not lose the data.\<close>

definition flush_tolerant :: "'d ports \<Rightarrow> u16 \<Rightarrow> ('d \<Rightarrow> ata_view) \<Rightarrow> bool" where
  "flush_tolerant P b vw \<longleftrightarrow> (\<forall>d. phase (vw d) = Ready \<longrightarrow> (\<exists>k. vw (p_outb P (b + 7) ATA_CMD_CACHE_FLUSH d) = (vw d)\<lparr>busy := k\<rparr>))"

lemma conformsD:
  assumes "ata_conforms P b c vw"
  shows "2 \<le> r \<Longrightarrow> r \<le> 6 \<Longrightarrow> busy (vw d) = 0 \<Longrightarrow> vw (p_outb P (b + of_nat r) v d) = (vw d)\<lparr>tfile := (tfile (vw d))(r := v)\<rparr>"
    "x \<in> {ATA_CMD_READ_PIO, ATA_CMD_WRITE_PIO} \<Longrightarrow> busy (vw d) = 0 \<Longrightarrow> tfile (vw d) 6 AND 0x40 \<noteq> 0 \<Longrightarrow>
       tf_lba (vw d) + tf_count (vw d) \<le> capacity (vw d) \<Longrightarrow> \<exists>k. vw (p_outb P (b + 7) x d) = ata_exec x k (vw d)"
    "v AND 0x04 = 0 \<Longrightarrow> vw (p_outb P (c + 2) v d) = vw d"
    "vw (snd (p_inb P (c + 2) d)) = vw d"
    "busy (vw d) \<noteq> 0 \<Longrightarrow> fst (p_inb P (b + 7) d) AND ATA_SR_BSY \<noteq> 0 \<and> vw (snd (p_inb P (b + 7) d)) = (vw d)\<lparr>busy := busy (vw d) - 1\<rparr>"
    "busy (vw d) = 0 \<Longrightarrow> vw (snd (p_inb P (b + 7) d)) = vw d \<and>
       fst (p_inb P (b + 7) d) AND (ATA_SR_BSY OR ATA_SR_DF OR ATA_SR_DRQ OR ATA_SR_ERR) = (if phase (vw d) = Ready then 0 else ATA_SR_DRQ)"
    "busy (vw d) = 0 \<Longrightarrow> phase (vw d) = Reading (w # ws) \<Longrightarrow> fst (p_inw P b d) = w \<and>
       (\<exists>k. vw (snd (p_inw P b d)) = (vw d)\<lparr>busy := if length ws mod 256 = 0 then k else 0, phase := if ws = [] then Ready else Reading ws\<rparr>)"
    "busy (vw d) = 0 \<Longrightarrow> phase (vw d) = Writing lba n ws \<Longrightarrow> \<exists>k. vw (p_outw P b w d) = ata_store w k lba n ws (vw d)"
  using assms unfolding ata_conforms_def by blast+

text \<open>The bytes of a sector, as the transfers move them.\<close>

definition sector_bytes :: "u16 list \<Rightarrow> u8 list" where
  "sector_bytes ws = concat (map (\<lambda>w. [ucast w, ucast (drop_bit 8 w)]) ws)"

fun bytes_words :: "u8 list \<Rightarrow> u16 list" where
  "bytes_words (lo # hi # bs) = (ucast lo OR push_bit 8 (ucast hi)) # bytes_words bs"
| "bytes_words _ = []"

lemma ucast_pair: "ucast (ucast (lo :: u8) OR push_bit 8 (ucast (hi :: u8)) :: u16) = lo"
  "ucast (drop_bit 8 (ucast lo OR push_bit 8 (ucast hi) :: u16)) = hi"
  by (rule bit_word_eqI; auto simp: bit_simps dest: bit_imp_le_length)+

lemma sector_bytes_words: "even (length bs) \<Longrightarrow> sector_bytes (bytes_words bs) = bs"
  by (induction bs rule: bytes_words.induct) (simp_all add: sector_bytes_def ucast_pair del: drop_bit_or)

lemma length_bytes_words: "length (bytes_words bs) = length bs div 2"
  by (induction bs rule: bytes_words.induct) simp_all

lemma length_sector_bytes [simp]: "length (sector_bytes ws) = 2 * length ws"
  by (induction ws) (simp_all add: sector_bytes_def)


section \<open>The driver on such a drive\<close>

text \<open>The driver has found the drive and the channel is idle.\<close>

definition drive1_ok :: "ide_device \<Rightarrow> nat \<Rightarrow> bool" where
  "drive1_ok d n \<longleftrightarrow> Reserved d \<noteq> 0 \<and> Channel d = 0 \<and> Drive d = 1 \<and> Type d = IDE_ATA \<and> Capabilities d AND 0x200 \<noteq> 0 \<and>
     unat (Size d) = n \<and> n \<le> 2 ^ 28"

definition ide_ready :: "'d ports \<Rightarrow> ('d \<Rightarrow> ata_view) \<Rightarrow> 'd ide_state \<Rightarrow> bool" where
  "ide_ready P vw s \<longleftrightarrow> length (channels s) = 2 \<and> length (ide_devices s) = 4 \<and>
     ata_conforms P (ch_base (channels s ! 0)) (ch_ctrl (channels s ! 0)) vw \<and> flush_tolerant P (ch_base (channels s ! 0)) vw \<and>
     drive1_ok (ide_devices s ! 1) (capacity (vw (hw s))) \<and> phase (vw (hw s)) = Ready \<and>
     (\<forall>l. length (sectors (vw (hw s)) True l) = 256)"

text \<open>A register access of the first channel only moves the controller.\<close>

lemma ide_write_low:
  assumes "length (channels s) = 2" "reg < 8"
  shows "ide_write P 0 reg v s = Inr (s\<lparr>hw := p_outb P (ch_base (channels s ! 0) + ucast reg) v (hw s)\<rparr>)"
proof -
  have "\<not> 7 < reg" using assms(2) by (simp add: word_less_nat_alt)
  then show ?thesis using assms by (simp add: ide_write_def hob_def reg_out_def reg_port_def)
qed

lemma ide_write_control:
  assumes "length (channels s) = 2"
  shows "ide_write P 0 ATA_REG_CONTROL v s = Inr (s\<lparr>hw := p_outb P (ch_ctrl (channels s ! 0) + 2) v (hw s)\<rparr>)"
  using assms by (simp add: ide_write_def hob_def reg_out_def reg_port_def ATA_REG_CONTROL_def add.commute[of _ 2])

lemma ide_read_low:
  assumes "length (channels s) = 2" "reg < 8"
  shows "ide_read P 0 reg s = (let (v, d) = p_inb P (ch_base (channels s ! 0) + ucast reg) (hw s) in Inr (v, s\<lparr>hw := d\<rparr>))"
proof -
  have "\<not> 7 < reg" using assms(2) by (simp add: word_less_nat_alt)
  then show ?thesis using assms by (simp add: ide_read_def hob_def reg_port_def)
qed

lemma ide_read_alt:
  assumes "length (channels s) = 2"
  shows "ide_read P 0 ATA_REG_ALTSTATUS s = (let (v, d) = p_inb P (ch_ctrl (channels s ! 0) + 2) (hw s) in Inr (v, s\<lparr>hw := d\<rparr>))"
  using assms by (simp add: ide_read_def hob_def reg_port_def ATA_REG_ALTSTATUS_def add.commute[of _ 2])

text \<open>The states that differ from \<open>s\<close> only in the controller.\<close>

definition at_hw :: "'d ide_state \<Rightarrow> 'd \<Rightarrow> 'd ide_state" where
  "at_hw s d = s\<lparr>hw := d\<rparr>"

lemma at_hw_simps [simp]:
  "hw (at_hw s d) = d" "channels (at_hw s d) = channels s" "ide_devices (at_hw s d) = ide_devices s" "at_hw (at_hw s d) e = at_hw s e"
  "ide_status (at_hw s d) = ide_status s" "at_hw s (hw s) = s" "s\<lparr>hw := d\<rparr> = at_hw s d" "ide_con (at_hw s d) = ide_con s"
  by (simp_all add: at_hw_def)

lemma status_bits:
  assumes "(v :: u8) AND (ATA_SR_BSY OR ATA_SR_DF OR ATA_SR_DRQ OR ATA_SR_ERR) = x"
  shows "v AND ATA_SR_BSY = x AND ATA_SR_BSY" "v AND ATA_SR_DF = x AND ATA_SR_DF" "v AND ATA_SR_DRQ = x AND ATA_SR_DRQ" "v AND ATA_SR_ERR = x AND ATA_SR_ERR"
  unfolding assms[symmetric] and.assoc by (simp_all add: ATA_SR_BSY_def ATA_SR_DF_def ATA_SR_DRQ_def ATA_SR_ERR_def)

lemma wait_ready_busy:
  assumes "length (channels s) = 2" "ata_conforms P (ch_base (channels s ! 0)) (ch_ctrl (channels s ! 0)) vw"
  shows "\<exists>d. wait_ready P 0 s = Some (Inr (at_hw s d)) \<and> vw d = (vw (hw s))\<lparr>busy := 0\<rparr>"
  using assms
proof (induction "busy (vw (hw s))" arbitrary: s)
  case 0
  let ?v = "fst (p_inb P (ch_base (channels s ! 0) + 7) (hw s))" and ?d = "snd (p_inb P (ch_base (channels s ! 0) + 7) (hw s))"
  have v: "vw ?d = vw (hw s)" "?v AND (ATA_SR_BSY OR ATA_SR_DF OR ATA_SR_DRQ OR ATA_SR_ERR) = (if phase (vw (hw s)) = Ready then 0 else ATA_SR_DRQ)"
    using conformsD(6)[OF 0(3)] 0(1) by auto
  have "?v AND ATA_SR_BSY = 0"
    using status_bits[OF v(2)] by (simp add: ATA_SR_BSY_def ATA_SR_DRQ_def)
  then have "wait_ready P 0 s = Some (Inr (at_hw s ?d))"
    using 0 by (subst wait_ready.simps) (simp add: ide_read_low ATA_REG_STATUS_def split_beta)
  moreover have "vw ?d = (vw (hw s))\<lparr>busy := 0\<rparr>" using v(1) 0 by simp
  ultimately show ?case by blast
next
  case (Suc n)
  let ?v = "fst (p_inb P (ch_base (channels s ! 0) + 7) (hw s))" and ?d = "snd (p_inb P (ch_base (channels s ! 0) + 7) (hw s))"
  have v: "?v AND ATA_SR_BSY \<noteq> 0" "vw ?d = (vw (hw s))\<lparr>busy := n\<rparr>"
    using conformsD(5)[OF Suc.prems(2), of "hw s"] Suc.hyps(2)[symmetric] by auto
  from Suc.hyps(1)[of "at_hw s ?d"] v(2) Suc.prems obtain d where
    "wait_ready P 0 (at_hw s ?d) = Some (Inr (at_hw s d))" "vw d = (vw (hw s))\<lparr>busy := 0\<rparr>" by auto
  then have "wait_ready P 0 s = Some (Inr (at_hw s d))"
    using v(1) Suc.prems by (subst wait_ready.simps) (simp add: ide_read_low ATA_REG_STATUS_def split_beta)
  with \<open>vw d = (vw (hw s))\<lparr>busy := 0\<rparr>\<close> show ?case by blast
qed

lemma polling_ok:
  assumes "length (channels s) = 2" "ata_conforms P (ch_base (channels s ! 0)) (ch_ctrl (channels s ! 0)) vw"
  shows "\<exists>d. ide_polling P 0 adv s = Inr (if adv \<and> phase (vw (hw s)) = Ready then 3 else 0, at_hw s d) \<and> vw d = (vw (hw s))\<lparr>busy := 0\<rparr>"
proof -
  let ?I = "\<lambda>(_ :: nat) t. \<exists>d. t = at_hw s d \<and> vw d = vw (hw s)"
  have "\<exists>t. kfor 0 4 (\<lambda>_ s. rbind (ide_read P 0 ATA_REG_ALTSTATUS s) (\<lambda>(_, s). Inr s)) s = Inr t \<and> ?I (0 + 4) t"
  proof (rule kfor_inv)
    show "?I 0 s" by (auto intro: exI[of _ "hw s"])
  next
    fix i t
    assume "?I i t"
    then show "\<exists>t'. rbind (ide_read P 0 ATA_REG_ALTSTATUS t) (\<lambda>(_, s). Inr s) = Inr t' \<and> ?I (Suc i) t'"
      using assms(1) conformsD(4)[OF assms(2)] by (fastforce simp: ide_read_alt split_beta)
  qed
  then obtain d where d: "kfor 0 4 (\<lambda>_ s. rbind (ide_read P 0 ATA_REG_ALTSTATUS s) (\<lambda>(_, s). Inr s)) s = Inr (at_hw s d)" "vw d = vw (hw s)"
    by auto
  obtain e where e: "wait_ready P 0 (at_hw s d) = Some (Inr (at_hw s e))" "vw e = (vw (hw s))\<lparr>busy := 0\<rparr>"
    using wait_ready_busy[of "at_hw s d" P vw] assms d(2) by auto
  show ?thesis
  proof (cases adv)
    case False
    then show ?thesis using d(1) e by (auto simp: ide_polling_def returned_def)
  next
    case True
    let ?v = "fst (p_inb P (ch_base (channels s ! 0) + 7) e)" and ?d = "snd (p_inb P (ch_base (channels s ! 0) + 7) e)"
    have v: "vw ?d = vw e" "?v AND (ATA_SR_BSY OR ATA_SR_DF OR ATA_SR_DRQ OR ATA_SR_ERR) = (if phase (vw (hw s)) = Ready then 0 else ATA_SR_DRQ)"
      using conformsD(6)[OF assms(2), of e] e(2) by auto
    have b: "?v AND ATA_SR_ERR = 0" "?v AND ATA_SR_DF = 0" "?v AND ATA_SR_DRQ = (if phase (vw (hw s)) = Ready then 0 else ATA_SR_DRQ)"
      using status_bits[OF v(2)] by (simp_all add: ATA_SR_DF_def ATA_SR_DRQ_def ATA_SR_ERR_def)
    have "ide_polling P 0 adv s = Inr (if phase (vw (hw s)) = Ready then 3 else 0, at_hw s ?d)"
      using True d(1) e(1) b assms(1) by (simp add: ide_polling_def returned_def ide_read_low ATA_REG_STATUS_def split_beta ATA_SR_DRQ_def)
    then show ?thesis using True v(1) e(2) by auto
  qed
qed

lemma insw_sector:
  assumes "ata_conforms P b c vw" "busy (vw d) = 0" "phase (vw d) = Reading (xs @ ys)" "xs \<noteq> []" "length xs \<le> 256" "length ys mod 256 = 0"
  shows "\<exists>d' k. insw P b (length xs) d = (sector_bytes xs, d') \<and> vw d' = (vw d)\<lparr>busy := k, phase := if ys = [] then Ready else Reading ys\<rparr>"
  using assms(2-)
proof (induction xs arbitrary: d)
  case (Cons w xs)
  let ?d = "snd (p_inw P b d)"
  obtain k where k: "fst (p_inw P b d) = w"
    "vw ?d = (vw d)\<lparr>busy := if length (xs @ ys) mod 256 = 0 then k else 0, phase := if xs @ ys = [] then Ready else Reading (xs @ ys)\<rparr>"
    using conformsD(7)[OF assms(1) Cons.prems(1)] Cons.prems(2) by fastforce
  show ?case
  proof (cases "xs = []")
    case True
    then have "vw ?d = (vw d)\<lparr>busy := k, phase := if ys = [] then Ready else Reading ys\<rparr>" using k(2) Cons.prems(5) by simp
    then show ?thesis using True k(1) by (auto simp: split_beta sector_bytes_def)
  next
    case False
    have "length (xs @ ys) mod 256 = length xs" using Cons.prems(4,5) mod_add_right_eq[of "length xs" "length ys" 256] by simp
    then have "vw ?d = (vw d)\<lparr>busy := 0, phase := Reading (xs @ ys)\<rparr>" using k(2) False by simp
    with Cons.IH[of ?d] False Cons.prems obtain d' k' where
      "insw P b (length xs) ?d = (sector_bytes xs, d')" "vw d' = (vw d)\<lparr>busy := k', phase := if ys = [] then Ready else Reading ys\<rparr>"
      by auto
    then show ?thesis using k(1) by (auto simp: split_beta sector_bytes_def)
  qed
qed simp

lemma outsw_sector:
  assumes "ata_conforms P b c vw" "busy (vw d) = 0" "phase (vw d) = Writing lba n ws" "2 * length ws + length bs = 512" "bs \<noteq> []"
  shows "\<exists>k. vw (outsw P b bs d) = (vw d)\<lparr>busy := k, phase := if n = 1 then Ready else Writing (lba + 1) (n - 1) [],
    sectors := (sectors (vw d))(tf_slave (vw d) := (sectors (vw d) (tf_slave (vw d)))(lba := ws @ bytes_words bs))\<rparr>"
  using assms(2-)
proof (induction bs arbitrary: d ws rule: bytes_words.induct)
  case (1 lo hi bs)
  let ?w = "ucast lo OR push_bit 8 (ucast hi) :: u16"
  obtain k where k: "vw (p_outw P b ?w d) = ata_store ?w k lba n ws (vw d)"
    using conformsD(8)[OF assms(1) "1.prems"(1,2)] by blast
  show ?case
  proof (cases "bs = []")
    case True
    then show ?thesis using k "1.prems"(3) by (intro exI[of _ k]) (simp add: fun_upd_def)
  next
    case False
    then have "vw (p_outw P b ?w d) = (vw d)\<lparr>phase := Writing lba n (ws @ [?w])\<rparr>" using k "1.prems"(3) by auto
    with "1.IH"[of "p_outw P b ?w d" "ws @ [?w]"] False "1.prems" show ?thesis by (auto simp: tf_slave_def)
  qed
qed (simp, simp, presburger)

text \<open>A sector number of 28 bits arrives in the task file.\<close>

definition lba_regs :: "u32 \<Rightarrow> nat \<Rightarrow> u8" where
  "lba_regs lba = (\<lambda>_. 0)(2 := 1, 3 := ucast (lba AND 0xFF), 4 := ucast (drop_bit 8 (lba AND 0xFF00)), 5 := ucast (drop_bit 16 (lba AND 0xFF0000)),
     6 := 0xE0 OR push_bit 4 1 OR ucast (drop_bit 24 (lba AND 0xF000000)))"

definition holds_lba :: "ata_view \<Rightarrow> u32 \<Rightarrow> bool" where
  "holds_lba a lba \<longleftrightarrow> (\<forall>r\<in>{2..6}. tfile a r = lba_regs lba r)"

lemma lba_bytes:
  assumes "(lba :: u32) < 0x10000000"
  shows "unat (ucast (lba AND 0xFF) :: u8) = unat lba mod 256"
    "unat (ucast (drop_bit 8 (lba AND 0xFF00)) :: u8) = unat lba div 256 mod 256"
    "unat (ucast (drop_bit 16 (lba AND 0xFF0000)) :: u8) = unat lba div 65536 mod 256"
    "unat ((0xE0 OR push_bit 4 1 OR ucast (drop_bit 24 (lba AND 0xF000000)) :: u8) AND 0x0F) = unat lba div 16777216"
proof -
  have n: "(0xFF :: u32) = mask 8" "(0xFF00 :: u32) = push_bit 8 (mask 8)" "(0xFF0000 :: u32) = push_bit 16 (mask 8)" "(0xF000000 :: u32) = push_bit 24 (mask 4)"
    "(0x0F :: u8) = mask 4" "(0xE0 :: u8) = push_bit 5 (mask 3)"
    by (simp_all add: mask_eq_exp_minus_1 push_bit_eq_mult)
  have m: "ucast (lba AND 0xFF) = (ucast lba :: u8)" "ucast (drop_bit 8 (lba AND 0xFF00)) = (ucast (drop_bit 8 lba) :: u8)"
    "ucast (drop_bit 16 (lba AND 0xFF0000)) = (ucast (drop_bit 16 lba) :: u8)"
    "(ucast (drop_bit 24 (lba AND 0xF000000)) :: u8) AND 0x0F = take_bit 4 (ucast (drop_bit 24 lba))"
    unfolding n by (rule bit_word_eqI; auto simp: bit_simps)+
  have h: "(0xE0 OR push_bit 4 1 OR X :: u8) AND 0x0F = X AND 0x0F" for X by (simp add: bit.conj_disj_distrib2)
  have u: "unat (ucast x :: u8) = unat x mod 256" for x :: u32
    by (simp add: unsigned_ucast_eq take_bit_eq_mod)
  show "unat (ucast (lba AND 0xFF) :: u8) = unat lba mod 256" unfolding m u ..
  show "unat (ucast (drop_bit 8 (lba AND 0xFF00)) :: u8) = unat lba div 256 mod 256"
    unfolding m u by (simp add: drop_bit_eq_div unat_div)
  show "unat (ucast (drop_bit 16 (lba AND 0xFF0000)) :: u8) = unat lba div 65536 mod 256"
    unfolding m u by (simp add: drop_bit_eq_div unat_div)
  have "unat lba div 16777216 < 16" using assms by (simp add: word_less_nat_alt)
  then show "unat ((0xE0 OR push_bit 4 1 OR ucast (drop_bit 24 (lba AND 0xF000000)) :: u8) AND 0x0F) = unat lba div 16777216"
    unfolding h m by (simp add: take_bit_eq_mod unat_mod u drop_bit_eq_div unat_div)
qed

lemma radix256: "x mod 256 + 256 * (x div 256 mod 256) + 65536 * (x div 65536 mod 256) + 16777216 * (x div 16777216) = (x :: nat)"
proof -
  define a b c where "a = x div 256" "b = a div 256" "c = b div 256"
  define p q r where "p = x mod 256" "q = a mod 256" "r = b mod 256"
  have "x = 256 * a + p" "a = 256 * b + q" "b = 256 * c + r" by (simp_all add: a_b_c_def p_q_r_def)
  then have "p + 256 * q + 65536 * r + 16777216 * c = x" by linarith
  moreover have "x div 65536 = b" "x div 16777216 = c" by (simp_all add: a_b_c_def div_mult2_eq[symmetric])
  ultimately show ?thesis by (simp add: a_b_c_def(1) p_q_r_def)
qed

lemma head_bits: "(0xE0 OR push_bit 4 1 OR ucast (drop_bit 24 ((lba :: u32) AND 0xF000000)) :: u8) AND 0x40 \<noteq> 0"
  "(0xE0 OR push_bit 4 1 OR ucast (drop_bit 24 (lba AND 0xF000000)) :: u8) AND 0x10 \<noteq> 0"
proof -
  have "bit ((0xE0 OR push_bit 4 1 OR X :: u8) AND 0x40) 6" "bit ((0xE0 OR push_bit 4 1 OR X :: u8) AND 0x10) 4" for X
    by (simp_all add: bit_simps)
  then show "(0xE0 OR push_bit 4 1 OR ucast (drop_bit 24 (lba AND 0xF000000)) :: u8) AND 0x40 \<noteq> 0"
    "(0xE0 OR push_bit 4 1 OR ucast (drop_bit 24 (lba AND 0xF000000)) :: u8) AND 0x10 \<noteq> 0"
    by (metis bit_0_eq bot_apply bot_bool_def)+
qed

lemma holds_lba:
  assumes "holds_lba a lba" "lba < 0x10000000"
  shows "tf_lba a = unat lba" "tf_count a = 1" "tf_slave a" "tfile a 6 AND 0x40 \<noteq> 0"
proof -
  have t: "tfile a 2 = 1" "tfile a 3 = ucast (lba AND 0xFF)" "tfile a 4 = ucast (drop_bit 8 (lba AND 0xFF00))"
    "tfile a 5 = ucast (drop_bit 16 (lba AND 0xFF0000))" "tfile a 6 = 0xE0 OR push_bit 4 1 OR ucast (drop_bit 24 (lba AND 0xF000000))"
    using assms(1) by (simp_all add: holds_lba_def lba_regs_def)
  show "tf_lba a = unat lba" unfolding tf_lba_def t lba_bytes[OF assms(2)] by (rule radix256)
  show "tf_count a = 1" using t(1) by (simp add: tf_count_def)
  show "tf_slave a" "tfile a 6 AND 0x40 \<noteq> 0" unfolding tf_slave_def t(5) using head_bits by blast+
qed

text \<open>Everything a transfer does before its data phase.\<close>

lemma access_prefix:
  assumes "length (channels s) = 2" "ata_conforms P (ch_base (channels s ! 0)) (ch_ctrl (channels s ! 0)) vw"
    "phase (vw (hw s)) = Ready" "drive1_ok dev (capacity (vw (hw s)))" "unat lba < capacity (vw (hw s))" "cmd \<in> {ATA_CMD_READ_PIO, ATA_CMD_WRITE_PIO}"
  shows "\<exists>d a. rbind (ide_write P 0 ATA_REG_CONTROL 2 s) (\<lambda>s. rbind (returned (wait_ready P 0 s)) (\<lambda>s.
      rbind (ata_select P 0 1 (ata_address dev lba) 1 s) (ide_write P 0 ATA_REG_COMMAND cmd))) = Inr (at_hw s d) \<and>
    vw d = a\<lparr>phase := if cmd = ATA_CMD_READ_PIO then Reading (sectors (vw (hw s)) True (unat lba)) else Writing (unat lba) 1 []\<rparr> \<and>
    holds_lba a lba \<and> sectors a = sectors (vw (hw s)) \<and> capacity a = capacity (vw (hw s))"
proof -
  let ?b = "ch_base (channels s ! 0)" and ?c = "ch_ctrl (channels s ! 0)" and ?a = "vw (hw s)"
  have small: "lba < 0x10000000" using assms(4,5) by (simp add: drive1_ok_def word_less_nat_alt)
  have ad: "ata_address dev lba = (1, [ucast (lba AND 0xFF), ucast (drop_bit 8 (lba AND 0xFF00)), ucast (drop_bit 16 (lba AND 0xFF0000)), 0, 0, 0],
         ucast (drop_bit 24 (lba AND 0xF000000)))"
    using small assms(4) by (simp add: ata_address_def drive1_ok_def)
  have c: "vw (p_outb P (?c + 2) 2 (hw s)) = ?a" using conformsD(3)[OF assms(2)] by simp
  obtain d1 where d1: "wait_ready P 0 (at_hw s (p_outb P (?c + 2) 2 (hw s))) = Some (Inr (at_hw s d1))" "vw d1 = ?a\<lparr>busy := 0\<rparr>"
    using wait_ready_busy[of "at_hw s (p_outb P (?c + 2) 2 (hw s))" P vw] assms(1,2) c by auto
  note w = conformsD(1)[OF assms(2)]
  let ?d2 = "p_outb P (?b + 6) (0xE0 OR push_bit 4 1 OR ucast (drop_bit 24 (lba AND 0xF000000))) d1"
  let ?d3 = "p_outb P (?b + 2) 1 ?d2"
  let ?d4 = "p_outb P (?b + 3) (ucast (lba AND 0xFF)) ?d3"
  let ?d5 = "p_outb P (?b + 4) (ucast (drop_bit 8 (lba AND 0xFF00))) ?d4"
  let ?d6 = "p_outb P (?b + 5) (ucast (drop_bit 16 (lba AND 0xFF0000))) ?d5"
  have 2: "vw ?d2 = ?a\<lparr>busy := 0, tfile := (tfile ?a)(6 := 0xE0 OR push_bit 4 1 OR ucast (drop_bit 24 (lba AND 0xF000000)))\<rparr>"
    using w[of 6 d1] d1(2) by simp
  have 3: "vw ?d3 = (vw ?d2)\<lparr>tfile := (tfile (vw ?d2))(2 := 1)\<rparr>" using w[of 2 ?d2] 2 by simp
  have 4: "vw ?d4 = (vw ?d3)\<lparr>tfile := (tfile (vw ?d3))(3 := ucast (lba AND 0xFF))\<rparr>" using w[of 3 ?d3] 2 3 by simp
  have 5: "vw ?d5 = (vw ?d4)\<lparr>tfile := (tfile (vw ?d4))(4 := ucast (drop_bit 8 (lba AND 0xFF00)))\<rparr>" using w[of 4 ?d4] 2 3 4 by simp
  have 6: "vw ?d6 = (vw ?d5)\<lparr>tfile := (tfile (vw ?d5))(5 := ucast (drop_bit 16 (lba AND 0xFF0000)))\<rparr>" using w[of 5 ?d5] 2 3 4 5 by simp
  have k: "busy (vw ?d6) = 0" "sectors (vw ?d6) = sectors ?a" "capacity (vw ?d6) = capacity ?a"
    unfolding 6 5 4 3 2 by simp_all
  have h: "holds_lba (vw ?d6) lba"
    unfolding holds_lba_def lba_regs_def 6 5 4 3 2 by (auto simp: atLeastAtMost_iff)
  obtain n where n: "vw (p_outb P (?b + 7) cmd ?d6) = ata_exec cmd n (vw ?d6)"
    using conformsD(2)[OF assms(2), of cmd ?d6] assms(5,6) k holds_lba[OF h small] by auto
  have "vw (p_outb P (?b + 7) cmd ?d6) = (vw ?d6)\<lparr>busy := n, phase := if cmd = ATA_CMD_READ_PIO then Reading (sectors ?a True (unat lba)) else Writing (unat lba) 1 []\<rparr>"
    unfolding n ata_exec_def using assms(6) k(2) holds_lba[OF h small] by auto
  moreover have "holds_lba ((vw ?d6)\<lparr>busy := n\<rparr>) lba" using h by (simp add: holds_lba_def)
  moreover have "rbind (ide_write P 0 ATA_REG_CONTROL 2 s) (\<lambda>s. rbind (returned (wait_ready P 0 s)) (\<lambda>s.
      rbind (ata_select P 0 1 (ata_address dev lba) 1 s) (ide_write P 0 ATA_REG_COMMAND cmd))) = Inr (at_hw s (p_outb P (?b + 7) cmd ?d6))"
    using assms(1) d1(1) unfolding ad
    by (simp add: ide_write_control ide_write_low returned_def ata_select_def ATA_REG_HDDEVSEL_def ATA_REG_SECCOUNT0_def ATA_REG_LBA0_def
      ATA_REG_LBA1_def ATA_REG_LBA2_def ATA_REG_COMMAND_def)
  ultimately show ?thesis using k(2,3) by (intro exI[of _ "p_outb P (?b + 7) cmd ?d6"] exI[of _ "(vw ?d6)\<lparr>busy := n\<rparr>"]) simp
qed

text \<open>The contents of the second drive, as bytes, and its number of sectors.\<close>

definition contents :: "('d \<Rightarrow> ata_view) \<Rightarrow> 'd ide_state \<Rightarrow> nat \<Rightarrow> u8 list" where
  "contents vw s l = sector_bytes (sectors (vw (hw s)) True l)"

definition nsectors :: "('d \<Rightarrow> ata_view) \<Rightarrow> 'd ide_state \<Rightarrow> nat" where
  "nsectors vw s = capacity (vw (hw s))"

text \<open>The state once the interrupts of the channel are off.\<close>

definition polled :: "'d ide_state \<Rightarrow> 'd ide_state" where
  "polled s = s\<lparr>ide_irq_invoked := 0, channels := (channels s)[0 := (channels s ! 0)\<lparr>nIEN := 2\<rparr>]\<rparr>"

lemma polled_simps [simp]:
  "hw (polled s) = hw s" "ide_devices (polled s) = ide_devices s" "length (channels (polled s)) = length (channels s)" "ide_con (polled s) = ide_con s"
  "length (channels s) = 2 \<Longrightarrow> ch_base (channels (polled s) ! 0) = ch_base (channels s ! 0)"
  "length (channels s) = 2 \<Longrightarrow> ch_ctrl (channels (polled s) ! 0) = ch_ctrl (channels s ! 0)"
  by (simp_all add: polled_def)

lemma ready_hw:
  assumes "ide_ready P vw s" "phase (vw d) = Ready" "capacity (vw d) = capacity (vw (hw s))" "\<forall>l. length (sectors (vw d) True l) = 256"
  shows "ide_ready P vw (at_hw (polled s) d)"
  using assms by (simp add: ide_ready_def)

text \<open>The two phases of an access.\<close>

definition access_start :: "'d ports \<Rightarrow> ide_device \<Rightarrow> u32 \<Rightarrow> u8 \<Rightarrow> 'd ide_state \<Rightarrow> 'd ide_state result" where
  "access_start P dev lba cmd s =
     rbind (ide_write P 0 ATA_REG_CONTROL 2 s) (\<lambda>s. rbind (returned (wait_ready P 0 s)) (\<lambda>s.
     rbind (ata_select P 0 1 (ata_address dev lba) 1 s) (ide_write P 0 ATA_REG_COMMAND cmd)))"

lemma access_phases:
  assumes "ide_ready P vw s" "unat lba < nsectors vw s"
  shows "ide_ata_access P regs ATA_READ 1 lba 1 buf s =
      rbind (access_start P (ide_devices s ! 1) lba ATA_CMD_READ_PIO (polled s)) (pio_read P 0 (ch_base (channels s ! 0)) regs 0 1 buf)"
    "ide_ata_access P regs ATA_WRITE 1 lba 1 buf s =
      rbind (access_start P (ide_devices s ! 1) lba ATA_CMD_WRITE_PIO (polled s)) (\<lambda>s'.
      rbind (pio_write P 0 (ch_base (channels s ! 0)) regs 1 buf s') (\<lambda>s.
      rbind (ide_write P 0 ATA_REG_COMMAND ATA_CMD_CACHE_FLUSH s) (\<lambda>s. rbind (ide_polling P 0 False s) (\<lambda>(_, s). Inr (0, buf, s)))))"
proof -
  note r = assms(1)[unfolded ide_ready_def drive1_ok_def]
  have "fst (ata_address (ide_devices s ! 1) lba) \<noteq> 2"
    using r assms(2) by (auto simp: ata_address_def nsectors_def word_le_nat_alt Let_def)
  then show "ide_ata_access P regs ATA_READ 1 lba 1 buf s =
      rbind (access_start P (ide_devices s ! 1) lba ATA_CMD_READ_PIO (polled s)) (pio_read P 0 (ch_base (channels s ! 0)) regs 0 1 buf)"
    "ide_ata_access P regs ATA_WRITE 1 lba 1 buf s =
      rbind (access_start P (ide_devices s ! 1) lba ATA_CMD_WRITE_PIO (polled s)) (\<lambda>s'.
      rbind (pio_write P 0 (ch_base (channels s ! 0)) regs 1 buf s') (\<lambda>s.
      rbind (ide_write P 0 ATA_REG_COMMAND ATA_CMD_CACHE_FLUSH s) (\<lambda>s. rbind (ide_polling P 0 False s) (\<lambda>(_, s). Inr (0, buf, s)))))"
    using r by (simp_all add: ide_ata_access_def access_start_def Let_def ata_command_def ATA_READ_def ATA_WRITE_def rbind_assoc del: pio_read.simps flip: polled_def)
qed

lemma access_start_ready:
  assumes "ide_ready P vw s" "unat lba < nsectors vw s" "cmd \<in> {ATA_CMD_READ_PIO, ATA_CMD_WRITE_PIO}"
  obtains d a where "access_start P (ide_devices s ! 1) lba cmd (polled s) = Inr (at_hw (polled s) d)"
    "vw d = a\<lparr>phase := if cmd = ATA_CMD_READ_PIO then Reading (sectors (vw (hw s)) True (unat lba)) else Writing (unat lba) 1 []\<rparr>"
    "holds_lba a lba" "sectors a = sectors (vw (hw s))" "capacity a = capacity (vw (hw s))"
proof -
  note r = assms(1)[unfolded ide_ready_def]
  have "length (channels (polled s)) = 2" "ata_conforms P (ch_base (channels (polled s) ! 0)) (ch_ctrl (channels (polled s) ! 0)) vw"
    "phase (vw (hw (polled s))) = Ready" "drive1_ok (ide_devices s ! 1) (capacity (vw (hw (polled s))))" "unat lba < capacity (vw (hw (polled s)))"
    using r assms(2) by (auto simp: nsectors_def)
  from access_prefix[OF this assms(3), unfolded polled_simps(1)] that show thesis unfolding access_start_def by blast
qed

lemma access_read:
  assumes "ide_ready P vw s" "unat lba < nsectors vw s" "length buf = 512"
  shows "\<exists>d. ide_ata_access P regs ATA_READ 1 lba 1 buf s = Inr (0, contents vw s (unat lba), at_hw (polled s) d) \<and>
    ide_ready P vw (at_hw (polled s) d) \<and> contents vw (at_hw (polled s) d) = contents vw s \<and> nsectors vw (at_hw (polled s) d) = nsectors vw s"
proof -
  let ?ss = "sectors (vw (hw s)) True (unat lba)" and ?b = "ch_base (channels s ! 0)"
  note r = assms(1)[unfolded ide_ready_def]
  obtain d a where d: "access_start P (ide_devices s ! 1) lba ATA_CMD_READ_PIO (polled s) = Inr (at_hw (polled s) d)"
    and v: "vw d = a\<lparr>phase := Reading ?ss\<rparr>" "holds_lba a lba" "sectors a = sectors (vw (hw s))" "capacity a = capacity (vw (hw s))"
    using access_start_ready[OF assms(1,2), of ATA_CMD_READ_PIO] by auto
  obtain e where e: "ide_polling P 0 True (at_hw (polled s) d) = Inr (0, at_hw (polled s) e)" "vw e = (vw d)\<lparr>busy := 0\<rparr>"
    using polling_ok[of "at_hw (polled s) d" P vw True] r v(1) by auto
  have ss: "?ss \<noteq> []" "length ?ss = 256" using r by (auto simp flip: length_0_conv)
  obtain f k where f: "insw P ?b 256 e = (sector_bytes ?ss, f)" "vw f = (vw e)\<lparr>busy := k, phase := Ready\<rparr>"
    using insw_sector[of P ?b "ch_ctrl (channels s ! 0)" vw e ?ss "[]"] r v(1) e(2) ss by auto
  have "ide_ata_access P regs ATA_READ 1 lba 1 buf s = Inr (0, sector_bytes ?ss, at_hw (polled s) f)"
    using d e(1) f(1) assms(3) unfolding access_phases(1)[OF assms(1,2)]
    by (simp add: rep_insw_def asm_regs_def)
  moreover have "ide_ready P vw (at_hw (polled s) f)" by (rule ready_hw[OF assms(1)]) (use r f(2) e(2) v in auto)
  moreover have "sectors (vw f) = sectors (vw (hw s))" "capacity (vw f) = capacity (vw (hw s))" using f(2) e(2) v by auto
  ultimately show ?thesis by (intro exI[of _ f]) (simp add: contents_def nsectors_def fun_eq_iff)
qed

lemma access_write:
  assumes "ide_ready P vw s" "unat lba < nsectors vw s" "length buf = 512"
  shows "\<exists>d. ide_ata_access P regs ATA_WRITE 1 lba 1 buf s = Inr (0, buf, at_hw (polled s) d) \<and>
    ide_ready P vw (at_hw (polled s) d) \<and> contents vw (at_hw (polled s) d) = (contents vw s)(unat lba := buf) \<and>
    nsectors vw (at_hw (polled s) d) = nsectors vw s"
proof -
  let ?b = "ch_base (channels s ! 0)"
  note r = assms(1)[unfolded ide_ready_def]
  have small: "lba < 0x10000000" using r assms(2) by (simp add: nsectors_def drive1_ok_def word_less_nat_alt)
  obtain d a where d: "access_start P (ide_devices s ! 1) lba ATA_CMD_WRITE_PIO (polled s) = Inr (at_hw (polled s) d)"
    and v: "vw d = a\<lparr>phase := Writing (unat lba) 1 []\<rparr>" "holds_lba a lba" "sectors a = sectors (vw (hw s))" "capacity a = capacity (vw (hw s))"
    using access_start_ready[OF assms(1,2), of ATA_CMD_WRITE_PIO] by (auto simp: ATA_CMD_WRITE_PIO_def ATA_CMD_READ_PIO_def)
  obtain e where e: "ide_polling P 0 False (at_hw (polled s) d) = Inr (0, at_hw (polled s) e)" "vw e = (vw d)\<lparr>busy := 0\<rparr>"
    using polling_ok[of "at_hw (polled s) d" P vw False] r by auto
  have sl: "tf_slave (vw e)" using holds_lba(3)[OF v(2) small] e(2) v(1) by (simp add: tf_slave_def)
  obtain k where k: "vw (outsw P ?b buf e) = (vw e)\<lparr>busy := k, phase := Ready, sectors := (sectors a)(True := (sectors a True)(unat lba := bytes_words buf))\<rparr>"
    using outsw_sector[of P ?b "ch_ctrl (channels s ! 0)" vw e "unat lba" 1 "[]" buf] r v(1) e(2) sl assms(3) by (cases buf) auto
  let ?f = "outsw P ?b buf e"
  let ?g = "p_outb P (?b + 7) ATA_CMD_CACHE_FLUSH ?f"
  have "phase (vw ?f) = Ready" using k by simp
  then obtain n where n: "vw ?g = (vw ?f)\<lparr>busy := n\<rparr>" using r unfolding flush_tolerant_def by blast
  obtain h where h: "ide_polling P 0 False (at_hw (polled s) ?g) = Inr (0, at_hw (polled s) h)" "vw h = (vw ?g)\<lparr>busy := 0\<rparr>"
    using polling_ok[of "at_hw (polled s) ?g" P vw False] r by auto
  have "ide_ata_access P regs ATA_WRITE 1 lba 1 buf s = Inr (0, buf, at_hw (polled s) h)"
    using d e(1) h(1) r assms(3) unfolding access_phases(2)[OF assms(1,2)]
    by (simp add: pio_write_def rep_outsw_def asm_regs_def ide_write_low ATA_REG_COMMAND_def)
  moreover have s: "sectors (vw h) True = (sectors (vw (hw s)) True)(unat lba := bytes_words buf)" "capacity (vw h) = capacity (vw (hw s))" "phase (vw h) = Ready"
    using h(2) n k e(2) v by auto
  moreover have "ide_ready P vw (at_hw (polled s) h)"
    by (rule ready_hw[OF assms(1)]) (use r s length_bytes_words[of buf] assms(3) in auto)
  moreover have "contents vw (at_hw (polled s) h) = (contents vw s)(unat lba := buf)"
    using s(1) assms(3) by (auto simp: contents_def sector_bytes_words)
  ultimately show ?thesis by (intro exI[of _ h]) (simp add: nsectors_def)
qed

section \<open>Sectors as a block device\<close>

text \<open>What the file system module needs from the disk: single sectors are stored and come back.\<close>

locale block_device =
  fixes rd :: "u8 list \<Rightarrow> u32 \<Rightarrow> 's \<Rightarrow> (nat \<times> u8 list \<times> 's) result"
    and wr :: "u8 list \<Rightarrow> u32 \<Rightarrow> 's \<Rightarrow> (nat \<times> 's) result"
    and ok :: "'s \<Rightarrow> bool"
    and media :: "'s \<Rightarrow> nat \<Rightarrow> u8 list"
    and size :: "'s \<Rightarrow> nat"
  assumes rd_ok: "ok s \<Longrightarrow> unat l < size s \<Longrightarrow> length buf = 512 \<Longrightarrow>
      \<exists>s'. rd buf l s = Inr (RES_OK, media s (unat l), s') \<and> ok s' \<and> media s' = media s \<and> size s' = size s"
    and wr_ok: "ok s \<Longrightarrow> unat l < size s \<Longrightarrow> length buf = 512 \<Longrightarrow>
      \<exists>s'. wr buf l s = Inr (RES_OK, s') \<and> ok s' \<and> media s' = (media s)(unat l := buf) \<and> size s' = size s"
    and media_length: "ok s \<Longrightarrow> length (media s n) = 512"
begin

lemma write_range:
  assumes "ok s" "lo + n \<le> size s" "lo + n < 2 ^ 32" "length bs = 512"
  shows "\<exists>s'. kfor lo n (\<lambda>i s. rbind (wr bs (of_nat i) s) (\<lambda>(_, s). Inr s)) s = Inr s' \<and> ok s' \<and> size s' = size s \<and>
    (\<forall>l. media s' l = (if lo \<le> l \<and> l < lo + n then bs else media s l))"
proof -
  let ?I = "\<lambda>i t. ok t \<and> size t = size s \<and> (\<forall>l. media t l = (if lo \<le> l \<and> l < i then bs else media s l))"
  have "\<exists>s'. kfor lo n (\<lambda>i s. rbind (wr bs (of_nat i) s) (\<lambda>(_, s). Inr s)) s = Inr s' \<and> ?I (lo + n) s'"
  proof (rule kfor_inv)
    show "?I lo s" using assms(1) by auto
  next
    fix i t
    assume i: "lo \<le> i" "i < lo + n" and t: "?I i t"
    have u: "unat (of_nat i :: u32) = i" using i assms(3) by (simp add: unat_of_nat32)
    then obtain t' where "wr bs (of_nat i) t = Inr (RES_OK, t')" "ok t'" "media t' = (media t)(i := bs)" "size t' = size t"
      using wr_ok[of t "of_nat i" bs] t i assms(2,4) by auto
    then show "\<exists>t'. rbind (wr bs (of_nat i) t) (\<lambda>(_, s). Inr s) = Inr t' \<and> ?I (Suc i) t'" using t i by (auto simp: less_Suc_eq)
  qed
  then show ?thesis .
qed

lemma read_range:
  assumes "ok s" "lo + n \<le> size s" "lo + n < 2 ^ 32" "length buf = 512" "\<And>i t. lo \<le> i \<Longrightarrow> i < lo + n \<Longrightarrow> chk i (media s i) t = Inr t"
  shows "\<exists>s'. kfor lo n (\<lambda>i s. rbind (rd buf (of_nat i) s) (\<lambda>(_, b, s). chk i b s)) s = Inr s' \<and> ok s' \<and> size s' = size s \<and> media s' = media s"
proof -
  let ?I = "\<lambda>(i :: nat) t. ok t \<and> size t = size s \<and> media t = media s"
  have "\<exists>s'. kfor lo n (\<lambda>i s. rbind (rd buf (of_nat i) s) (\<lambda>(_, b, s). chk i b s)) s = Inr s' \<and> ?I (lo + n) s'"
  proof (rule kfor_inv)
    show "?I lo s" using assms(1) by auto
  next
    fix i t
    assume i: "lo \<le> i" "i < lo + n" and t: "?I i t"
    have u: "unat (of_nat i :: u32) = i" using i assms(3) by (simp add: unat_of_nat32)
    then obtain t' where "rd buf (of_nat i) t = Inr (RES_OK, media s i, t')" "ok t'" "media t' = media t" "size t' = size t"
      using rd_ok[of t "of_nat i" buf] t i assms(2,4) by auto
    then show "\<exists>t'. rbind (rd buf (of_nat i) t) (\<lambda>(_, b, s). chk i b s) = Inr t' \<and> ?I (Suc i) t'" using t assms(5)[OF i] by auto
  qed
  then show ?thesis .
qed

end

lemma ready_status: "ide_ready P vw (s\<lparr>ide_status := x\<rparr>) = ide_ready P vw s" "contents vw (s\<lparr>ide_status := x\<rparr>) = contents vw s"
  "nsectors vw (s\<lparr>ide_status := x\<rparr>) = nsectors vw s"
  by (simp_all add: ide_ready_def contents_def nsectors_def fun_eq_iff)

lemma sectors_in_range:
  assumes "ide_ready P vw s" "unat lba < nsectors vw s"
  shows "Reserved (ide_devices s ! 1) \<noteq> 0" "\<not> lba + 1 > Size (ide_devices s ! 1)" "Type (ide_devices s ! 1) = IDE_ATA" "1 < length (ide_devices s)"
proof -
  note r = assms(1)[unfolded ide_ready_def drive1_ok_def]
  show "Reserved (ide_devices s ! 1) \<noteq> 0" "Type (ide_devices s ! 1) = IDE_ATA" "1 < length (ide_devices s)" using r by auto
  have "unat (lba + 1) = unat lba + 1" using unat_word_ariths(1)[of lba 1] r assms(2) by (simp add: nsectors_def)
  then show "\<not> lba + 1 > Size (ide_devices s ! 1)" using r assms(2) by (simp add: nsectors_def word_less_nat_alt)
qed

lemma read_sectors_ok:
  assumes "ide_ready P vw s" "unat lba < nsectors vw s" "length buf = 512"
  shows "\<exists>s'. ide_read_sectors P regs 1 1 lba buf s = Inr (0, contents vw s (unat lba), s') \<and> ide_ready P vw s' \<and>
    contents vw s' = contents vw s \<and> nsectors vw s' = nsectors vw s \<and> ide_con s' = ide_con s"
proof -
  obtain d where d: "ide_ata_access P regs ATA_READ 1 lba 1 buf s = Inr (0, contents vw s (unat lba), at_hw (polled s) d)"
    "ide_ready P vw (at_hw (polled s) d)" "contents vw (at_hw (polled s) d) = contents vw s" "nsectors vw (at_hw (polled s) d) = nsectors vw s"
    using access_read[OF assms] by blast
  then have "ide_read_sectors P regs 1 1 lba buf s = Inr (0, contents vw s (unat lba), (at_hw (polled s) d)\<lparr>ide_status := 0\<rparr>)"
    using sectors_in_range[OF assms(1,2)] by (simp add: ide_read_sectors_def ide_print_error_def)
  then show ?thesis using d(2-) by (auto simp: ready_status)
qed

lemma write_sectors_ok:
  assumes "ide_ready P vw s" "unat lba < nsectors vw s" "length buf = 512"
  shows "\<exists>s'. ide_write_sectors P regs 1 1 lba buf s = Inr (0, s') \<and> ide_ready P vw s' \<and>
    contents vw s' = (contents vw s)(unat lba := buf) \<and> nsectors vw s' = nsectors vw s \<and> ide_con s' = ide_con s"
proof -
  obtain d where d: "ide_ata_access P regs ATA_WRITE 1 lba 1 buf s = Inr (0, buf, at_hw (polled s) d)"
    "ide_ready P vw (at_hw (polled s) d)" "contents vw (at_hw (polled s) d) = (contents vw s)(unat lba := buf)" "nsectors vw (at_hw (polled s) d) = nsectors vw s"
    using access_write[OF assms] by blast
  then have "ide_write_sectors P regs 1 1 lba buf s = Inr (0, (at_hw (polled s) d)\<lparr>ide_status := 0\<rparr>)"
    using sectors_in_range[OF assms(1,2)] by (simp add: ide_write_sectors_def ide_print_error_def)
  then show ?thesis using d(2-) by (auto simp: ready_status)
qed

interpretation ide_disk: block_device "\<lambda>buf l. disk_read P regs pdrv buf l 1" "\<lambda>buf l. disk_write P regs pdrv buf l 1"
  "\<lambda>s. ide_ready P vw s \<and> ide_con s = con" "contents vw" "nsectors vw"
proof (unfold_locales, goal_cases)
  case (1 s l buf)
  then show ?case using read_sectors_ok[of P vw s l buf regs] by (fastforce simp: disk_read_def DISK_ID_def)
next
  case (2 s l buf)
  then show ?case using write_sectors_ok[of P vw s l buf regs] by (fastforce simp: disk_write_def DISK_ID_def)
next
  case (3 s l)
  then show ?case by (simp add: contents_def ide_ready_def)
qed

section \<open>Theorems\<close>

text \<open>A drive that follows the standard, with 16 empty sectors.\<close>

definition sim_ports :: "ata_view ports" where
  "sim_ports =
     \<lparr>p_inb = \<lambda>p a. if p = 0x1F7 then
        (if busy a = 0 then (if phase a = Ready then 0x40 else 0x48, a) else (0x80, a\<lparr>busy := busy a - 1\<rparr>)) else (0, a),
      p_outb = \<lambda>p v a. if p = 0x1F7 then
          (if v = ATA_CMD_CACHE_FLUSH then a\<lparr>busy := 1\<rparr> else if busy a = 0 then ata_exec v 2 a else a)
        else if busy a = 0 \<and> 0x1F2 \<le> p \<and> p \<le> 0x1F6 then a\<lparr>tfile := (tfile a)(unat (p - 0x1F0) := v)\<rparr> else a,
      p_inw = \<lambda>p a. case phase a of
          Reading (w # ws) \<Rightarrow> (w, a\<lparr>busy := 0, phase := if ws = [] then Ready else Reading ws\<rparr>)
        | _ \<Rightarrow> (0, a),
      p_outw = \<lambda>p w a. case phase a of Writing lba n ws \<Rightarrow> ata_store w 1 lba n ws a | _ \<Rightarrow> a,
      p_inl = \<lambda>p a. (0, a)\<rparr>"

definition sim_disk :: "ata_view ide_state" where
  "sim_disk =
     (let d = \<lparr>Reserved = 1, Channel = 0, Drive = 1, Type = 0, Signature = 0, Capabilities = 0x200, CommandSets = 0, Size = 16, Model = ascii ''SIM''\<rparr> in
      \<lparr>ide_devices = replicate 4 d, channels = replicate 2 \<lparr>ch_base = 0x1F0, ch_ctrl = 0x3F4, ch_bmide = 0, nIEN = 0\<rparr>, ide_buf = replicate 2048 0,
       ide_irq_invoked = 0, ide_status = 0, disk_inited = True, ide_con = blank_console,
       hw = \<lparr>tfile = \<lambda>_. 0, busy = 3, phase = Ready, capacity = 16, sectors = \<lambda>_ _. replicate 256 0\<rparr>\<rparr>)"

lemma sim_conforms: "ata_conforms sim_ports 0x1F0 0x3F4 id" "flush_tolerant sim_ports 0x1F0 id"
proof -
  have r: "(0x1F0 :: u16) + of_nat r \<noteq> 0x1F7" "0x1F2 \<le> (0x1F0 :: u16) + of_nat r" "(0x1F0 :: u16) + of_nat r \<le> 0x1F6" "unat (of_nat r :: u16) = r"
    if "2 \<le> r" "r \<le> 6" for r :: nat
  proof -
    have "r \<in> {2, 3, 4, 5, 6}" using that by auto
    then show "(0x1F0 :: u16) + of_nat r \<noteq> 0x1F7" "0x1F2 \<le> (0x1F0 :: u16) + of_nat r" "(0x1F0 :: u16) + of_nat r \<le> 0x1F6" "unat (of_nat r :: u16) = r"
      by auto
  qed
  show "ata_conforms sim_ports 0x1F0 0x3F4 id"
    unfolding ata_conforms_def sim_ports_def
    by (auto simp: r ATA_CMD_READ_PIO_def ATA_CMD_WRITE_PIO_def ATA_CMD_CACHE_FLUSH_def ATA_SR_BSY_def ATA_SR_DF_def ATA_SR_DRQ_def ATA_SR_ERR_def
      simp del: ata_store.simps)
  show "flush_tolerant sim_ports 0x1F0 id" by (auto simp: flush_tolerant_def sim_ports_def)
qed

lemma zero_sector: "sector_bytes (replicate n 0) = replicate (2 * n) 0"
  by (induction n) (simp_all add: sector_bytes_def)

lemma sim_ready: "ide_ready sim_ports id sim_disk" "nsectors id sim_disk = 16" "contents id sim_disk = (\<lambda>_. replicate 512 0)"
  using sim_conforms by (simp_all add: ide_ready_def sim_disk_def drive1_ok_def IDE_ATA_def nsectors_def contents_def zero_sector fun_eq_iff Let_def)



text \<open>C39. The disk interface hides every error: a read outside the drive reports success and leaves the
  buffer as it was, and a write outside the drive reports success and changes nothing; only the last
  sector number, for which the range check overflows, is not caught.\<close>

theorem disk_io_hides_errors:
  assumes "ide_ready P vw s" "nsectors vw s \<le> unat l" "l \<noteq> 0xFFFFFFFF"
  shows "disk_read P regs pdrv buf l 1 s = Inr (RES_OK, buf, s\<lparr>ide_status := 2\<rparr>) \<and>
    disk_write P regs pdrv bs l 1 s = Inr (RES_OK, s\<lparr>ide_status := 2\<rparr>)"
proof -
  note r = assms(1)[unfolded ide_ready_def drive1_ok_def]
  have "unat l \<noteq> 4294967295" using assms(3) by (simp add: word_unat_eq_iff)
  then have "unat (l + 1) = unat l + 1" using unat_word_ariths(1)[of l 1] unat_lt_2p32[of l] by simp
  then have "l + 1 > Size (ide_devices s ! 1)" using r assms(2) by (simp add: nsectors_def word_less_nat_alt)
  then show ?thesis
    using r by (simp add: disk_read_def disk_write_def ide_read_sectors_def ide_write_sectors_def DISK_ID_def)
qed

theorem disk_io_hides_errors_witness:
  "disk_read sim_ports (\<lambda>_. (0, 0)) 0 (replicate 512 7) 16 1 sim_disk = Inr (RES_OK, replicate 512 7, sim_disk\<lparr>ide_status := 2\<rparr>)"
  using disk_io_hides_errors[OF sim_ready(1), of 16 "\<lambda>_. (0, 0)" 0 "replicate 512 7" "[]"] sim_ready(2) by simp



end
